(* ===== verification/Prelude.thy ===== *)
theory Prelude
  imports Main "HOL-Library.AList" "HOL-Library.Word"
begin

text \<open>
  Shared vocabulary of the development.

  \<^item> Rust strings and paths are byte strings (\<open>string\<close>, one \<open>char\<close> per UTF-8 byte), with the
    \<^verbatim>\<open>str\<close> methods the program uses (\<open>starts_with\<close>, \<open>strip_prefix\<close>, \<open>rfind\<close>, ...).
  \<^item> A \<^verbatim>\<open>HashMap\<close> is an association list; its order stands for the (unspecified) iteration order.
  \<^item> Effectful functions are \<open>prog\<close>s: state in, result and state out. \<open>Inl\<close> is Rust's \<^verbatim>\<open>Err\<close>,
    \<open>Inr\<close> its \<^verbatim>\<open>Ok\<close>, and \<open>None\<close> means that the call never returns. \<open>andthen\<close> is
    sequencing with the \<^verbatim>\<open>?\<close> operator; \<open>attempt\<close> is a \<^verbatim>\<open>match\<close> on a result.
  \<^item> \<open>keeps\<close> is the preservation triple every component's invariant proof is made of; its
    rules are collected in \<open>keeps_rules\<close>.
\<close>

section \<open>Identifiers of the model\<close>

type_synonym u64 = "64 word"
type_synonym u32 = "32 word"
type_synonym path = string
type_synonym ('k, 'v) hashmap = "('k \<times> 'v) list"

named_theorems keeps_rules \<open>preservation rules for programs\<close>
named_theorems str_simps \<open>facts about the string methods\<close>

section \<open>Strings\<close>

definition slash :: char where
  "slash = CHR ''/''"

definition starts_with :: "string \<Rightarrow> string \<Rightarrow> bool" where
  "starts_with s p \<longleftrightarrow> take (length p) s = p"

definition strip_prefix :: "string \<Rightarrow> string \<Rightarrow> string option" where
  "strip_prefix s p = (if starts_with s p then Some (drop (length p) s) else None)"

definition strip_suffix :: "string \<Rightarrow> string \<Rightarrow> string option" where
  "strip_suffix s x =
     (if length x \<le> length s \<and> drop (length s - length x) s = x
      then Some (take (length s - length x) s) else None)"

fun rfind :: "char \<Rightarrow> string \<Rightarrow> nat option" where
  "rfind c [] = None"
| "rfind c (x # xs) =
     (case rfind c xs of Some i \<Rightarrow> Some (Suc i) | None \<Rightarrow> if x = c then Some 0 else None)"

definition trim_start_slash :: "string \<Rightarrow> string" where
  "trim_start_slash s = dropWhile (\<lambda>c. c = slash) s"

text \<open>\<^verbatim>\<open>Path::join\<close>: an absolute path replaces, a relative one is appended after one slash.\<close>

definition path_join :: "path \<Rightarrow> path \<Rightarrow> path" where
  "path_join root rel =
     (if starts_with rel [slash] then rel
      else if root = '''' \<or> last root = slash then root @ rel
      else root @ slash # rel)"

lemma starts_with_iff: "starts_with s p \<longleftrightarrow> (\<exists>r. s = p @ r)"
  unfolding starts_with_def by (metis append_take_drop_id append_eq_conv_conj)

lemma starts_with_append [simp]: "starts_with (p @ r) p"
  by (auto simp: starts_with_iff)

lemma starts_with_Nil [simp]: "starts_with s []"
  by (simp add: starts_with_def)

lemma strip_prefix_Some: "strip_prefix s p = Some r \<longleftrightarrow> s = p @ r"
  by (auto simp: strip_prefix_def starts_with_iff)

lemma strip_suffix_Some: "strip_suffix s x = Some r \<longleftrightarrow> s = r @ x"
proof
  assume "strip_suffix s x = Some r"
  then show "s = r @ x"
    by (auto simp: strip_suffix_def split: if_splits) (metis append_take_drop_id)
qed (simp add: strip_suffix_def)

lemma rfind_None: "rfind c s = None \<longleftrightarrow> c \<notin> set s"
  by (induction s) (auto split: option.splits)

lemma rfind_Some:
  "rfind c s = Some i \<longleftrightarrow> i < length s \<and> s ! i = c \<and> c \<notin> set (drop (Suc i) s)"
proof (induction s arbitrary: i)
  case (Cons x xs)
  show ?case
  proof (cases "rfind c xs")
    case None
    then have "c \<notin> set xs" by (simp add: rfind_None)
    then show ?thesis using None by (cases i) (auto simp: in_set_conv_nth)
  next
    case (Some j)
    then have "c \<in> set xs" by (metis option.distinct(1) rfind_None)
    show ?thesis
    proof (cases i)
      case 0
      with Some \<open>c \<in> set xs\<close> show ?thesis by simp
    next
      case (Suc k)
      have "(Some j = Some k) = (k < length xs \<and> xs ! k = c \<and> c \<notin> set (drop (Suc k) xs))"
        using Cons.IH [of k] unfolding Some .
      with Suc Some show ?thesis by simp
    qed
  qed
qed simp

lemma rfind_less: "rfind c s = Some i \<Longrightarrow> i < length s"
  by (simp add: rfind_Some)

lemma rfind_append_last: "c \<notin> set t \<Longrightarrow> rfind c (s @ c # t) = Some (length s)"
  by (simp add: rfind_Some)

text \<open>Decimal rendering of a counter, as \<^verbatim>\<open>format!("{}", n)\<close> prints it.\<close>

fun digit_char :: "nat \<Rightarrow> char" where
  "digit_char n = char_of (48 + n)"

function fmt_nat :: "nat \<Rightarrow> string" where
  "fmt_nat n = (if n < 10 then [digit_char n] else fmt_nat (n div 10) @ [digit_char (n mod 10)])"
  by pat_completeness auto
termination
  by (relation "measure id") auto

declare fmt_nat.simps [simp del]

lemma digit_char_inj: "m < 10 \<Longrightarrow> n < 10 \<Longrightarrow> digit_char m = digit_char n \<Longrightarrow> m = n"
  by (auto simp: take_bit_eq_mod dest!: arg_cong [where f = "of_char :: char \<Rightarrow> nat"])

lemma fmt_nat_nonempty: "fmt_nat n \<noteq> []"
  by (subst fmt_nat.simps) simp

lemma fmt_nat_inj: "fmt_nat m = fmt_nat n \<Longrightarrow> m = n"
proof (induction m arbitrary: n rule: less_induct)
  case (less m)
  show ?case
  proof (cases "m < 10 \<or> n < 10")
    case True
    then show ?thesis
      using less.prems digit_char_inj [of m n] fmt_nat_nonempty [of "m div 10"]
        fmt_nat_nonempty [of "n div 10"]
      by (auto simp: fmt_nat.simps [of m] fmt_nat.simps [of n] split: if_splits)
  next
    case False
    then have "fmt_nat (m div 10) = fmt_nat (n div 10)"
      and "digit_char (m mod 10) = digit_char (n mod 10)"
      using less.prems by (simp_all add: fmt_nat.simps [of m] fmt_nat.simps [of n])
    moreover have "m div 10 < m" using False by simp
    ultimately have "m div 10 = n div 10" "m mod 10 = n mod 10"
      using less.IH digit_char_inj by auto
    then show ?thesis by (metis div_mult_mod_eq)
  qed
qed

lemma fmt_nat_digits: "set (fmt_nat n) \<subseteq> digit_char ` {..<10}"
proof (induction n rule: fmt_nat.induct)
  case (1 n)
  then show ?case by (subst fmt_nat.simps) auto
qed

section \<open>Hash maps\<close>

text \<open>
  \<^verbatim>\<open>get\<close> is \<open>map_of\<close>, \<^verbatim>\<open>insert\<close> is \<open>AList.update\<close>, \<^verbatim>\<open>remove\<close> is
  \<open>AList.delete\<close>; \<^verbatim>\<open>extend\<close> and \<^verbatim>\<open>retain\<close> are below.
\<close>

definition hm_extend :: "('k, 'v) hashmap \<Rightarrow> ('k \<times> 'v) list \<Rightarrow> ('k, 'v) hashmap" where
  "hm_extend m kvs = fold (\<lambda>(k, v). AList.update k v) kvs m"

definition hm_retain_keys :: "('k \<Rightarrow> bool) \<Rightarrow> ('k, 'v) hashmap \<Rightarrow> ('k, 'v) hashmap" where
  "hm_retain_keys P m = filter (\<lambda>(k, v). P k) m"

definition hm_delete_all :: "'k list \<Rightarrow> ('k, 'v) hashmap \<Rightarrow> ('k, 'v) hashmap" where
  "hm_delete_all ks m = fold AList.delete ks m"

text \<open>\<^verbatim>\<open>get_mut\<close> followed by an assignment: nothing happens when the key is absent.\<close>

definition hm_adjust :: "'k \<Rightarrow> ('v \<Rightarrow> 'v) \<Rightarrow> ('k, 'v) hashmap \<Rightarrow> ('k, 'v) hashmap" where
  "hm_adjust k f m = map (\<lambda>(k', v). (k', if k' = k then f v else v)) m"

lemma map_of_update [simp]: "map_of (AList.update k v m) = (map_of m)(k \<mapsto> v)"
  by (simp add: update_conv' fun_eq_iff)

lemma map_of_delete [simp]: "map_of (AList.delete k m) = (map_of m)(k := None)"
  by (simp add: delete_conv' fun_eq_iff)

lemma map_of_hm_retain_keys [simp]:
  "map_of (hm_retain_keys P m) k = (if P k then map_of m k else None)"
  by (induction m) (auto simp: hm_retain_keys_def)

lemma map_of_hm_delete_all [simp]:
  "map_of (hm_delete_all ks m) k = (if k \<in> set ks then None else map_of m k)"
  by (induction ks arbitrary: m) (auto simp: hm_delete_all_def)

lemma map_of_hm_adjust [simp]:
  "map_of (hm_adjust k f m) k' = (if k' = k then map_option f (map_of m k) else map_of m k')"
  by (induction m) (auto simp: hm_adjust_def)

lemma map_of_hm_extend: "map_of (hm_extend m kvs) = map_of m ++ map_of (rev kvs)"
  by (induction kvs arbitrary: m) (auto simp: hm_extend_def map_add_def fun_eq_iff split: option.splits)

lemma hm_extend_distinct [simp]:
  "distinct (map fst m) \<Longrightarrow> distinct (map fst (hm_extend m kvs))"
  by (induction kvs arbitrary: m) (auto simp: hm_extend_def distinct_update)

lemma hm_delete_all_distinct [simp]:
  "distinct (map fst m) \<Longrightarrow> distinct (map fst (hm_delete_all ks m))"
  by (induction ks arbitrary: m) (auto simp: hm_delete_all_def distinct_delete)

lemma hm_retain_keys_distinct [simp]:
  "distinct (map fst m) \<Longrightarrow> distinct (map fst (hm_retain_keys P m))"
  unfolding hm_retain_keys_def by (induction m) auto

lemma hm_adjust_keys [simp]: "map fst (hm_adjust k f m) = map fst m"
  by (induction m) (auto simp: hm_adjust_def)

lemma delete_distinct [simp]: "distinct (map fst m) \<Longrightarrow> distinct (map fst (AList.delete k m))"
  by (rule distinct_delete)

lemma update_distinct [simp]: "distinct (map fst m) \<Longrightarrow> distinct (map fst (AList.update k v m))"
  by (rule distinct_update)

section \<open>Programs\<close>

type_synonym ('s, 'e, 'a) prog = "'s \<Rightarrow> (('e + 'a) \<times> 's) option"

definition ret :: "'a \<Rightarrow> ('s, 'e, 'a) prog" where
  "ret x = (\<lambda>s. Some (Inr x, s))"

definition throw :: "'e \<Rightarrow> ('s, 'e, 'a) prog" where
  "throw e = (\<lambda>s. Some (Inl e, s))"

definition andthen :: "('s, 'e, 'a) prog \<Rightarrow> ('a \<Rightarrow> ('s, 'e, 'b) prog) \<Rightarrow> ('s, 'e, 'b) prog" where
  "andthen m k = (\<lambda>s. Option.bind (m s) (\<lambda>(r, s').
     case r of Inl e \<Rightarrow> Some (Inl e, s') | Inr x \<Rightarrow> k x s'))"

definition attempt :: "('s, 'e, 'a) prog \<Rightarrow> ('s, 'f, 'e + 'a) prog" where
  "attempt m = (\<lambda>s. Option.bind (m s) (\<lambda>(r, s'). Some (Inr r, s')))"

definition map_err :: "('e \<Rightarrow> 'f) \<Rightarrow> ('s, 'e, 'a) prog \<Rightarrow> ('s, 'f, 'a) prog" where
  "map_err f m = (\<lambda>s. Option.bind (m s) (\<lambda>(r, s').
     Some (case r of Inl e \<Rightarrow> Inl (f e) | Inr x \<Rightarrow> Inr x, s')))"

definition gets :: "('s \<Rightarrow> 'a) \<Rightarrow> ('s, 'e, 'a) prog" where
  "gets f = (\<lambda>s. Some (Inr (f s), s))"

definition modify :: "('s \<Rightarrow> 's) \<Rightarrow> ('s, 'e, unit) prog" where
  "modify f = (\<lambda>s. Some (Inr (), f s))"

definition ok_or :: "'e \<Rightarrow> 'a option \<Rightarrow> ('s, 'e, 'a) prog" where
  "ok_or e x = (case x of None \<Rightarrow> throw e | Some v \<Rightarrow> ret v)"

definition from_result :: "'e + 'a \<Rightarrow> ('s, 'e, 'a) prog" where
  "from_result r = (\<lambda>s. Some (r, s))"

definition unless :: "bool \<Rightarrow> 'e \<Rightarrow> ('s, 'e, unit) prog" where
  "unless b e = (if b then ret () else throw e)"

text \<open>Run a program on a part of the state.\<close>

definition zoom :: "('s \<Rightarrow> 't) \<Rightarrow> (('t \<Rightarrow> 't) \<Rightarrow> 's \<Rightarrow> 's) \<Rightarrow> ('t, 'e, 'a) prog \<Rightarrow> ('s, 'e, 'a) prog" where
  "zoom rd up m = (\<lambda>s. Option.bind (m (rd s)) (\<lambda>(r, t). Some (r, up (\<lambda>_. t) s)))"

lemmas prog_defs = ret_def throw_def andthen_def attempt_def map_err_def gets_def modify_def
  ok_or_def from_result_def unless_def zoom_def

lemma andthen_ret [simp]: "andthen (ret x) k = k x"
  by (simp add: prog_defs)

lemma andthen_throw [simp]: "andthen (throw e) k = throw e"
  by (simp add: prog_defs)

lemma andthen_gets [simp]: "andthen (gets f) k = (\<lambda>s. k (f s) s)"
  by (simp add: prog_defs)

lemma andthen_modify [simp]: "andthen (modify f) k = (\<lambda>s. k () (f s))"
  by (simp add: prog_defs)

lemma andthen_eq:
  "m s = m' s \<Longrightarrow> (\<And>v t. m' s = Some (Inr v, t) \<Longrightarrow> k v t = k' v t) \<Longrightarrow> andthen m k s = andthen m' k' s"
  by (auto simp: andthen_def split: Option.bind_splits sum.splits)

lemma andthen_assoc: "andthen (andthen m f) g = andthen m (\<lambda>x. andthen (f x) g)"
  by (auto simp: andthen_def fun_eq_iff split: Option.bind_splits sum.splits)

lemma andthen_mono [partial_function_mono]:
  assumes "mono_option (\<lambda>f. m f s)" and "\<And>y t. mono_option (\<lambda>f. k f y t)"
  shows "mono_option (\<lambda>f. andthen (m f) (k f) s)"
  unfolding andthen_def
  by (intro bind_mono assms, rename_tac y, case_tac y, rename_tac r t, case_tac r)
     (auto intro!: assms option.const_mono)

text \<open>The \<^verbatim>\<open>?\<close> operator on plain results.\<close>

definition res_then :: "'e + 'a \<Rightarrow> ('a \<Rightarrow> 'e + 'b) \<Rightarrow> 'e + 'b" where
  "res_then r k = (case r of Inl e \<Rightarrow> Inl e | Inr x \<Rightarrow> k x)"

definition res_or :: "'e \<Rightarrow> 'a option \<Rightarrow> 'e + 'a" where
  "res_or e x = (case x of None \<Rightarrow> Inl e | Some v \<Rightarrow> Inr v)"

lemma res_then_simps [simp]: "res_then (Inl e) k = Inl e" "res_then (Inr x) k = k x"
  by (simp_all add: res_then_def)

lemma res_or_simps [simp]: "res_or e None = Inl e" "res_or e (Some v) = Inr v"
  by (simp_all add: res_or_def)

lemma res_then_Inr: "res_then r k = Inr y \<longleftrightarrow> (\<exists>x. r = Inr x \<and> k x = Inr y)"
  by (cases r) simp_all

text \<open>Steps and inversions, for evaluating and for taking apart a run.\<close>

lemma andthen_step: "m s = Some (Inr x, t) \<Longrightarrow> andthen m k s = k x t"
  by (simp add: andthen_def)

lemma andthen_stop: "m s = Some (Inl e, t) \<Longrightarrow> andthen m k s = Some (Inl e, t)"
  by (simp add: andthen_def)

lemma andthen_Inr:
  "andthen m k s = Some (Inr y, s') \<longleftrightarrow> (\<exists>x t. m s = Some (Inr x, t) \<and> k x t = Some (Inr y, s'))"
  by (auto simp: andthen_def split: Option.bind_splits sum.splits)

lemma map_err_Inr [simp]: "map_err f m s = Some (Inr y, s') \<longleftrightarrow> m s = Some (Inr y, s')"
  by (auto simp: map_err_def split: Option.bind_splits sum.splits)

lemma map_err_Inl: "map_err f m s = Some (Inl e, s') \<longleftrightarrow> (\<exists>e'. m s = Some (Inl e', s') \<and> e = f e')"
  by (auto simp: map_err_def split: Option.bind_splits sum.splits)

lemma map_err_Some: "map_err f m s = Some (r, s') \<longleftrightarrow> (\<exists>q. m s = Some (q, s') \<and> r = map_sum f id q)"
  by (auto simp: map_err_def split: Option.bind_splits sum.splits)

lemma attempt_Some: "attempt m s = Some (r, s') \<longleftrightarrow> (\<exists>q. m s = Some (q, s') \<and> r = Inr q)"
  by (auto simp: attempt_def split: Option.bind_splits)

lemma ok_or_Some: "ok_or e x s = Some (r, s') \<longleftrightarrow> s' = s \<and> r = res_or e x"
  by (auto simp: ok_or_def throw_def ret_def res_or_def split: option.splits)

lemma simple_Some:
  "ret v s = Some (r1, s') \<longleftrightarrow> s' = s \<and> r1 = Inr v" "throw e s = Some (r2, s') \<longleftrightarrow> s' = s \<and> r2 = Inl e"
  "gets f s = Some (r3, s') \<longleftrightarrow> s' = s \<and> r3 = Inr (f s)" "modify g s = Some (r4, s') \<longleftrightarrow> s' = g s \<and> r4 = Inr ()"
  by (auto simp: prog_defs)

subsection \<open>Preservation\<close>

definition keeps :: "('s \<Rightarrow> bool) \<Rightarrow> ('s, 'e, 'a) prog \<Rightarrow> bool" where
  "keeps I m \<longleftrightarrow> (\<forall>s r s'. I s \<longrightarrow> m s = Some (r, s') \<longrightarrow> I s')"

lemma keepsD: "keeps I m \<Longrightarrow> I s \<Longrightarrow> m s = Some (r, s') \<Longrightarrow> I s'"
  by (auto simp: keeps_def)

lemma keepsI: "(\<And>s r s'. I s \<Longrightarrow> m s = Some (r, s') \<Longrightarrow> I s') \<Longrightarrow> keeps I m"
  by (auto simp: keeps_def)

lemma keeps_simple [keeps_rules]:
  "keeps I (ret v)" "keeps I (throw e1)" "keeps I (gets f)" "keeps I (ok_or e2 opt)"
  "keeps I (from_result q)" "keeps I (unless b e3)"
  by (auto simp: keeps_def prog_defs split: option.splits)

lemma andthen_Some:
  "andthen m k s = Some (r, s') \<longleftrightarrow>
     (\<exists>e. m s = Some (Inl e, s') \<and> r = Inl e) \<or> (\<exists>x t. m s = Some (Inr x, t) \<and> k x t = Some (r, s'))"
  by (auto simp: andthen_def split: Option.bind_splits prod.splits sum.splits)

lemma keeps_andthen [keeps_rules]:
  assumes "keeps I m" and "\<And>x. keeps I (k x)"
  shows "keeps I (andthen m k)"
proof (rule keepsI)
  fix s r s'
  assume "I s" and "andthen m k s = Some (r, s')"
  then show "I s'"
    by (auto simp: andthen_Some dest: keepsD [OF assms(1)] keepsD [OF assms(2)])
qed

lemma keeps_andthen_result:
  assumes "keeps I m" and "\<And>s v s'. I s \<Longrightarrow> m s = Some (Inr v, s') \<Longrightarrow> keeps I (k v)"
  shows "keeps I (andthen m k)"
proof (rule keepsI)
  fix s r s'
  assume "I s" and "andthen m k s = Some (r, s')"
  then show "I s'" using keepsD [OF assms(1)] keepsD [OF assms(2)] unfolding andthen_Some by metis
qed

lemma keeps_attempt [keeps_rules]: "keeps I m \<Longrightarrow> keeps I (attempt m)"
  and keeps_map_err [keeps_rules]: "keeps I m \<Longrightarrow> keeps I (map_err f m)"
  by (auto simp: keeps_def attempt_def map_err_def split: Option.bind_splits)

lemma keeps_modify: "(\<And>s. I s \<Longrightarrow> I (f s)) \<Longrightarrow> keeps I (modify f)"
  by (auto simp: keeps_def modify_def)

lemma keeps_if [keeps_rules]:
  "(b \<Longrightarrow> keeps I m) \<Longrightarrow> (\<not> b \<Longrightarrow> keeps I n) \<Longrightarrow> keeps I (if b then m else n)"
  by simp

lemma keeps_case_option [keeps_rules]:
  "(x = None \<Longrightarrow> keeps I m) \<Longrightarrow> (\<And>y. x = Some y \<Longrightarrow> keeps I (n y)) \<Longrightarrow>
   keeps I (case x of None \<Rightarrow> m | Some y \<Rightarrow> n y)"
  by (auto split: option.splits)

lemma keeps_case_sum [keeps_rules]:
  "(\<And>e. x = Inl e \<Longrightarrow> keeps I (m e)) \<Longrightarrow> (\<And>y. x = Inr y \<Longrightarrow> keeps I (n y)) \<Longrightarrow>
   keeps I (case x of Inl e \<Rightarrow> m e | Inr y \<Rightarrow> n y)"
  by (auto split: sum.splits)

lemma keeps_case_prod [keeps_rules]:
  "(\<And>a b. x = (a, b) \<Longrightarrow> keeps I (m a b)) \<Longrightarrow> keeps I (case x of (a, b) \<Rightarrow> m a b)"
  by (auto split: prod.splits)

lemma keeps_zoom:
  "(\<And>s t. I s \<Longrightarrow> I (up (\<lambda>_. t) s)) \<Longrightarrow> keeps I (zoom rd up m)"
  by (auto simp: keeps_def zoom_def split: Option.bind_splits)

subsection \<open>Returning\<close>

definition returns :: "('s, 'e, 'a) prog \<Rightarrow> bool" where
  "returns m \<longleftrightarrow> (\<forall>s. m s \<noteq> None)"

named_theorems returns_rules \<open>programs that always return\<close>

lemma returns_simple [returns_rules]:
  "returns (ret v)" "returns (throw e)" "returns (ok_or e q)" "returns (from_result t)"
  "returns (gets f)" "returns (modify g)"
  by (auto simp: returns_def prog_defs split: option.splits)

lemma returns_andthen [returns_rules]:
  "returns m \<Longrightarrow> (\<And>v. returns (k v)) \<Longrightarrow> returns (andthen m k)"
  by (auto simp: returns_def andthen_def split: Option.bind_splits sum.splits)

lemma returns_if [returns_rules]: "returns m \<Longrightarrow> returns n \<Longrightarrow> returns (if b then m else n)"
  by simp

lemma returns_obtain:
  assumes "returns m"
  obtains r s' where "m s = Some (r, s')"
  using assms unfolding returns_def by (metis not_None_eq surj_pair)

subsection \<open>Errors a program can end with\<close>

definition raises :: "('e \<Rightarrow> bool) \<Rightarrow> ('s, 'e, 'a) prog \<Rightarrow> bool" where
  "raises P m \<longleftrightarrow> (\<forall>s e s'. m s = Some (Inl e, s') \<longrightarrow> P e)"

named_theorems raises_rules \<open>the errors of programs\<close>

lemma raisesD: "raises P m \<Longrightarrow> m s = Some (Inl e, s') \<Longrightarrow> P e"
  by (auto simp: raises_def)

lemma raises_simple [raises_rules]:
  "raises P (ret v)" "raises P (gets f)" "raises P (modify g)" "P e \<Longrightarrow> raises P (throw e)"
  "P e \<Longrightarrow> raises P (ok_or e q)"
  by (auto simp: raises_def prog_defs split: option.splits)

lemma raises_from_result [raises_rules]: "(\<And>e. t = Inl e \<Longrightarrow> P e) \<Longrightarrow> raises P (from_result t)"
  by (auto simp: raises_def from_result_def)

lemma raises_andthen [raises_rules]:
  "raises P m \<Longrightarrow> (\<And>v. raises P (k v)) \<Longrightarrow> raises P (andthen m k)"
  unfolding raises_def andthen_Some by blast

lemma raises_if [raises_rules]: "(b \<Longrightarrow> raises P m) \<Longrightarrow> (\<not> b \<Longrightarrow> raises P n) \<Longrightarrow> raises P (if b then m else n)"
  by simp

lemma raises_mono: "raises P m \<Longrightarrow> (\<And>e. P e \<Longrightarrow> Q e) \<Longrightarrow> raises Q m"
  by (auto simp: raises_def)

subsection \<open>Returning under an assertion\<close>

definition ends :: "('s \<Rightarrow> bool) \<Rightarrow> ('s, 'e, 'a) prog \<Rightarrow> bool" where
  "ends I m \<longleftrightarrow> (\<forall>s. I s \<longrightarrow> (\<exists>r s'. m s = Some (r, s') \<and> I s'))"

named_theorems ends_rules \<open>programs that return and keep an assertion\<close>

lemma endsI: "(\<And>s. I s \<Longrightarrow> \<exists>r s'. m s = Some (r, s') \<and> I s') \<Longrightarrow> ends I m"
  by (simp add: ends_def)

lemma endsE:
  assumes "ends I m" and "I s"
  obtains r s' where "m s = Some (r, s')" "I s'"
  using assms unfolding ends_def by blast

lemma ends_simple [ends_rules]:
  "ends I (ret v)" "ends I (throw e1)" "ends I (gets f)" "ends I (ok_or e2 opt)" "ends I (unless b e3)"
  by (auto simp: ends_def prog_defs split: option.splits)

lemma ends_andthen [ends_rules]:
  assumes "ends I m" and "\<And>x. ends I (k x)"
  shows "ends I (andthen m k)"
proof (rule endsI)
  fix s
  assume "I s"
  with assms(1) obtain r t where m: "m s = Some (r, t)" "I t" by (rule endsE)
  show "\<exists>r s'. andthen m k s = Some (r, s') \<and> I s'"
  proof (cases r)
    case (Inl e)
    with m show ?thesis by (simp add: andthen_def)
  next
    case (Inr x)
    with m assms(2) [of x] show ?thesis by (auto simp: andthen_def ends_def)
  qed
qed

lemma ends_attempt [ends_rules]: "ends I m \<Longrightarrow> ends I (attempt m)"
  and ends_map_err [ends_rules]: "ends I m \<Longrightarrow> ends I (map_err f m)"
  by (fastforce simp: ends_def attempt_def map_err_def)+

lemma ends_modify: "(\<And>s. I s \<Longrightarrow> I (f s)) \<Longrightarrow> ends I (modify f)"
  by (auto simp: ends_def modify_def)

lemma ends_if [ends_rules]:
  "(b \<Longrightarrow> ends I m) \<Longrightarrow> (\<not> b \<Longrightarrow> ends I n) \<Longrightarrow> ends I (if b then m else n)"
  by simp

lemma ends_case_option [ends_rules]:
  "(x = None \<Longrightarrow> ends I m) \<Longrightarrow> (\<And>y. x = Some y \<Longrightarrow> ends I (n y)) \<Longrightarrow>
   ends I (case x of None \<Rightarrow> m | Some y \<Rightarrow> n y)"
  by (auto split: option.splits)

lemma ends_case_sum [ends_rules]:
  "(\<And>e. x = Inl e \<Longrightarrow> ends I (m e)) \<Longrightarrow> (\<And>y. x = Inr y \<Longrightarrow> ends I (n y)) \<Longrightarrow>
   ends I (case x of Inl e \<Rightarrow> m e | Inr y \<Rightarrow> n y)"
  by (auto split: sum.splits)

lemma ends_case_prod [ends_rules]:
  "(\<And>a b. x = (a, b) \<Longrightarrow> ends I (m a b)) \<Longrightarrow> ends I (case x of (a, b) \<Rightarrow> m a b)"
  by (auto split: prod.splits)

lemma ends_zoom:
  assumes "ends J m" and "\<And>s. I s \<longleftrightarrow> J (proj s)" and "\<And>s t. proj (up (\<lambda>_. t) s) = t"
  shows "ends I (zoom proj up m)"
proof (rule endsI)
  fix s
  assume "I s"
  with assms(1,2) obtain r t where "m (proj s) = Some (r, t)" "J t" by (auto elim: endsE)
  with assms(2,3) show "\<exists>r s'. zoom proj up m s = Some (r, s') \<and> I s'" by (auto simp: zoom_def)
qed

end
