(* ===== verification/Json.thy ===== *)
theory Json
  imports Prelude
begin

text \<open>
  \<^verbatim>\<open>serde_json::Value\<close> and the accessors the program calls on it. The parser and the
  printer are third-party code: they are the fields \<open>from_slice\<close> and \<open>to_json\<close> of the
  record \<open>ext\<close>, next to the other pure functions of libraries (HMAC, base64url, Unicode
  normalisation). Every definition that needs them takes an \<open>ext\<close>; nothing is assumed of it but
  what a theorem states.
\<close>

datatype json_num = PosInt u64 | NegInt int | Float string

datatype json =
    JNull
  | JBool bool
  | JNum json_num
  | JStr string
  | JArr "json list"
  | JObj "(string \<times> json) list"

text \<open>\<^verbatim>\<open>v.get(k)\<close>, and \<^verbatim>\<open>v[k]\<close>, which is null for a missing key or a value that is
  no object.\<close>

definition jget :: "json \<Rightarrow> string \<Rightarrow> json option" where
  "jget v k = (case v of JObj m \<Rightarrow> map_of m k | _ \<Rightarrow> None)"

definition jindex :: "json \<Rightarrow> string \<Rightarrow> json" where
  "jindex v k = (case jget v k of None \<Rightarrow> JNull | Some x \<Rightarrow> x)"

fun as_str :: "json \<Rightarrow> string option" where
  "as_str (JStr s) = Some s"
| "as_str _ = None"

fun as_bool :: "json \<Rightarrow> bool option" where
  "as_bool (JBool b) = Some b"
| "as_bool _ = None"

fun as_array :: "json \<Rightarrow> json list option" where
  "as_array (JArr xs) = Some xs"
| "as_array _ = None"

fun as_u64 :: "json \<Rightarrow> u64 option" where
  "as_u64 (JNum (PosInt n)) = Some n"
| "as_u64 _ = None"

text \<open>An unsigned number is an \<^verbatim>\<open>i64\<close> only up to \<^verbatim>\<open>i64::MAX\<close>.\<close>

fun as_i64 :: "json \<Rightarrow> int option" where
  "as_i64 (JNum (PosInt n)) = (if uint n < 2 ^ 63 then Some (uint n) else None)"
| "as_i64 (JNum (NegInt n)) = Some n"
| "as_i64 _ = None"

record ext =
  to_json :: "json \<Rightarrow> string"
  from_slice :: "string \<Rightarrow> string + json"
  hmac_sha256 :: "string \<Rightarrow> string \<Rightarrow> string"
  b64_encode :: "string \<Rightarrow> string"
  b64_decode :: "string \<Rightarrow> string option"
  nfc :: "string \<Rightarrow> string"

end
