(* ===== verification/Utf8.thy ===== *)
theory Utf8
  imports Prelude
begin

text \<open>
  The part of Rust's text handling the program uses, on byte strings: decoding UTF-8 into scalar
  values (\<^verbatim>\<open>chars\<close>), the validity test of \<^verbatim>\<open>OsStr::to_str\<close> and
  \<^verbatim>\<open>read_to_string\<close>, \<^verbatim>\<open>String::from_utf8_lossy\<close>, and \<^verbatim>\<open>str::trim\<close>.
  These are the language's library, not files of the repository.
\<close>

abbreviation byte :: "char \<Rightarrow> nat" where
  "byte c \<equiv> of_char c"

definition cont_byte :: "nat \<Rightarrow> bool" where
  "cont_byte b \<longleftrightarrow> 128 \<le> b \<and> b < 192"

text \<open>A byte behind the end reads as 0, which is no continuation byte.\<close>

definition byte_at :: "string \<Rightarrow> nat \<Rightarrow> nat" where
  "byte_at s i = (if i < length s then byte (s ! i) else 0)"

definition second_of_three :: "nat \<Rightarrow> nat \<Rightarrow> bool" where
  "second_of_three a b \<longleftrightarrow>
     (if a = 224 then 160 \<le> b \<and> b < 192 else if a = 237 then 128 \<le> b \<and> b < 160 else cont_byte b)"

definition second_of_four :: "nat \<Rightarrow> nat \<Rightarrow> bool" where
  "second_of_four a b \<longleftrightarrow>
     (if a = 240 then 144 \<le> b \<and> b < 192 else if a = 244 then 128 \<le> b \<and> b < 144 else cont_byte b)"

text \<open>The character that starts a non-empty byte string (None: not valid there) and the number of
  bytes to skip.\<close>

definition utf8_first :: "string \<Rightarrow> nat option \<times> nat" where
  "utf8_first s =
     (let a = byte_at s 0; b = byte_at s 1; c = byte_at s 2; d = byte_at s 3 in
      if a < 128 then (Some a, 1)
      else if 194 \<le> a \<and> a < 224 then
        (if cont_byte b then (Some ((a - 192) * 64 + (b - 128)), 2) else (None, 1))
      else if 224 \<le> a \<and> a < 240 then
        (if \<not> second_of_three a b then (None, 1)
         else if \<not> cont_byte c then (None, 2)
         else (Some ((a - 224) * 4096 + (b - 128) * 64 + (c - 128)), 3))
      else if 240 \<le> a \<and> a < 245 then
        (if \<not> second_of_four a b then (None, 1)
         else if \<not> cont_byte c then (None, 2)
         else if \<not> cont_byte d then (None, 3)
         else (Some ((a - 240) * 262144 + (b - 128) * 4096 + (c - 128) * 64 + (d - 128)), 4))
      else (None, 1))"

lemma utf8_first_pos: "0 < snd (utf8_first s)"
  by (simp add: utf8_first_def Let_def)

function utf8_split :: "string \<Rightarrow> (nat option \<times> string) list" where
  "utf8_split s =
     (if s = [] then []
      else (fst (utf8_first s), take (snd (utf8_first s)) s) # utf8_split (drop (snd (utf8_first s)) s))"
  by pat_completeness auto
termination
  by (relation "measure length") (auto simp: utf8_first_pos)

declare utf8_split.simps [simp del]

definition valid_utf8 :: "string \<Rightarrow> bool" where
  "valid_utf8 s \<longleftrightarrow> list_all (\<lambda>(u, _). u \<noteq> None) (utf8_split s)"

definition os_to_str :: "string \<Rightarrow> string option" where
  "os_to_str s = (if valid_utf8 s then Some s else None)"

text \<open>The scalar values of a valid string.\<close>

definition utf8_chars :: "string \<Rightarrow> nat list" where
  "utf8_chars s = List.map_filter fst (utf8_split s)"

definition from_utf8_lossy :: "string \<Rightarrow> string" where
  "from_utf8_lossy s =
     concat (map (\<lambda>(u, bs). if u = None then [char_of (239::nat), char_of (191::nat), char_of (189::nat)] else bs)
       (utf8_split s))"

text \<open>Unicode \<^verbatim>\<open>White_Space\<close>.\<close>

definition is_whitespace :: "nat \<Rightarrow> bool" where
  "is_whitespace u \<longleftrightarrow> (9 \<le> u \<and> u \<le> 13) \<or> u = 32 \<or> u = 133 \<or> u = 160 \<or> u = 5760 \<or>
     (8192 \<le> u \<and> u \<le> 8202) \<or> u = 8232 \<or> u = 8233 \<or> u = 8239 \<or> u = 8287 \<or> u = 12288"

definition ws_piece :: "nat option \<times> string \<Rightarrow> bool" where
  "ws_piece x = (case fst x of None \<Rightarrow> False | Some u \<Rightarrow> is_whitespace u)"

definition trim :: "string \<Rightarrow> string" where
  "trim s = concat (map snd (rev (dropWhile ws_piece (rev (dropWhile ws_piece (utf8_split s))))))"

lemma concat_utf8_split: "concat (map snd (utf8_split s)) = s"
proof (induction s rule: utf8_split.induct)
  case (1 s)
  then show ?case by (subst utf8_split.simps) auto
qed

lemma valid_utf8_lossy: "valid_utf8 s \<Longrightarrow> from_utf8_lossy s = s"
proof -
  assume "valid_utf8 s"
  then have "map (\<lambda>(u, bs). if u = None then [char_of (239::nat), char_of (191::nat), char_of (189::nat)] else bs)
      (utf8_split s) = map snd (utf8_split s)"
    by (auto simp: valid_utf8_def list_all_iff)
  then show ?thesis by (simp only: from_utf8_lossy_def concat_utf8_split)
qed

lemma utf8_first_ascii: "byte c < 128 \<Longrightarrow> utf8_first (c # cs) = (Some (byte c), 1)"
  by (simp add: utf8_first_def byte_at_def)

lemma utf8_split_ascii: "list_all (\<lambda>c. byte c < 128) s \<Longrightarrow> utf8_split s = map (\<lambda>c. (Some (byte c), [c])) s"
  by (induction s) (simp_all add: utf8_split.simps [of "_ # _"] utf8_split.simps [of "[]"] utf8_first_ascii)

lemma valid_utf8_ascii: "list_all (\<lambda>c. byte c < 128) s \<Longrightarrow> valid_utf8 s"
  by (simp add: valid_utf8_def utf8_split_ascii list_all_iff)

lemma trim_ascii_no_ws:
  "list_all (\<lambda>c. byte c < 128 \<and> \<not> is_whitespace (byte c)) s \<Longrightarrow> trim s = s"
proof -
  assume a: "list_all (\<lambda>c. byte c < 128 \<and> \<not> is_whitespace (byte c)) s"
  then have "\<forall>x \<in> set (utf8_split s). \<not> ws_piece x"
    by (auto simp: utf8_split_ascii list_all_iff ws_piece_def)
  then have "dropWhile ws_piece (utf8_split s) = utf8_split s"
    and "dropWhile ws_piece (rev (utf8_split s)) = rev (utf8_split s)"
    by (metis dropWhile_eq_self_iff hd_in_set, metis dropWhile_eq_self_iff hd_in_set set_rev)
  then show ?thesis by (simp add: trim_def concat_utf8_split)
qed

end
