(* ===== verification/FuseNames.thy ===== *)
theory FuseNames
  imports Json Utf8
begin

text \<open>
  The pure functions of \<^verbatim>\<open>mount/src/fuse_fs.rs\<close> on names and paths. Strings are byte strings, as in
  the code; \<open>nfc\<close> is the normalisation of the \<^verbatim>\<open>unicode_normalization\<close> crate.
\<close>

definition parent_prefix :: "path \<Rightarrow> path" where
  "parent_prefix child =
     (case rfind slash child of
        None \<Rightarrow> ''''
      | Some idx \<Rightarrow> if idx = 0 then '''' else take idx child)"

definition basename :: "path \<Rightarrow> string" where
  "basename p = (case rfind slash p of None \<Rightarrow> p | Some idx \<Rightarrow> drop (idx + 1) p)"

definition NAME_MAX :: nat where
  "NAME_MAX = 255"

definition is_representable_component :: "string \<Rightarrow> bool" where
  "is_representable_component name =
     (if name = '''' \<or> name = ''.'' \<or> name = ''..'' then False
      else if slash \<in> set name \<or> CHR 0x00 \<in> set name then False
      else if length name > NAME_MAX then False
      else True)"

definition child_path :: "ext \<Rightarrow> path \<Rightarrow> string \<Rightarrow> path" where
  "child_path x parent name =
     (let name = nfc x name
      in if parent = '''' then slash # name else parent @ slash # name)"

definition is_nfc_name :: "ext \<Rightarrow> string \<Rightarrow> bool" where
  "is_nfc_name x name \<longleftrightarrow> nfc x name = name"

fun common_prefix :: "'a list \<Rightarrow> 'a list \<Rightarrow> nat" where
  "common_prefix (a # as) (b # bs) = (if a = b then Suc (common_prefix as bs) else 0)"
| "common_prefix _ _ = 0"

definition differing_run :: "'a list \<Rightarrow> 'a list \<Rightarrow> 'a list \<times> 'a list" where
  "differing_run a b =
     (let prefix = common_prefix a b;
          suffix = common_prefix (rev (drop prefix a)) (rev (drop prefix b))
      in (take (length a - suffix - prefix) (drop prefix a), take (length b - suffix - prefix) (drop prefix b)))"

definition hex_digit :: "nat \<Rightarrow> char" where
  "hex_digit d = (if d < 10 then char_of (48 + d) else char_of (55 + d))"

fun hex_digits :: "nat \<Rightarrow> string" where
  "hex_digits n = (if n < 16 then [hex_digit n] else hex_digits (n div 16) @ [hex_digit (n mod 16)])"

declare hex_digits.simps [simp del]

definition hex4 :: "nat \<Rightarrow> string" where
  "hex4 n = (let h = hex_digits n in replicate (4 - length h) CHR ''0'' @ h)"

fun join_space :: "string list \<Rightarrow> string" where
  "join_space [] = ''''"
| "join_space [s] = s"
| "join_space (s # ss) = s @ '' '' @ join_space ss"

definition render_code_points :: "nat list \<Rightarrow> string" where
  "render_code_points cs = join_space (map (\<lambda>c. ''U+'' @ hex4 c) cs)"

definition differing_code_points :: "string \<Rightarrow> string \<Rightarrow> string \<times> string" where
  "differing_code_points a b =
     (let (ra, rb) = differing_run (utf8_chars a) (utf8_chars b)
      in (render_code_points ra, render_code_points rb))"

section \<open>Splitting a path into parent and name\<close>

lemma rfind_child: "slash \<notin> set t \<Longrightarrow> rfind slash (s @ slash # t) = Some (length s)"
  by (rule rfind_append_last)

lemma basename_child [simp]: "slash \<notin> set (nfc x name) \<Longrightarrow> basename (child_path x parent name) = nfc x name"
  using rfind_child [of "nfc x name" parent] rfind_child [of "nfc x name" "[]"]
  by (simp add: basename_def child_path_def Let_def)

lemma parent_child [simp]: "slash \<notin> set (nfc x name) \<Longrightarrow> parent_prefix (child_path x parent name) = parent"
  using rfind_child [of "nfc x name" parent] rfind_child [of "nfc x name" "[]"]
  by (simp add: parent_prefix_def child_path_def Let_def)

lemma child_path_not_root [simp]: "child_path x parent name \<noteq> ''''"
  by (simp add: child_path_def Let_def)

lemma basename_no_slash: "slash \<notin> set (basename p)"
  by (auto simp: basename_def rfind_None rfind_Some split: option.splits)

lemma path_split: "slash \<in> set p \<Longrightarrow> p = parent_prefix p @ slash # basename p"
proof -
  assume "slash \<in> set p"
  then obtain i where i: "rfind slash p = Some i" by (meson not_None_eq rfind_None)
  then have "i < length p" "p ! i = slash" by (auto simp: rfind_Some)
  with i show ?thesis
    using id_take_nth_drop [of i p] by (auto simp: parent_prefix_def basename_def)
qed

lemma parent_prefix_shorter: "p \<noteq> '''' \<Longrightarrow> length (parent_prefix p) < length p"
  by (auto simp: parent_prefix_def dest: rfind_less split: option.splits)

text \<open>Splitting and building paths are inverse: a remote path is its parent prefix, a slash and its
  base name, the base name holds no slash, and the child path built from a parent and a name splits back
  into the parent and the normalised name.\<close>

theorem path_round_trip:
  assumes "slash \<in> set p" and "slash \<notin> set (nfc x name)"
  shows "p = parent_prefix p @ slash # basename p \<and> slash \<notin> set (basename p) \<and>
    parent_prefix (child_path x parent name) = parent \<and> basename (child_path x parent name) = nfc x name"
  using path_split [OF assms(1)] basename_no_slash [of p] assms(2) by simp

text \<open>With an identity normalisation.\<close>

definition toy_names :: ext where
  "toy_names = \<lparr>to_json = (\<lambda>_. ''''), from_slice = (\<lambda>_. Inl ''''), hmac_sha256 = (\<lambda>_ m. m),
     b64_encode = (\<lambda>s. s), b64_decode = Some, nfc = (\<lambda>s. s)\<rparr>"

theorem path_round_trip_witness:
  "parent_prefix (child_path toy_names ''/a'' ''b'') = ''/a'' \<and> basename ''/a/b'' = ''b''"
proof -
  have "slash \<in> set ''/a/b''" "slash \<notin> set (nfc toy_names ''b'')"
    by (simp_all add: slash_def toy_names_def)
  from path_round_trip [OF this, of "''/a''"] have "parent_prefix (child_path toy_names ''/a'' ''b'') = ''/a''"
    by blast
  then show ?thesis by (simp add: basename_def slash_def)
qed

lemma child_path_inj:
  assumes "child_path x p n = child_path x q m" and "slash \<notin> set (nfc x n)" and "slash \<notin> set (nfc x m)"
  shows "p = q \<and> nfc x n = nfc x m"
  using assms by (metis basename_child parent_child)

section \<open>The code points where two names differ\<close>

lemma common_prefix_take: "take (common_prefix a b) a = take (common_prefix a b) b"
  by (induction a b rule: common_prefix.induct) auto

lemma common_prefix_le: "common_prefix a b \<le> length a" "common_prefix a b \<le> length b"
  by (induction a b rule: common_prefix.induct) auto

lemma common_prefix_max:
  "common_prefix a b < length a \<Longrightarrow> common_prefix a b < length b \<Longrightarrow> a ! common_prefix a b \<noteq> b ! common_prefix a b"
  by (induction a b rule: common_prefix.induct) auto

lemma common_suffix_split:
  fixes a b :: "'a list"
  defines "s \<equiv> common_prefix (rev a) (rev b)"
  shows "drop (length a - s) a = drop (length b - s) b" and "s \<le> length a" and "s \<le> length b"
    and "s < length a \<Longrightarrow> s < length b \<Longrightarrow> last (take (length a - s) a) \<noteq> last (take (length b - s) b)"
proof -
  show le: "s \<le> length a" "s \<le> length b"
    using common_prefix_le [of "rev a" "rev b"] by (simp_all add: s_def)
  have "take s (rev a) = take s (rev b)"
    unfolding s_def by (rule common_prefix_take)
  then show "drop (length a - s) a = drop (length b - s) b"
    by (simp add: take_rev)
  assume less: "s < length a" "s < length b"
  then have "rev a ! s \<noteq> rev b ! s"
    using common_prefix_max [of "rev a" "rev b"] by (simp add: s_def)
  moreover have "last (take (length c - s) c) = rev c ! s" if "s < length c" for c :: "'a list"
  proof -
    have "last (take (length c - s) c) = take (length c - s) c ! (length (take (length c - s) c) - 1)"
      by (rule last_conv_nth) (use that in auto)
    then show ?thesis using that by (simp add: rev_nth)
  qed
  ultimately show "last (take (length a - s) a) \<noteq> last (take (length b - s) b)"
    using less by simp
qed

text \<open>The log line of a refused name points exactly at the difference: the two runs it prints are what
  is left of the two names after a common beginning and a common end, they begin and end with different
  code points, and both are empty only when the names are equal.\<close>

theorem differing_run_exact:
  "\<exists>pre suf. a = pre @ fst (differing_run a b) @ suf \<and> b = pre @ snd (differing_run a b) @ suf \<and>
     (fst (differing_run a b) = [] \<or> snd (differing_run a b) = [] \<or>
       hd (fst (differing_run a b)) \<noteq> hd (snd (differing_run a b)) \<and>
       last (fst (differing_run a b)) \<noteq> last (snd (differing_run a b)))"
proof -
  define p where "p = common_prefix a b"
  let ?a = "drop p a" and ?b = "drop p b"
  define s where "s = common_prefix (rev ?a) (rev ?b)"
  note suf = common_suffix_split [of ?a ?b, folded s_def]
  have run: "differing_run a b = (take (length ?a - s) ?a, take (length ?b - s) ?b)"
    by (simp add: differing_run_def Let_def p_def s_def add.commute)
  have pre: "take p a = take p b" unfolding p_def by (rule common_prefix_take)
  let ?suf = "drop (length ?a - s) ?a"
  have "a = take p a @ take (length ?a - s) ?a @ ?suf"
    by (simp only: append_take_drop_id)
  moreover have "b = take p a @ take (length ?b - s) ?b @ ?suf"
    by (simp only: pre suf(1) append_take_drop_id)
  moreover have "hd (take (length ?a - s) ?a) \<noteq> hd (take (length ?b - s) ?b)"
    "last (take (length ?a - s) ?a) \<noteq> last (take (length ?b - s) ?b)"
    if "take (length ?a - s) ?a \<noteq> []" "take (length ?b - s) ?b \<noteq> []"
  proof -
    have less: "s < length ?a" "s < length ?b" using that by auto
    then show "last (take (length ?a - s) ?a) \<noteq> last (take (length ?b - s) ?b)" by (rule suf(4))
    show "hd (take (length ?a - s) ?a) \<noteq> hd (take (length ?b - s) ?b)"
      using less common_prefix_max [of a b] by (simp add: hd_drop_conv_nth p_def)
  qed
  ultimately show ?thesis
    unfolding run fst_conv snd_conv by blast
qed

end
