(* ===== verification/PathMap.thy ===== *)
theory PathMap
  imports Prelude
begin

text \<open>
  Model of \<^verbatim>\<open>mount/src/path_map.rs\<close>: the bidirectional map between inodes and remote paths.

  The two hash maps are association lists. Inode numbers are \<open>nat\<close>: the counter \<^verbatim>\<open>next\<close> is a
  \<^verbatim>\<open>u64\<close> in the code that is only ever incremented by one, so the two agree until 2^64 paths
  have been interned. \<open>pm_inv\<close> is the representation invariant; \<open>rebase\<close> is the abstract
  effect of a rename on one path, shared with the open handles and the raw names of the file system.
\<close>

section \<open>State and operations\<close>

definition ROOT_INODE :: nat where
  "ROOT_INODE = 1"

record path_map =
  pm_next :: nat
  path_to_inode :: "(path, nat) hashmap"
  inode_to_path :: "(nat, path) hashmap"

definition pm_new :: path_map where
  "pm_new = \<lparr>pm_next = ROOT_INODE + 1,
             path_to_inode = AList.update '''' ROOT_INODE [],
             inode_to_path = AList.update ROOT_INODE '''' []\<rparr>"

definition pm_intern :: "path_map \<Rightarrow> path \<Rightarrow> nat \<times> path_map" where
  "pm_intern m p =
     (case map_of (path_to_inode m) p of
        Some ino \<Rightarrow> (ino, m)
      | None \<Rightarrow>
          let ino = pm_next m in
          (ino, \<lparr>pm_next = pm_next m + 1,
                 path_to_inode = AList.update p ino (path_to_inode m),
                 inode_to_path = AList.update ino p (inode_to_path m)\<rparr>))"

definition path_for :: "path_map \<Rightarrow> nat \<Rightarrow> path option" where
  "path_for m ino = map_of (inode_to_path m) ino"

definition inode_for :: "path_map \<Rightarrow> path \<Rightarrow> nat option" where
  "inode_for m p = map_of (path_to_inode m) p"

function is_at_or_below :: "path \<Rightarrow> path set \<Rightarrow> bool" where
  "is_at_or_below p roots =
     (if p \<in> roots then True
      else case rfind slash p of
             Some i \<Rightarrow> if i > 0 then is_at_or_below (take i p) roots else False
           | None \<Rightarrow> False)"
  by pat_completeness auto
termination
  by (relation "measure (\<lambda>(p, roots). length p)") (auto dest: rfind_less)

declare is_at_or_below.simps [simp del]

definition inodes_at_or_below :: "path_map \<Rightarrow> path set \<Rightarrow> nat list" where
  "inodes_at_or_below m roots =
     map snd (filter (\<lambda>(p, _). is_at_or_below p roots) (path_to_inode m))"

definition pm_forget :: "path_map \<Rightarrow> path \<Rightarrow> nat option \<times> path_map" where
  "pm_forget m p =
     (case map_of (path_to_inode m) p of
        None \<Rightarrow> (None, m)
      | Some ino \<Rightarrow>
          (Some ino, m\<lparr>path_to_inode := AList.delete p (path_to_inode m),
                       inode_to_path := AList.delete ino (inode_to_path m)\<rparr>))"

text \<open>The test of the rename loop: the path itself, or a path below it.\<close>

definition below :: "path \<Rightarrow> path \<Rightarrow> bool" where
  "below root p \<longleftrightarrow> p = root \<or> starts_with p (root @ [slash])"

definition drop_stale :: "path_map \<Rightarrow> path \<Rightarrow> path_map" where
  "drop_stale m p =
     (case map_of (path_to_inode m) p of
        None \<Rightarrow> m
      | Some ino \<Rightarrow> m\<lparr>path_to_inode := AList.delete p (path_to_inode m),
                      inode_to_path := AList.delete ino (inode_to_path m)\<rparr>)"

definition pm_rename :: "path_map \<Rightarrow> path \<Rightarrow> path \<Rightarrow> path_map" where
  "pm_rename m old new =
     (let moving = filter (\<lambda>(p, _). below old p) (path_to_inode m);
          stale = map fst (filter (\<lambda>(p, _). \<not> below old p \<and> below new p) (path_to_inode m))
      in if moving = [] then m
         else
           let m1 = fold (\<lambda>p m. drop_stale m p) stale m;
               m2 = m1\<lparr>path_to_inode := hm_delete_all (map fst moving) (path_to_inode m1)\<rparr>;
               moved = map (\<lambda>(p, ino). (new @ drop (length old) p, ino)) moving
           in m2\<lparr>path_to_inode := hm_extend (path_to_inode m2) moved,
                 inode_to_path := hm_extend (inode_to_path m2) (map (\<lambda>(p, ino). (ino, p)) moved)\<rparr>)"

section \<open>Invariant\<close>

definition pm_inv :: "path_map \<Rightarrow> bool" where
  "pm_inv m \<longleftrightarrow>
     distinct (map fst (path_to_inode m)) \<and>
     distinct (map fst (inode_to_path m)) \<and>
     (\<forall>p ino. inode_for m p = Some ino \<longleftrightarrow> path_for m ino = Some p) \<and>
     inode_for m '''' = Some ROOT_INODE \<and>
     (\<forall>p ino. inode_for m p = Some ino \<longrightarrow> ino < pm_next m)"

named_theorems pm_defs \<open>definitions of the path map\<close>
declare pm_inv_def [pm_defs] inode_for_def [pm_defs] path_for_def [pm_defs]

lemma pm_new_inv: "pm_inv pm_new"
  by (auto simp: pm_new_def pm_defs split: if_splits)

lemma pm_inv_iff: "pm_inv m \<Longrightarrow> inode_for m p = Some ino \<longleftrightarrow> path_for m ino = Some p"
  unfolding pm_inv_def by blast

lemma pm_inv_root: "pm_inv m \<Longrightarrow> path_for m ROOT_INODE = Some ''''"
  unfolding pm_inv_def by blast

lemma pm_inv_bound: "pm_inv m \<Longrightarrow> inode_for m p = Some ino \<Longrightarrow> ino < pm_next m"
  unfolding pm_inv_def by blast

lemma pm_inv_path_bound: "pm_inv m \<Longrightarrow> path_for m ino = Some p \<Longrightarrow> ino < pm_next m"
  unfolding pm_inv_def by blast

lemma pm_inv_inj: "pm_inv m \<Longrightarrow> inode_for m p = Some ino \<Longrightarrow> inode_for m q = Some ino \<Longrightarrow> p = q"
  by (simp add: pm_inv_iff)

lemma pm_inv_path_inj: "pm_inv m \<Longrightarrow> path_for m i = Some p \<Longrightarrow> path_for m j = Some p \<Longrightarrow> i = j"
  by (simp flip: pm_inv_iff)

text \<open>The next inode is free.\<close>

lemma pm_inv_next_free: "pm_inv m \<Longrightarrow> path_for m (pm_next m) = None"
  using pm_inv_path_bound by fastforce

subsection \<open>intern\<close>

lemma pm_intern_known: "inode_for m p = Some ino \<Longrightarrow> pm_intern m p = (ino, m)"
  by (simp add: pm_intern_def inode_for_def)

lemma pm_intern_new:
  "inode_for m p = None \<Longrightarrow> pm_intern m p =
     (pm_next m, \<lparr>pm_next = pm_next m + 1,
                  path_to_inode = AList.update p (pm_next m) (path_to_inode m),
                  inode_to_path = AList.update (pm_next m) p (inode_to_path m)\<rparr>)"
  by (simp add: pm_intern_def inode_for_def Let_def)

lemma pm_intern_inode_for:
  "inode_for (snd (pm_intern m p)) q =
     (if q = p then Some (fst (pm_intern m p)) else inode_for m q)"
  by (cases "inode_for m p") (auto simp: pm_intern_known pm_intern_new inode_for_def)

lemma pm_intern_path_for:
  assumes "pm_inv m"
  shows "path_for (snd (pm_intern m p)) i =
     (if i = fst (pm_intern m p) then Some p else path_for m i)"
proof (cases "inode_for m p")
  case None
  then show ?thesis by (simp add: pm_intern_new path_for_def)
next
  case (Some ino)
  then show ?thesis using pm_inv_iff [OF assms, of p ino] by (simp add: pm_intern_known)
qed

lemma pm_intern_keeps_path:
  assumes inv: "pm_inv m" and p: "path_for m i = Some q"
  shows "path_for (snd (pm_intern m r)) i = Some q"
proof (cases "inode_for m r")
  case None
  with pm_inv_path_bound [OF assms] p show ?thesis
    by (simp add: pm_intern_path_for [OF inv]) (simp add: pm_intern_new)
qed (simp add: pm_intern_known p)

lemma pm_intern_distinct:
  "pm_inv m \<Longrightarrow> distinct (map fst (path_to_inode (snd (pm_intern m p)))) \<and>
     distinct (map fst (inode_to_path (snd (pm_intern m p))))"
  unfolding pm_inv_def by (auto simp: pm_intern_def Let_def split: option.splits)

lemma pm_intern_next: "pm_next m \<le> pm_next (snd (pm_intern m p))"
  by (auto simp: pm_intern_def Let_def split: option.splits)

lemma pm_intern_fst_less: "pm_inv m \<Longrightarrow> fst (pm_intern m p) < pm_next (snd (pm_intern m p))"
  by (cases "inode_for m p") (auto simp: pm_intern_known pm_intern_new dest: pm_inv_bound)

lemma pm_intern_inv:
  assumes inv: "pm_inv m"
  shows "pm_inv (snd (pm_intern m p))"
proof (cases "inode_for m p")
  case (Some ino)
  with inv show ?thesis by (simp add: pm_intern_known)
next
  case None
  then have new: "fst (pm_intern m p) = pm_next m" "pm_next (snd (pm_intern m p)) = Suc (pm_next m)"
    by (simp_all add: pm_intern_new)
  have root: "inode_for m '''' = Some ROOT_INODE"
    using inv unfolding pm_inv_def by blast
  note facts = pm_intern_inode_for pm_intern_path_for [OF inv] new pm_inv_iff [OF inv]
  have nofor: "path_for m i \<noteq> Some p" for i
    using None by (simp flip: pm_inv_iff [OF inv])
  show ?thesis
    unfolding pm_inv_def
  proof (intro conjI allI impI)
    fix q ino
    show "inode_for (snd (pm_intern m p)) q = Some ino \<longleftrightarrow> path_for (snd (pm_intern m p)) ino = Some q"
      using nofor pm_inv_next_free [OF inv] by (auto simp: facts)
    assume "inode_for (snd (pm_intern m p)) q = Some ino"
    then show "ino < pm_next (snd (pm_intern m p))"
      using pm_inv_path_bound [OF inv, of ino q] by (auto simp: facts split: if_splits)
  next
    show "inode_for (snd (pm_intern m p)) '''' = Some ROOT_INODE"
      using None root by (auto simp: pm_intern_inode_for)
  qed (use pm_intern_distinct [OF inv, of p] in auto)
qed

subsection \<open>forget\<close>

lemma pm_forget_fst: "fst (pm_forget m p) = inode_for m p"
  by (auto simp: pm_forget_def inode_for_def split: option.splits)

lemma pm_forget_inode_for:
  "inode_for (snd (pm_forget m p)) q = (if q = p then None else inode_for m q)"
  by (auto simp: pm_forget_def inode_for_def split: option.splits)

lemma pm_forget_path_for:
  assumes "pm_inv m"
  shows "path_for (snd (pm_forget m p)) i = (if path_for m i = Some p then None else path_for m i)"
proof (cases "inode_for m p")
  case None
  then show ?thesis
    using pm_inv_iff [OF assms, of p i] by (auto simp: pm_forget_def inode_for_def)
next
  case (Some ino)
  then show ?thesis
    using pm_inv_iff [OF assms, of p i] by (auto simp: pm_forget_def inode_for_def path_for_def)
qed

lemma pm_forget_next [simp]: "pm_next (snd (pm_forget m p)) = pm_next m"
  by (auto simp: pm_forget_def split: option.splits)

lemma pm_forget_distinct:
  "pm_inv m \<Longrightarrow> distinct (map fst (path_to_inode (snd (pm_forget m p)))) \<and>
     distinct (map fst (inode_to_path (snd (pm_forget m p))))"
  unfolding pm_inv_def by (auto simp: pm_forget_def split: option.splits)

lemma pm_forget_inv:
  assumes inv: "pm_inv m" and "p \<noteq> ''''"
  shows "pm_inv (snd (pm_forget m p))"
  unfolding pm_inv_def
proof (intro conjI allI impI)
  fix q ino
  show "inode_for (snd (pm_forget m p)) q = Some ino \<longleftrightarrow> path_for (snd (pm_forget m p)) ino = Some q"
    by (auto simp: pm_forget_inode_for pm_forget_path_for [OF inv] pm_inv_iff [OF inv])
  assume "inode_for (snd (pm_forget m p)) q = Some ino"
  then show "ino < pm_next (snd (pm_forget m p))"
    using pm_inv_bound [OF inv, of q ino] by (auto simp: pm_forget_inode_for split: if_splits)
next
  show "inode_for (snd (pm_forget m p)) '''' = Some ROOT_INODE"
    using assms pm_inv_root by (simp add: pm_forget_inode_for pm_inv_iff)
qed (use pm_forget_distinct [OF inv, of p] in auto)

lemma drop_stale_forget: "drop_stale m p = snd (pm_forget m p)"
  by (auto simp: drop_stale_def pm_forget_def split: option.splits)

subsection \<open>rename\<close>

text \<open>
  What a rename of \<open>old\<close> to \<open>new\<close> does to one path: the path itself and everything below it
  moves along, keeping the rest of the path.
\<close>

definition rebase :: "path \<Rightarrow> path \<Rightarrow> path \<Rightarrow> path" where
  "rebase old new p = (if below old p then new @ drop (length old) p else p)"

text \<open>The abstract effect on the two maps, for a source that is interned.\<close>

definition renamed_inode :: "(path \<Rightarrow> nat option) \<Rightarrow> path \<Rightarrow> path \<Rightarrow> path \<Rightarrow> nat option" where
  "renamed_inode f old new q =
     (if below new q then f (old @ drop (length new) q)
      else if below old q then None else f q)"

definition renamed_path :: "(nat \<Rightarrow> path option) \<Rightarrow> path \<Rightarrow> path \<Rightarrow> nat \<Rightarrow> path option" where
  "renamed_path g old new i =
     (case g i of
        None \<Rightarrow> None
      | Some p \<Rightarrow> if below old p then Some (rebase old new p)
                  else if below new p then None else Some p)"

lemma below_iff: "below r p \<longleftrightarrow> (\<exists>t. p = r @ t \<and> (t = [] \<or> hd t = slash))"
  unfolding below_def starts_with_iff by (auto simp: append_eq_append_conv2) (metis list.collapse)+

lemma below_refl [simp]: "below r r"
  by (simp add: below_def)

lemma below_append: "below r (r @ t) \<longleftrightarrow> t = [] \<or> hd t = slash"
  by (auto simp: below_iff)

lemma below_rebase: "below old p \<Longrightarrow> below new (rebase old new p)"
  by (auto simp: below_iff rebase_def)

lemma below_source: "below new q \<Longrightarrow> below old (old @ drop (length new) q)"
  by (auto simp: below_iff)

lemma rebase_source: "below new q \<Longrightarrow> rebase old new (old @ drop (length new) q) = q"
  by (auto simp: below_iff rebase_def)

lemma source_rebase: "below old p \<Longrightarrow> old @ drop (length new) (rebase old new p) = p"
  by (auto simp: below_iff rebase_def)

lemma rebase_inj: "below old p \<Longrightarrow> below old q \<Longrightarrow> rebase old new p = rebase old new q \<Longrightarrow> p = q"
  by (metis source_rebase)

lemma below_Nil_root: "r \<noteq> '''' \<Longrightarrow> \<not> below r ''''"
  by (auto simp: below_iff)

lemma fold_drop_stale_inode_for:
  "inode_for (fold (\<lambda>p m. drop_stale m p) ps m) q = (if q \<in> set ps then None else inode_for m q)"
  by (induction ps arbitrary: m) (auto simp: drop_stale_forget pm_forget_inode_for)

lemma fold_drop_stale_inv:
  "pm_inv m \<Longrightarrow> '''' \<notin> set ps \<Longrightarrow> pm_inv (fold (\<lambda>p m. drop_stale m p) ps m)"
  by (induction ps arbitrary: m) (auto simp: drop_stale_forget pm_forget_inv)

lemma fold_drop_stale_next [simp]: "pm_next (fold (\<lambda>p m. drop_stale m p) ps m) = pm_next m"
  by (induction ps arbitrary: m) (auto simp: drop_stale_forget)

lemma fold_drop_stale_path_for:
  "pm_inv m \<Longrightarrow> '''' \<notin> set ps \<Longrightarrow>
   path_for (fold (\<lambda>p m. drop_stale m p) ps m) i =
     (case path_for m i of None \<Rightarrow> None | Some p \<Rightarrow> if p \<in> set ps then None else Some p)"
  by (induction ps arbitrary: m)
     (auto simp: drop_stale_forget pm_forget_path_for pm_forget_inv split: option.splits)

lemma map_of_rev_distinct: "distinct (map fst kvs) \<Longrightarrow> map_of (rev kvs) = map_of kvs"
  by (metis distinct_rev map_of_eqI map_of_inject_set rev_map set_rev)

text \<open>The list of moved pairs, as maps in both directions.\<close>

lemma moved_map_of:
  assumes "distinct (map fst kvs)"
  shows "map_of (map (\<lambda>(p, i). (new @ drop (length old) p, i)) (filter (\<lambda>(p, _). below old p) kvs)) q =
    (if below new q then map_of kvs (old @ drop (length new) q) else None)"
  using assms
proof (induction kvs)
  case (Cons kv kvs)
  obtain p i where kv: "kv = (p, i)" by force
  show ?case
  proof (cases "below old p")
    case True
    then have "q = new @ drop (length old) p \<longleftrightarrow> below new q \<and> p = old @ drop (length new) q"
      using below_rebase [of old p new] rebase_source [of new q old] source_rebase [of old p new]
      by (auto simp: rebase_def)
    with True Cons kv show ?thesis by auto
  next
    case False
    then have "below new q \<Longrightarrow> p \<noteq> old @ drop (length new) q"
      using below_source by blast
    with False Cons kv show ?thesis by auto
  qed
qed simp

lemma moved_map_of_swap:
  assumes "distinct (map snd kvs)"
  shows "map_of (map (\<lambda>(p, i). (i, new @ drop (length old) p)) (filter (\<lambda>(p, _). below old p) kvs)) i = Some q
    \<longleftrightarrow> (\<exists>p. (p, i) \<in> set kvs \<and> below old p \<and> q = rebase old new p)"
  using assms
proof (induction kvs)
  case (Cons kv kvs)
  obtain p j where kv: "kv = (p, j)" by force
  have "(p', j) \<notin> set kvs" for p' using Cons.prems kv by (auto simp: image_iff)
  with Cons kv show ?case by (auto simp: rebase_def)
qed simp

lemma pm_inv_distinct:
  "pm_inv m \<Longrightarrow> distinct (map fst (path_to_inode m))"
  "pm_inv m \<Longrightarrow> distinct (map fst (inode_to_path m))"
  unfolding pm_inv_def by blast+

lemma pm_inv_mem: "pm_inv m \<Longrightarrow> (p, i) \<in> set (path_to_inode m) \<longleftrightarrow> inode_for m p = Some i"
  unfolding inode_for_def by (simp add: pm_inv_distinct)

lemma pm_inv_distinct_snd:
  assumes inv: "pm_inv m"
  shows "distinct (map snd (path_to_inode m))"
proof -
  have "inj_on snd (set (path_to_inode m))"
    by (auto intro!: inj_onI simp: pm_inv_mem [OF inv] intro: pm_inv_inj [OF inv])
  then show ?thesis
    using pm_inv_distinct(1) [OF inv] by (auto simp: distinct_map)
qed

text \<open>
  The result of the loop over the interned paths, spelled out: nothing to move, or the maps after
  the stale entries were dropped, the moving ones removed and put back at their new paths.
\<close>

lemma pm_rename_moves_nothing:
  assumes "\<And>p. below old p \<Longrightarrow> inode_for m p = None"
  shows "pm_rename m old new = m"
proof -
  have "filter (\<lambda>(p, _). below old p) (path_to_inode m) = []"
    using assms unfolding inode_for_def map_of_eq_None_iff by (force simp: filter_empty_conv)
  then show ?thesis by (simp add: pm_rename_def)
qed

lemma stale_set:
  "q \<in> set (map fst (filter (\<lambda>(p, _). \<not> below old p \<and> below new p) (path_to_inode m))) \<longleftrightarrow>
     inode_for m q \<noteq> None \<and> \<not> below old q \<and> below new q"
  by (auto simp: inode_for_def map_of_eq_None_iff image_iff)
     (metis fst_conv)

lemma moving_set:
  "q \<in> set (map fst (filter (\<lambda>(p, _). below old p) (path_to_inode m))) \<longleftrightarrow>
     inode_for m q \<noteq> None \<and> below old q"
  by (auto simp: inode_for_def map_of_eq_None_iff image_iff)
     (metis fst_conv)

lemma pm_rename_inode_for:
  assumes inv: "pm_inv m" and moving: "below old p0" "inode_for m p0 \<noteq> None"
  shows "inode_for (pm_rename m old new) q = renamed_inode (inode_for m) old new q"
proof -
  let ?kvs = "path_to_inode m"
  let ?moving = "filter (\<lambda>(p, _). below old p) ?kvs"
  let ?stale = "map fst (filter (\<lambda>(p, _). \<not> below old p \<and> below new p) ?kvs)"
  let ?m1 = "fold (\<lambda>p m. drop_stale m p) ?stale m"
  let ?moved = "map (\<lambda>(p, ino). (new @ drop (length old) p, ino)) ?moving"
  have "p0 \<in> set (map fst ?moving)"
    using moving by (simp only: moving_set) simp
  then have ne: "?moving \<noteq> []"
    by (metis list.set(1) list.simps(8) empty_iff)
  have dist: "distinct (map fst ?moved)"
  proof -
    have "map fst ?moved = map (rebase old new) (map fst ?moving)"
      by (auto simp: rebase_def)
    moreover have "distinct (map fst ?moving)"
      by (rule distinct_map_filter) (rule pm_inv_distinct(1) [OF inv])
    moreover have "inj_on (rebase old new) (set (map fst ?moving))"
      by (rule inj_onI, simp only: moving_set) (metis rebase_inj)
    ultimately show ?thesis by (simp only: distinct_map)
  qed
  have "inode_for (pm_rename m old new) q =
      (map_of (hm_delete_all (map fst ?moving) (path_to_inode ?m1)) ++ map_of ?moved) q"
    using ne by (simp add: pm_rename_def Let_def inode_for_def map_of_hm_extend map_of_rev_distinct [OF dist])
  moreover have "map_of ?moved q = (if below new q then inode_for m (old @ drop (length new) q) else None)"
    unfolding inode_for_def by (rule moved_map_of [OF pm_inv_distinct(1) [OF inv]])
  moreover have "map_of (hm_delete_all (map fst ?moving) (path_to_inode ?m1)) q =
      (if inode_for m q \<noteq> None \<and> below old q then None
       else if inode_for m q \<noteq> None \<and> \<not> below old q \<and> below new q then None
       else inode_for m q)"
    using fold_drop_stale_inode_for [of ?stale m q] moving_set [of q old m] stale_set [of q old new m]
    by (auto simp: inode_for_def)
  ultimately show ?thesis
    by (auto simp: renamed_inode_def map_add_def split: option.splits)
qed

lemma pm_rename_path_for:
  assumes inv: "pm_inv m" and moving: "below old p0" "inode_for m p0 \<noteq> None" and "new \<noteq> ''''"
  shows "path_for (pm_rename m old new) i = renamed_path (path_for m) old new i"
proof -
  let ?kvs = "path_to_inode m"
  let ?moving = "filter (\<lambda>(p, _). below old p) ?kvs"
  let ?stale = "map fst (filter (\<lambda>(p, _). \<not> below old p \<and> below new p) ?kvs)"
  let ?m1 = "fold (\<lambda>p m. drop_stale m p) ?stale m"
  let ?swapped = "map (\<lambda>(p, ino). (ino, new @ drop (length old) p)) ?moving"
  have "p0 \<in> set (map fst ?moving)"
    using moving by (simp only: moving_set) simp
  then have ne: "?moving \<noteq> []"
    by (metis list.set(1) list.simps(8) empty_iff)
  have nil: "'''' \<notin> set ?stale"
    using \<open>new \<noteq> ''''\<close> below_Nil_root by auto
  have dist: "distinct (map fst ?swapped)"
    using pm_inv_distinct_snd [OF inv]
    by (auto simp: o_def case_prod_beta distinct_map inj_on_def)
  have "path_for (pm_rename m old new) i = (path_for ?m1 ++ map_of ?swapped) i"
  proof -
    have "map (\<lambda>(p, ino). (ino, p)) (map (\<lambda>(p, ino). (new @ drop (length old) p, ino)) ?moving) = ?swapped"
      by auto
    then have "path_for (pm_rename m old new) i = map_of (hm_extend (inode_to_path ?m1) ?swapped) i"
      using ne by (simp only: pm_rename_def Let_def path_for_def if_False) simp
    then show ?thesis
      by (simp only: map_of_hm_extend map_of_rev_distinct [OF dist] map_add_def path_for_def)
  qed
  moreover have "map_of ?swapped i =
      (case path_for m i of None \<Rightarrow> None | Some p \<Rightarrow> if below old p then Some (rebase old new p) else None)"
  proof -
    have sw: "map_of ?swapped i = Some q \<longleftrightarrow>
        (\<exists>p. path_for m i = Some p \<and> below old p \<and> q = rebase old new p)" for q
      using moved_map_of_swap [OF pm_inv_distinct_snd [OF inv], of new old i q]
      by (simp only: pm_inv_mem [OF inv] pm_inv_iff [OF inv])
    show ?thesis
    proof (cases "\<exists>p. path_for m i = Some p \<and> below old p")
      case True
      then obtain p where p: "path_for m i = Some p" "below old p" by blast
      then have "map_of ?swapped i = Some (rebase old new p)"
        using sw [of "rebase old new p"] by blast
      with p show ?thesis by simp
    next
      case False
      then have "map_of ?swapped i = None"
        using sw by (metis not_Some_eq)
      with False show ?thesis by (auto split: option.splits)
    qed
  qed
  moreover have "path_for ?m1 i =
      (case path_for m i of None \<Rightarrow> None
       | Some p \<Rightarrow> if \<not> below old p \<and> below new p then None else Some p)"
  proof (cases "path_for m i")
    case None
    then show ?thesis by (simp only: fold_drop_stale_path_for [OF inv nil] option.case)
  next
    case (Some p)
    then have "inode_for m p \<noteq> None"
      by (simp flip: pm_inv_iff [OF inv])
    with Some show ?thesis
      by (simp only: fold_drop_stale_path_for [OF inv nil] option.case stale_set) simp
  qed
  ultimately show ?thesis
    by (auto simp: renamed_path_def map_add_def split: option.splits)
qed

lemma pm_rename_next [simp]: "pm_next (pm_rename m old new) = pm_next m"
  by (simp add: pm_rename_def Let_def)

lemma pm_rename_distinct:
  assumes inv: "pm_inv m" and "new \<noteq> ''''"
  shows "distinct (map fst (path_to_inode (pm_rename m old new))) \<and>
    distinct (map fst (inode_to_path (pm_rename m old new)))"
proof -
  let ?stale = "map fst (filter (\<lambda>(p, _). \<not> below old p \<and> below new p) (path_to_inode m))"
  have "'''' \<notin> set ?stale"
    using \<open>new \<noteq> ''''\<close> below_Nil_root by auto
  with inv have "pm_inv (fold (\<lambda>p m. drop_stale m p) ?stale m)"
    by (rule fold_drop_stale_inv)
  then show ?thesis
    using pm_inv_distinct [OF inv] pm_inv_distinct by (simp add: pm_rename_def Let_def)
qed

lemma renamed_maps_inverse:
  assumes iff: "\<And>p i. f p = Some i \<longleftrightarrow> g i = Some p"
  shows "renamed_inode f old new p = Some i \<longleftrightarrow> renamed_path g old new i = Some p"
  using below_source [of new p old] rebase_source [of new p old] below_rebase [of old _ new]
    source_rebase [of old _ new]
  by (auto simp: renamed_inode_def renamed_path_def iff rebase_def split: option.splits if_splits)

lemma pm_rename_inv:
  assumes inv: "pm_inv m" and ne: "old \<noteq> ''''" "new \<noteq> ''''"
  shows "pm_inv (pm_rename m old new)"
proof (cases "\<exists>p. below old p \<and> inode_for m p \<noteq> None")
  case False
  then show ?thesis using inv by (auto simp: pm_rename_moves_nothing)
next
  case True
  then obtain p0 where moving: "below old p0" "inode_for m p0 \<noteq> None" by blast
  note facts = pm_rename_inode_for [OF inv moving] pm_rename_path_for [OF inv moving ne(2)]
  show ?thesis
    unfolding pm_inv_def facts
  proof (intro conjI allI impI)
    show "renamed_inode (inode_for m) old new p = Some i \<longleftrightarrow>
        renamed_path (path_for m) old new i = Some p" for p i
      by (rule renamed_maps_inverse) (rule pm_inv_iff [OF inv])
    show "renamed_inode (inode_for m) old new '''' = Some ROOT_INODE"
      using ne below_Nil_root pm_inv_root [OF inv] by (simp add: renamed_inode_def pm_inv_iff [OF inv])
    show "i < pm_next (pm_rename m old new)" if "renamed_inode (inode_for m) old new p = Some i" for p i
      using that pm_inv_bound [OF inv] by (auto simp: renamed_inode_def split: if_splits)
  qed (use pm_rename_distinct [OF inv ne(2)] in auto)
qed

lemma pm_inv_ops:
  "pm_inv m \<Longrightarrow> pm_inv (snd (pm_intern m p))"
  "pm_inv m \<Longrightarrow> p \<noteq> '''' \<Longrightarrow> pm_inv (snd (pm_forget m p))"
  "pm_inv m \<Longrightarrow> old \<noteq> '''' \<Longrightarrow> new \<noteq> '''' \<Longrightarrow> pm_inv (pm_rename m old new)"
  by (rule pm_intern_inv pm_forget_inv pm_rename_inv; assumption)+

text \<open>C4. A rename of an interned entry acts on both maps as the abstract rename does: everything
  at or below the old path is found under the new one with its inode unchanged, nothing is left at or
  below the old path, what was interned at or below the destination is dropped, and every other path
  keeps its inode. Without an interned source nothing changes. The two maps stay inverse.\<close>

theorem pm_rename_refines:
  assumes "pm_inv m" and "old \<noteq> ''''" and "new \<noteq> ''''"
  shows "let moves = (\<exists>p. below old p \<and> inode_for m p \<noteq> None); m' = pm_rename m old new in
    pm_inv m' \<and>
    (moves \<longrightarrow> inode_for m' = renamed_inode (inode_for m) old new \<and>
               path_for m' = renamed_path (path_for m) old new) \<and>
    (\<not> moves \<longrightarrow> m' = m)"
  using assms pm_rename_inv [OF assms] pm_rename_inode_for [OF assms(1)]
    pm_rename_path_for [OF assms(1) _ _ assms(3)] pm_rename_moves_nothing [of old m new]
  by (auto simp: Let_def fun_eq_iff)

definition pm_example :: path_map where
  "pm_example = snd (pm_intern (snd (pm_intern (snd (pm_intern pm_new ''/d'')) ''/d/a'')) ''/dd/a'')"

lemma pm_example_inv: "pm_inv pm_example"
  by (simp add: pm_example_def pm_inv_ops pm_new_inv)

theorem pm_rename_refines_witness:
  "inode_for (pm_rename pm_example ''/d'' ''/e'') ''/e/a'' = Some 3 \<and>
   inode_for (pm_rename pm_example ''/d'' ''/e'') ''/d/a'' = None \<and>
   inode_for (pm_rename pm_example ''/d'' ''/e'') ''/dd/a'' = Some 4"
proof -
  have "below ''/d'' ''/d'' \<and> inode_for pm_example ''/d'' \<noteq> None"
    by code_simp
  then have "inode_for (pm_rename pm_example ''/d'' ''/e'') = renamed_inode (inode_for pm_example) ''/d'' ''/e''"
    using pm_rename_refines [OF pm_example_inv, of "''/d''" "''/e''"] by (auto simp: Let_def)
  moreover have "renamed_inode (inode_for pm_example) ''/d'' ''/e'' ''/e/a'' = Some 3"
    "renamed_inode (inode_for pm_example) ''/d'' ''/e'' ''/d/a'' = None"
    "renamed_inode (inode_for pm_example) ''/d'' ''/e'' ''/dd/a'' = Some 4"
    by code_simp+
  ultimately show ?thesis by simp
qed

section \<open>Runs of operations\<close>

datatype pm_op = Intern path | Forget path | Rename path path

fun pm_step :: "path_map \<Rightarrow> pm_op \<Rightarrow> path_map" where
  "pm_step m (Intern p) = snd (pm_intern m p)"
| "pm_step m (Forget p) = snd (pm_forget m p)"
| "pm_step m (Rename old new) = pm_rename m old new"

fun pm_run :: "path_map \<Rightarrow> pm_op list \<Rightarrow> path_map" where
  "pm_run m [] = m"
| "pm_run m (x # xs) = pm_run (pm_step m x) xs"

text \<open>The callers never forget or rename the root: a child path starts with a slash.\<close>

fun pm_op_ok :: "pm_op \<Rightarrow> bool" where
  "pm_op_ok (Intern p) = True"
| "pm_op_ok (Forget p) = (p \<noteq> '''')"
| "pm_op_ok (Rename old new) = (old \<noteq> '''' \<and> new \<noteq> '''')"

lemma pm_step_inv: "pm_inv m \<Longrightarrow> pm_op_ok x \<Longrightarrow> pm_inv (pm_step m x)"
  by (cases x) (auto intro: pm_inv_ops)

lemma pm_run_inv: "pm_inv m \<Longrightarrow> list_all pm_op_ok xs \<Longrightarrow> pm_inv (pm_run m xs)"
  by (induction xs arbitrary: m) (auto intro: pm_step_inv)

lemma pm_step_next: "pm_next m \<le> pm_next (pm_step m x)"
  by (cases x) (auto intro: pm_intern_next)

lemma pm_run_next: "pm_next m \<le> pm_next (pm_run m xs)"
  by (induction xs arbitrary: m) (auto intro: order.trans pm_step_next)

lemma pm_step_unmapped:
  assumes "pm_inv m" and "pm_op_ok x" and "path_for m i = None" and "i < pm_next m"
  shows "path_for (pm_step m x) i = None"
proof (cases x)
  case (Intern p)
  then show ?thesis
    using assms pm_intern_path_for [OF assms(1), of p i]
    by (cases "inode_for m p") (auto simp: pm_intern_known pm_intern_new)
next
  case (Forget p)
  then show ?thesis using assms by (simp add: pm_forget_path_for)
next
  case (Rename old new)
  then show ?thesis
    using assms pm_rename_refines [of m old new]
    by (cases "\<exists>p. below old p \<and> inode_for m p \<noteq> None") (auto simp: Let_def renamed_path_def)
qed

lemma pm_run_unmapped:
  "pm_inv m \<Longrightarrow> list_all pm_op_ok xs \<Longrightarrow> path_for m i = None \<Longrightarrow> i < pm_next m \<Longrightarrow>
   path_for (pm_run m xs) i = None"
proof (induction xs arbitrary: m)
  case (Cons x xs)
  then show ?case
    using pm_step_next [of m x] by (auto intro!: Cons.IH pm_step_inv pm_step_unmapped)
qed simp

text \<open>Inode numbers are never recycled: once an interned path has been forgotten, its inode is
  never again the inode of any path, whatever operations follow (a dentry the kernel still holds for it
  can only fail, never show another file).\<close>

theorem inodes_never_recycled:
  assumes "pm_inv m" and "p \<noteq> ''''" and "pm_forget m p = (Some ino, m')" and "list_all pm_op_ok xs"
  shows "path_for (pm_run m' xs) ino = None \<and> inode_for (pm_run m' xs) q \<noteq> Some ino"
proof -
  have m': "m' = snd (pm_forget m p)" and ino: "inode_for m p = Some ino"
    using assms(3) pm_forget_fst [of m p] by auto
  have inv: "pm_inv m'"
    unfolding m' by (rule pm_forget_inv) (rule assms)+
  have "path_for m' ino = None"
    using ino pm_inv_iff [OF assms(1), of p ino] by (simp add: m' pm_forget_path_for [OF assms(1)])
  moreover have "ino < pm_next m'"
    using pm_inv_bound [OF assms(1) ino] by (simp add: m')
  ultimately have "path_for (pm_run m' xs) ino = None"
    using inv assms(4) by (intro pm_run_unmapped)
  then show ?thesis
    using pm_inv_iff [OF pm_run_inv [OF inv assms(4)], of q ino] by simp
qed

theorem inodes_never_recycled_witness:
  "inode_for (pm_run (snd (pm_forget pm_example ''/d/a'')) [Intern ''/d/a'', Rename ''/d'' ''/e'']) ''/e/a'' \<noteq> Some 3"
proof -
  have "pm_forget pm_example ''/d/a'' = (Some 3, snd (pm_forget pm_example ''/d/a''))"
    by code_simp
  from inodes_never_recycled [OF pm_example_inv _ this, of "[Intern ''/d/a'', Rename ''/d'' ''/e'']" "''/e/a''"]
  show ?thesis by simp
qed

section \<open>Paths at or below a set of roots\<close>

lemma strictly_below_cut:
  assumes "starts_with p (r @ [slash])" and "r \<noteq> []"
  shows "\<exists>i > 0. rfind slash p = Some i \<and> (take i p = r \<or> starts_with (take i p) (r @ [slash]))"
proof -
  obtain t where p: "p = r @ slash # t"
    using assms(1) by (auto simp: starts_with_iff)
  then obtain i where i: "rfind slash p = Some i"
    using rfind_None [of slash p] by fastforce
  show ?thesis
  proof (cases "slash \<in> set t")
    case False
    then have "i = length r" using i p rfind_append_last [of slash t r] by simp
    with p i assms(2) show ?thesis by auto
  next
    case True
    have "length r < i"
    proof (rule ccontr)
      assume "\<not> length r < i"
      then have "slash \<in> set (drop (Suc i) p)"
        using True p by (cases "i = length r") (auto simp: drop_Cons' split: if_splits)
      with i show False by (simp add: rfind_Some)
    qed
    moreover have "take i p = r @ slash # take (i - length r - 1) t"
      using \<open>length r < i\<close> p by (simp add: take_Cons')
    ultimately show ?thesis using i by (auto simp: starts_with_iff)
  qed
qed

lemma cut_is_prefix:
  "rfind slash p = Some i \<Longrightarrow> p = take i p @ slash # drop (Suc i) p"
  by (simp add: rfind_Some id_take_nth_drop [symmetric] Cons_nth_drop_Suc)
     (metis append_take_drop_id Cons_nth_drop_Suc)

lemma is_at_or_below_iff:
  "is_at_or_below p roots \<longleftrightarrow> (\<exists>r \<in> roots. p = r \<or> (r \<noteq> '''' \<and> starts_with p (r @ [slash])))"
proof (induction p roots rule: is_at_or_below.induct)
  case (1 p roots)
  show ?case
  proof (cases "p \<in> roots")
    case True
    then show ?thesis by (auto simp: is_at_or_below.simps [of p])
  next
    case False
    have step: "is_at_or_below p roots \<longleftrightarrow>
        (\<exists>i. rfind slash p = Some i \<and> 0 < i \<and> is_at_or_below (take i p) roots)"
      using False by (subst is_at_or_below.simps) (auto split: option.splits)
    have IH: "rfind slash p = Some i \<Longrightarrow> 0 < i \<Longrightarrow> is_at_or_below (take i p) roots =
        (\<exists>r \<in> roots. take i p = r \<or> (r \<noteq> '''' \<and> starts_with (take i p) (r @ [slash])))" for i
      using "1.IH" False by blast
    show ?thesis (is "_ = ?R")
    proof
      assume "is_at_or_below p roots"
      then obtain i r where i: "rfind slash p = Some i" "0 < i" and r: "r \<in> roots"
        and cut: "take i p = r \<or> (r \<noteq> '''' \<and> starts_with (take i p) (r @ [slash]))"
        using step IH by blast
      have "i < length p" using i(1) by (rule rfind_less)
      then have "r \<noteq> ''''" using cut i(2) by auto
      moreover have "starts_with p (r @ [slash])"
        using cut cut_is_prefix [OF i(1)] by (metis append.assoc append_Cons append_Nil starts_with_iff)
      ultimately show ?R using r by blast
    next
      assume ?R
      then obtain r where r: "r \<in> roots" "r \<noteq> ''''" "starts_with p (r @ [slash])"
        using False by blast
      then obtain i where "0 < i" "rfind slash p = Some i" "take i p = r \<or> starts_with (take i p) (r @ [slash])"
        using strictly_below_cut [of p r] by auto
      with r IH step show "is_at_or_below p roots" by blast
    qed
  qed
qed

text \<open>The loop of \<^verbatim>\<open>is_at_or_below\<close>, which cuts the path at its last slash until nothing
  but the leading slash is left, decides exactly whether the path is one of the roots or lies below a
  non-empty one, at a component boundary.\<close>

theorem is_at_or_below_correct:
  "is_at_or_below p roots \<longleftrightarrow> (\<exists>r \<in> roots. p = r \<or> (r \<noteq> '''' \<and> starts_with p (r @ [slash])))"
  by (rule is_at_or_below_iff)

lemma inodes_at_or_below_mem:
  "pm_inv m \<Longrightarrow> i \<in> set (inodes_at_or_below m roots) \<longleftrightarrow>
     (\<exists>p. path_for m i = Some p \<and> is_at_or_below p roots)"
  by (auto simp: inodes_at_or_below_def pm_inv_mem simp flip: pm_inv_iff)
     (force simp: pm_inv_mem)

section \<open>The interface the file system uses\<close>

text \<open>
  What the file system relies on when it interns the entries of a listing: an inode table is a pair of
  inverse maps that interning extends without disturbing the entries already there.
\<close>

locale inode_table =
  fixes inv :: "'m \<Rightarrow> bool"
    and intern :: "'m \<Rightarrow> path \<Rightarrow> nat \<times> 'm"
    and path_of :: "'m \<Rightarrow> nat \<Rightarrow> path option"
    and inode_of :: "'m \<Rightarrow> path \<Rightarrow> nat option"
  assumes inverse: "inv m \<Longrightarrow> inode_of m p = Some i \<longleftrightarrow> path_of m i = Some p"
    and intern_inv: "inv m \<Longrightarrow> inv (snd (intern m p))"
    and intern_found: "inv m \<Longrightarrow> inode_of (snd (intern m p)) p = Some (fst (intern m p))"
    and intern_keeps: "inv m \<Longrightarrow> path_of m i = Some q \<Longrightarrow> path_of (snd (intern m p)) i = Some q"
    and intern_adds: "inv m \<Longrightarrow> path_of (snd (intern m p)) i = Some q \<Longrightarrow> path_of m i = Some q \<or> q = p"
begin

lemma intern_path: "inv m \<Longrightarrow> path_of (snd (intern m p)) (fst (intern m p)) = Some p"
  using intern_found inverse intern_inv by blast

lemma intern_again:
  assumes "inv m" and "inode_of m p = Some i"
  shows "fst (intern m p) = i"
  using assms intern_keeps [of m i p p] inverse intern_found intern_inv
  by (metis option.inject)

lemma fold_intern_inv: "inv m \<Longrightarrow> inv (fold (\<lambda>p m. snd (intern m p)) ps m)"
  by (induction ps arbitrary: m) (auto intro: intern_inv)

lemma fold_intern_keeps:
  "inv m \<Longrightarrow> path_of m i = Some q \<Longrightarrow> path_of (fold (\<lambda>p m. snd (intern m p)) ps m) i = Some q"
  by (induction ps arbitrary: m) (auto intro: intern_inv intern_keeps)

lemma fold_intern_found:
  "inv m \<Longrightarrow> p \<in> set ps \<Longrightarrow> inode_of (fold (\<lambda>p m. snd (intern m p)) ps m) p \<noteq> None"
proof (induction ps arbitrary: m)
  case (Cons q ps)
  have inv': "inv (snd (intern m q))" using Cons.prems(1) by (rule intern_inv)
  show ?case
  proof (cases "p = q")
    case True
    then show ?thesis
      using fold_intern_keeps [OF inv' intern_path [OF Cons.prems(1)], of ps]
        inverse [OF fold_intern_inv [OF inv']] by fastforce
  next
    case False
    with Cons inv' show ?thesis by simp
  qed
qed simp

end

interpretation pm: inode_table pm_inv pm_intern path_for inode_for
  by unfold_locales
     (auto simp: pm_inv_iff pm_intern_inv pm_intern_inode_for pm_intern_keeps_path pm_intern_path_for
        split: if_splits)

end
