(* ===== verification/IpcAuth.thy ===== *)
theory IpcAuth
  imports Json Utf8
begin

text \<open>
  Model of \<^verbatim>\<open>mount/src/ipc_auth.rs\<close>: the protocol-2 handshake's token, messages and proofs.
  HMAC-SHA256, base64url and the OS randomness are third-party: \<open>hmac_sha256\<close>, \<open>b64_encode\<close>,
  \<open>b64_decode\<close> of \<open>ext\<close>, and an argument for the random bytes.
\<close>

definition PROTOCOL :: u64 where
  "PROTOCOL = 2"

definition SCOPE :: string where
  "SCOPE = ''full''"

definition CLIENT_NAME :: string where
  "CLIENT_NAME = ''unidrive-mount-linux''"

definition AUTH_FAILED :: string where
  "AUTH_FAILED = ''auth_failed''"

definition AUTH_UNAVAILABLE :: string where
  "AUTH_UNAVAILABLE = ''auth_unavailable''"

record ipc_auth =
  token_file :: "path option"
  profile :: string

datatype token_read = Key string | Absent

text \<open>The file's bytes, or None when it cannot be read. A file that is no UTF-8 text cannot be read by
  \<^verbatim>\<open>read_to_string\<close> either.\<close>

definition read_token :: "ext \<Rightarrow> path \<Rightarrow> string option \<Rightarrow> string + token_read" where
  "read_token x p content =
     (case content of
        None \<Rightarrow> Inr Absent
      | Some bytes \<Rightarrow>
          if \<not> valid_utf8 bytes then Inr Absent
          else case b64_decode x (trim bytes) of
                 None \<Rightarrow> Inl (AUTH_UNAVAILABLE @ '': token file '' @ p @ '' is not base64url'')
               | Some key \<Rightarrow>
                   if length key \<noteq> 32
                   then Inl (AUTH_UNAVAILABLE @ '': token file '' @ p @ '' does not hold 32 bytes'')
                   else Inr (Key key))"

definition new_nonce :: "ext \<Rightarrow> string + string \<Rightarrow> string + string" where
  "new_nonce x rnd =
     (case rnd of
        Inl e \<Rightarrow> Inl (AUTH_FAILED @ '': no OS randomness for the nonce: '' @ e)
      | Inr b \<Rightarrow> Inr (b64_encode x b))"

definition client_message :: "string \<Rightarrow> string \<Rightarrow> string \<Rightarrow> string" where
  "client_message prof nonce snonce =
     ''unidrive-ipc-v2|client|'' @ SCOPE @ ''|'' @ fmt_nat (length prof) @ '':'' @ prof @ ''|'' @ nonce @ ''|'' @ snonce"

definition server_message :: "string \<Rightarrow> string \<Rightarrow> string \<Rightarrow> string \<Rightarrow> string" where
  "server_message prof nonce snonce proof =
     ''unidrive-ipc-v2|server|'' @ SCOPE @ ''|'' @ fmt_nat (length prof) @ '':'' @ prof @ ''|'' @ nonce @ ''|'' @ snonce
       @ ''|'' @ proof"

definition client_proof :: "ext \<Rightarrow> string \<Rightarrow> string \<Rightarrow> string \<Rightarrow> string \<Rightarrow> string" where
  "client_proof x key prof nonce snonce =
     b64_encode x (hmac_sha256 x key (client_message prof nonce snonce))"

definition server_proof :: "ext \<Rightarrow> string \<Rightarrow> string \<Rightarrow> string \<Rightarrow> string \<Rightarrow> string \<Rightarrow> string" where
  "server_proof x key prof nonce snonce cproof =
     b64_encode x (hmac_sha256 x key (server_message prof nonce snonce cproof))"

definition verify_server_proof ::
    "ext \<Rightarrow> string \<Rightarrow> string \<Rightarrow> string \<Rightarrow> string \<Rightarrow> string \<Rightarrow> string \<Rightarrow> bool" where
  "verify_server_proof x key prof nonce snonce cproof sproof =
     (case b64_decode x sproof of
        None \<Rightarrow> False
      | Some got \<Rightarrow> got = hmac_sha256 x key (server_message prof nonce snonce cproof))"

section \<open>The messages are unambiguous\<close>

text \<open>Splitting off a field that ends at the first separator.\<close>

lemma split_at_sep:
  "c \<notin> set a \<Longrightarrow> c \<notin> set b \<Longrightarrow> a @ c # s = b @ c # t \<Longrightarrow> a = b \<and> s = t"
proof (induction a arbitrary: b)
  case Nil
  then show ?case by (cases b) auto
next
  case (Cons x a)
  then show ?case by (cases b) auto
qed

lemma digit_not_sep: "c \<in> set (fmt_nat n) \<Longrightarrow> 48 \<le> byte c \<and> byte c < 58"
  using fmt_nat_digits [of n] by (auto simp: subset_iff take_bit_eq_mod)

lemma length_prefixed_inj:
  assumes "fmt_nat (length a) @ '':'' @ a @ s = fmt_nat (length b) @ '':'' @ b @ t"
  shows "a = b \<and> s = t"
proof -
  have nocolon: "CHR '':'' \<notin> set (fmt_nat n)" for n
    by (auto dest!: digit_not_sep)
  have "fmt_nat (length a) = fmt_nat (length b) \<and> a @ s = b @ t"
    using split_at_sep [OF nocolon nocolon] assms by auto
  then show ?thesis
    by (auto dest: fmt_nat_inj)
qed

text \<open>The signed messages pin down what they are about: for nonces without a separator (base64url
  has none) equal client messages have equal profile, nonce and server nonce, whatever characters the
  profile name holds, and a client message is never a server message, so neither side's proof can be
  replayed as the other's.\<close>

theorem handshake_messages_unambiguous:
  assumes "CHR ''|'' \<notin> set nonce" and "CHR ''|'' \<notin> set nonce'"
  shows "(client_message prof nonce snonce = client_message prof' nonce' snonce' \<longrightarrow>
            prof = prof' \<and> nonce = nonce' \<and> snonce = snonce') \<and>
    client_message prof nonce snonce \<noteq> server_message prof' nonce' snonce' cproof"
proof (intro conjI impI)
  assume "client_message prof nonce snonce = client_message prof' nonce' snonce'"
  then have "fmt_nat (length prof) @ '':'' @ prof @ (''|'' @ nonce @ ''|'' @ snonce) =
      fmt_nat (length prof') @ '':'' @ prof' @ (''|'' @ nonce' @ ''|'' @ snonce')"
    by (simp add: client_message_def)
  from length_prefixed_inj [OF this]
  show "prof = prof'" "nonce = nonce'" "snonce = snonce'"
    using split_at_sep [OF assms] by auto
qed (simp add: client_message_def server_message_def)

theorem handshake_messages_unambiguous_witness:
  "client_message ''a|1:b'' ''n'' ''s'' \<noteq> client_message ''a'' ''n'' ''s''"
  using handshake_messages_unambiguous [of "''n''" "''n''" "''a|1:b''" "''s''" "''a''" "''s''"] by auto

end
