(* ===== verification/LineReader.thy ===== *)
theory LineReader
  imports Prelude
begin

text \<open>
  The inbound half of a connection (\<^verbatim>\<open>read_inbound_line\<close> in \<^verbatim>\<open>mount/src/ipc.rs\<close>).

  A reader is a \<^verbatim>\<open>BufReader\<close>: the bytes already buffered and the reads still to come, each
  an error or a chunk; behind the last one the peer has closed the connection. How the bytes are cut
  into chunks is the network's choice, and the theorems hold for every way of cutting.
\<close>

datatype io_err = NotFound | ConnectionRefused | UnexpectedEof | InvalidData | OtherErr nat

record reader =
  rbuf :: string
  rsrc :: "(io_err + string) list"

definition newline :: char where
  "newline = CHR 0x0A"

fun position :: "char \<Rightarrow> string \<Rightarrow> nat option" where
  "position c [] = None"
| "position c (x # xs) = (if x = c then Some 0 else map_option Suc (position c xs))"

definition fill_buf :: "reader \<Rightarrow> (io_err + string) \<times> reader" where
  "fill_buf r =
     (if rbuf r \<noteq> [] then (Inr (rbuf r), r)
      else case rsrc r of
             [] \<Rightarrow> (Inr [], r)
           | Inl e # src \<Rightarrow> (Inl e, r\<lparr>rsrc := src\<rparr>)
           | Inr chunk # src \<Rightarrow> (Inr chunk, \<lparr>rbuf = chunk, rsrc = src\<rparr>))"

definition consume :: "nat \<Rightarrow> reader \<Rightarrow> reader" where
  "consume n r = r\<lparr>rbuf := drop n (rbuf r)\<rparr>"

text \<open>\<^verbatim>\<open>reader.take(limit).read_until(b'\n', &mut buf)\<close>: at a limit of 0 the adapter reports
  the end.\<close>

function read_until :: "nat \<Rightarrow> reader \<Rightarrow> string \<Rightarrow> (io_err + string) \<times> reader" where
  "read_until limit r acc =
     (if limit = 0 then (Inr acc, r)
      else case fill_buf r of
             (Inl e, r') \<Rightarrow> (Inl e, r')
           | (Inr b, r') \<Rightarrow>
               let avail = take limit b in
               (case position newline avail of
                  Some i \<Rightarrow> (Inr (acc @ take (i + 1) avail), consume (i + 1) r')
                | None \<Rightarrow>
                    if avail = [] then (Inr acc, r')
                    else read_until (limit - length avail) (consume (length avail) r') (acc @ avail)))"
  by pat_completeness auto
termination
  by (relation "measure (\<lambda>(limit, r, acc). limit)") (auto simp: neq_Nil_conv)

declare read_until.simps [simp del]

text \<open>The loop that drops the rest of an overlong line.\<close>

function drain_line :: "reader \<Rightarrow> (io_err + unit) \<times> reader" where
  "drain_line r =
     (case fill_buf r of
        (Inl e, r') \<Rightarrow> (Inl e, r')
      | (Inr chunk, r') \<Rightarrow>
          if chunk = [] then (Inl UnexpectedEof, r')
          else (case position newline chunk of
                  Some i \<Rightarrow> (Inr (), consume (i + 1) r')
                | None \<Rightarrow> drain_line (consume (length chunk) r')))"
  by pat_completeness auto
termination
  by (relation "measure (\<lambda>r. length (rsrc r) + (if rbuf r = [] then 0 else 1))")
     (auto simp: fill_buf_def consume_def split: if_splits list.splits sum.splits)

declare drain_line.simps [simp del]

datatype inbound_line = Eof | Line string | TooLong

definition read_inbound_line :: "nat \<Rightarrow> reader \<Rightarrow> (io_err + inbound_line) \<times> reader" where
  "read_inbound_line limit r =
     (case read_until limit r [] of
        (Inl e, r') \<Rightarrow> (Inl e, r')
      | (Inr buf, r') \<Rightarrow>
          if length buf = 0 then (Inr Eof, r')
          else if last buf = newline \<or> length buf < limit then (Inr (Line buf), r')
          else (case drain_line r' of
                  (Inl e, r'') \<Rightarrow> (Inl e, r'')
                | (Inr _, r'') \<Rightarrow> (Inr TooLong, r'')))"

section \<open>The specification on the plain byte sequence\<close>

text \<open>The bytes a reader still holds, when no read fails and no read is empty.\<close>

definition pending :: "reader \<Rightarrow> string" where
  "pending r = rbuf r @ concat (map projr (rsrc r))"

definition healthy :: "reader \<Rightarrow> bool" where
  "healthy r \<longleftrightarrow> list_all (\<lambda>x. case x of Inl _ \<Rightarrow> False | Inr c \<Rightarrow> c \<noteq> []) (rsrc r)"

definition read_line_spec :: "nat \<Rightarrow> string \<Rightarrow> (io_err + inbound_line) \<times> string" where
  "read_line_spec limit s =
     (if s = [] \<or> limit = 0 then (Inr Eof, s)
      else case position newline s of
             Some i \<Rightarrow> (Inr (if i < limit then Line (take (i + 1) s) else TooLong), drop (i + 1) s)
           | None \<Rightarrow> if length s < limit then (Inr (Line s), []) else (Inl UnexpectedEof, []))"

lemma position_None: "position c s = None \<longleftrightarrow> c \<notin> set s"
  by (induction s) auto

lemma position_Some: "position c s = Some i \<longleftrightarrow> i < length s \<and> s ! i = c \<and> c \<notin> set (take i s)"
proof (induction s arbitrary: i)
  case (Cons x s)
  show ?case by (cases i) (auto simp: Cons.IH)
qed simp

lemma position_append:
  "position c (s @ t) = (case position c s of Some i \<Rightarrow> Some i
     | None \<Rightarrow> map_option (\<lambda>j. length s + j) (position c t))"
  by (induction s) (auto split: option.splits, (cases "position c t"; simp)+)

lemma position_take:
  "position c (take n s) = (case position c s of Some i \<Rightarrow> if i < n then Some i else None | None \<Rightarrow> None)"
proof (induction s arbitrary: n)
  case (Cons x s)
  then show ?case by (cases n) (auto split: option.splits)
qed simp

lemma fill_buf_healthy:
  assumes "healthy r"
  shows "\<exists>r'. fill_buf r = (Inr (rbuf r'), r') \<and> healthy r' \<and> pending r' = pending r \<and>
    (rbuf r' = [] \<longleftrightarrow> pending r = [])"
proof (cases "rbuf r")
  case (Cons c cs)
  then show ?thesis using assms by (auto simp: fill_buf_def pending_def)
next
  case Nil
  show ?thesis
  proof (cases "rsrc r")
    case Nil
    then show ?thesis using assms \<open>rbuf r = []\<close> by (auto simp: fill_buf_def pending_def)
  next
    case (Cons x src)
    with assms obtain c where c: "x = Inr c" "c \<noteq> []" "healthy \<lparr>rbuf = c, rsrc = src\<rparr>"
      by (cases x) (auto simp: healthy_def)
    then show ?thesis
      using Cons \<open>rbuf r = []\<close> by (auto simp: fill_buf_def pending_def)
  qed
qed

lemma healthy_consume [simp]: "healthy (consume n r) = healthy r"
  by (simp add: healthy_def consume_def)

lemma pending_consume: "n \<le> length (rbuf r) \<Longrightarrow> pending (consume n r) = drop n (pending r)"
  by (simp add: pending_def consume_def)

lemma pending_rbuf: "n \<le> length (rbuf r) \<Longrightarrow> take n (pending r) = take n (rbuf r)"
  by (simp add: pending_def)

text \<open>The bytes of the next line, its newline included, cut at the limit.\<close>

definition line_upto :: "nat \<Rightarrow> string \<Rightarrow> string" where
  "line_upto limit s =
     (case position newline s of
        Some i \<Rightarrow> if i < limit then take (i + 1) s else take limit s
      | None \<Rightarrow> take limit s)"

lemma line_upto_split:
  assumes "n \<le> limit" and "n \<le> length s" and "newline \<notin> set (take n s)"
  shows "line_upto limit s = take n s @ line_upto (limit - n) (drop n s)"
proof -
  have "position newline (take n s) = None" using assms(3) by (simp add: position_None)
  then have pos: "position newline s = map_option (\<lambda>j. n + j) (position newline (drop n s))"
    using position_append [of newline "take n s" "drop n s"] assms(2) by simp
  have split: "take k s = take n s @ take (k - n) (drop n s)" if "n \<le> k" for k
    using that by (metis le_add_diff_inverse take_add)
  show ?thesis
    using assms(1) split [of limit] split [of "n + _ + 1"]
    by (auto simp: line_upto_def pos split: option.splits)
qed

lemma read_until_spec:
  "healthy r \<Longrightarrow> \<exists>r'. read_until limit r acc = (Inr (acc @ line_upto limit (pending r)), r') \<and>
     healthy r' \<and> pending r' = drop (length (line_upto limit (pending r))) (pending r)"
proof (induction limit r acc rule: read_until.induct)
  case (1 limit r acc)
  show ?case
  proof (cases "limit = 0")
    case True
    then show ?thesis
      using "1.prems" by (subst read_until.simps) (auto simp: line_upto_def split: option.splits)
  next
    case False
    obtain r1 where r1: "fill_buf r = (Inr (rbuf r1), r1)" "healthy r1" "pending r1 = pending r"
      "rbuf r1 = [] \<longleftrightarrow> pending r = []"
      using fill_buf_healthy [OF "1.prems"] by blast
    let ?avail = "take limit (rbuf r1)"
    let ?n = "length ?avail"
    have n: "?n \<le> length (rbuf r1)" "?n \<le> limit" by simp_all
    have avail: "take ?n (pending r) = ?avail"
      using pending_rbuf [OF n(1)] r1(3) by (metis append_eq_conv_conj append_take_drop_id)
    show ?thesis
    proof (cases "position newline ?avail")
      case (Some i)
      then have i: "i < ?n" by (simp add: position_Some)
      have "position newline (pending r) = Some i"
        using position_append [of newline "take ?n (pending r)" "drop ?n (pending r)"] Some avail by simp
      then have "line_upto limit (pending r) = take (i + 1) ?avail"
        using i avail by (simp add: line_upto_def) (metis Suc_leI min.absorb1 take_take)
      moreover have "pending (consume (i + 1) r1) = drop (i + 1) (pending r)"
        using i n pending_consume [of "i + 1" r1] r1(3) by simp
      ultimately show ?thesis
        using False r1 i Some by (subst read_until.simps) simp
    next
      case None
      show ?thesis
      proof (cases "?avail = []")
        case True
        then have "pending r = []" using False r1(4) by simp
        then show ?thesis
          using False r1 True by (subst read_until.simps) (simp add: line_upto_def)
      next
        case ne: False
        let ?r2 = "consume ?n r1"
        have pend: "pending ?r2 = drop ?n (pending r)" "healthy ?r2"
          using r1 pending_consume [OF n(1)] by simp_all
        have len: "?n \<le> length (pending r)"
        proof -
          have "length (rbuf r1) \<le> length (pending r1)" by (simp add: pending_def)
          with n(1) show ?thesis unfolding r1(3) by (rule order.trans)
        qed
        have split: "line_upto limit (pending r) = ?avail @ line_upto (limit - ?n) (pending ?r2)"
          using line_upto_split [OF n(2) len] None avail pend(1) by (simp add: position_None)
        obtain r' where "read_until (limit - ?n) ?r2 (acc @ ?avail) =
            (Inr ((acc @ ?avail) @ line_upto (limit - ?n) (pending ?r2)), r')" "healthy r'"
          "pending r' = drop (length (line_upto (limit - ?n) (pending ?r2))) (pending ?r2)"
          using "1.IH" [OF False r1(1) [symmetric] refl refl None ne pend(2)] by blast
        moreover have "read_until limit r acc = read_until (limit - ?n) ?r2 (acc @ ?avail)"
          using False r1(1) None ne by (subst read_until.simps) (simp add: Let_def)
        ultimately show ?thesis
          using split pend(1) by (simp add: add.commute)
      qed
    qed
  qed
qed

lemma drain_line_spec:
  "healthy r \<Longrightarrow> \<exists>r'. healthy r' \<and> drain_line r =
     (case position newline (pending r) of Some i \<Rightarrow> Inr () | None \<Rightarrow> Inl UnexpectedEof, r') \<and>
     pending r' = (case position newline (pending r) of Some i \<Rightarrow> drop (i + 1) (pending r) | None \<Rightarrow> [])"
proof (induction r rule: drain_line.induct)
  case (1 r)
  obtain r1 where r1: "fill_buf r = (Inr (rbuf r1), r1)" "healthy r1" "pending r1 = pending r"
    "rbuf r1 = [] \<longleftrightarrow> pending r = []"
    using fill_buf_healthy [OF "1.prems"] by blast
  let ?n = "length (rbuf r1)"
  have whole: "pending r = rbuf r1 @ drop ?n (pending r)"
    using r1(3) by (metis append_eq_conv_conj pending_def)
  have pos: "position newline (pending r) = (case position newline (rbuf r1) of Some i \<Rightarrow> Some i
      | None \<Rightarrow> map_option (\<lambda>j. ?n + j) (position newline (drop ?n (pending r))))"
    by (subst whole) (rule position_append)
  show ?case
  proof (cases "rbuf r1 = []")
    case True
    then have "pending r = []" using r1(4) by simp
    with r1 True show ?thesis by (subst drain_line.simps) simp
  next
    case False
    show ?thesis
    proof (cases "position newline (rbuf r1)")
      case (Some i)
      then have i: "i < ?n" by (simp add: position_Some)
      with Some False r1 pending_consume [of "i + 1" r1] pos show ?thesis
        by (subst drain_line.simps) auto
    next
      case None
      let ?r2 = "consume ?n r1"
      have pend: "pending ?r2 = drop ?n (pending r)" "healthy ?r2"
        using r1 pending_consume [of ?n r1] by simp_all
      have "drain_line r = drain_line ?r2"
        using r1 False None by (subst drain_line.simps) simp
      with "1.IH" [OF r1(1) [symmetric] refl False None pend(2)] pos None pend(1) show ?thesis
        by (auto simp: add.commute split: option.splits)
    qed
  qed
qed

lemma read_short_line:
  assumes r1: "read_until limit r [] = (Inr (line_upto limit (pending r)), r1)" "healthy r1"
      "pending r1 = drop (length (line_upto limit (pending r))) (pending r)"
    and "limit \<noteq> 0" and "pending r \<noteq> []"
    and "(\<exists>i < limit. position newline (pending r) = Some i) \<or> (position newline (pending r) = None \<and> length (pending r) < limit)"
  shows "read_inbound_line limit r = (fst (read_line_spec limit (pending r)), r1) \<and>
    pending r1 = snd (read_line_spec limit (pending r))"
  using assms(6)
proof (elim disjE exE conjE)
  let ?s = "pending r"
  fix i
  assume found: "i < limit" "position newline ?s = Some i"
  then have l: "line_upto limit ?s = take (i + 1) ?s" by (simp add: line_upto_def)
  then have "last (line_upto limit ?s) = newline" "length (line_upto limit ?s) = i + 1"
    using found(2) by (auto simp: position_Some take_Suc_conv_app_nth)
  with r1 found assms(4,5) l show ?thesis
    by (auto simp: read_inbound_line_def read_line_spec_def)
next
  assume "position newline (pending r) = None" "length (pending r) < limit"
  with r1 assms(4,5) show ?thesis
    by (simp add: read_inbound_line_def read_line_spec_def line_upto_def)
qed

lemma read_long_line:
  assumes r1: "read_until limit r [] = (Inr (line_upto limit (pending r)), r1)" "healthy r1"
      "pending r1 = drop (length (line_upto limit (pending r))) (pending r)"
    and "limit \<noteq> 0" and "pending r \<noteq> []"
    and long: "\<not> ((\<exists>i < limit. position newline (pending r) = Some i) \<or>
        (position newline (pending r) = None \<and> length (pending r) < limit))"
  shows "\<exists>r'. healthy r' \<and> read_inbound_line limit r = (fst (read_line_spec limit (pending r)), r') \<and>
    pending r' = snd (read_line_spec limit (pending r))"
proof -
  let ?s = "pending r"
  have l: "line_upto limit ?s = take limit ?s" "limit \<le> length ?s"
    using long by (auto simp: line_upto_def position_Some split: option.splits)
  have ne: "take limit ?s \<noteq> []" using assms(4,5) by simp
  have cut: "newline \<notin> set (take limit ?s)"
    using long position_take [of newline limit ?s] by (auto simp flip: position_None split: option.splits)
  have "position newline (take limit ?s) = None" using cut by (rule position_None [THEN iffD2])
  then have "position newline ?s = map_option (\<lambda>j. limit + j) (position newline (pending r1))"
    using position_append [of newline "take limit ?s" "drop limit ?s"] l r1(3) by simp
  moreover have "last (take limit ?s) \<noteq> newline" using cut last_in_set [OF ne] by metis
  moreover obtain r2 where "healthy r2" "drain_line r1 =
      (case position newline (pending r1) of Some i \<Rightarrow> Inr () | None \<Rightarrow> Inl UnexpectedEof, r2)"
    "pending r2 = (case position newline (pending r1) of Some i \<Rightarrow> drop (i + 1) (pending r1) | None \<Rightarrow> [])"
    using drain_line_spec [OF r1(2)] by blast
  ultimately show ?thesis
    using r1 assms(4,5) ne l
    by (auto simp: read_inbound_line_def read_line_spec_def add.commute split: option.splits)
qed

text \<open>C13. Reading a line does not depend on how the peer's bytes were cut into reads: on every
  chunking it yields what the specification yields on the plain byte sequence, and leaves exactly the
  bytes behind the line pending. A line longer than the limit is consumed whole and reported as too
  long, so the next read starts at the next message.\<close>

theorem read_inbound_line_refines:
  assumes "healthy r"
  shows "\<exists>r'. healthy r' \<and>
    read_inbound_line limit r = (fst (read_line_spec limit (pending r)), r') \<and>
    pending r' = snd (read_line_spec limit (pending r))"
proof -
  let ?l = "line_upto limit (pending r)"
  obtain r1 where r1: "read_until limit r [] = (Inr ?l, r1)" "healthy r1" "pending r1 = drop (length ?l) (pending r)"
    using read_until_spec [OF assms, of limit "[]"] by auto
  show ?thesis
  proof (cases "limit = 0 \<or> pending r = []")
    case True
    then have "?l = []" by (auto simp: line_upto_def split: option.splits)
    then have "read_inbound_line limit r = (Inr Eof, r1)" "pending r1 = pending r"
      using r1 by (simp_all add: read_inbound_line_def)
    moreover have "read_line_spec limit (pending r) = (Inr Eof, pending r)"
      using True by (auto simp: read_line_spec_def)
    ultimately show ?thesis using r1(2) by simp
  next
    case False
    then show ?thesis using read_short_line [OF r1] read_long_line [OF r1] r1(2) by blast
  qed
qed

theorem read_inbound_line_refines_witness:
  "read_inbound_line 4 \<lparr>rbuf = ''ab'', rsrc = [Inr ''cde'', Inr (newline # ''x''), Inr [newline]]\<rparr> =
     (Inr TooLong, \<lparr>rbuf = ''x'', rsrc = [Inr [newline]]\<rparr>)"
proof -
  let ?r = "\<lparr>rbuf = ''ab'', rsrc = [Inr ''cde'', Inr (newline # ''x''), Inr [newline]]\<rparr>"
  have "healthy ?r" by (simp add: healthy_def)
  then have "fst (read_inbound_line 4 ?r) = fst (read_line_spec 4 (pending ?r))"
    using read_inbound_line_refines [of ?r 4] by auto
  moreover have "fst (read_line_spec 4 (pending ?r)) = Inr TooLong" by code_simp
  moreover have "snd (read_inbound_line 4 ?r) = \<lparr>rbuf = ''x'', rsrc = [Inr [newline]]\<rparr>" by code_simp
  ultimately show ?thesis by (simp add: prod_eq_iff)
qed

section \<open>A whole conversation\<close>

fun read_lines :: "nat \<Rightarrow> nat \<Rightarrow> reader \<Rightarrow> (io_err + inbound_line) list" where
  "read_lines limit 0 r = []"
| "read_lines limit (Suc n) r =
     (case read_inbound_line limit r of (x, r') \<Rightarrow> x # read_lines limit n r')"

definition classify :: "nat \<Rightarrow> string \<Rightarrow> inbound_line" where
  "classify limit m = (if length m < limit then Line (m @ [newline]) else TooLong)"

lemma read_line_spec_message:
  "newline \<notin> set m \<Longrightarrow> 0 < limit \<Longrightarrow>
   read_line_spec limit (m @ newline # t) = (Inr (classify limit m), t)"
proof -
  assume "newline \<notin> set m" "0 < limit"
  moreover then have "position newline (m @ newline # t) = Some (length m)"
    by (simp add: position_append position_None [THEN iffD2])
  ultimately show ?thesis by (simp add: read_line_spec_def classify_def)
qed

text \<open>Framing stays in step over a whole connection: when the peer sends a sequence of messages,
  one line each, the n-th read answers the n-th message, however long the earlier ones were and
  however the bytes were chunked; an overlong message costs only itself.\<close>

theorem messages_stay_in_step:
  assumes "healthy r" and "0 < limit" and "\<forall>m \<in> set ms. newline \<notin> set m"
    and "pending r = concat (map (\<lambda>m. m @ [newline]) ms) @ rest"
  shows "read_lines limit (length ms) r = map (Inr \<circ> classify limit) ms"
  using assms
proof (induction ms arbitrary: r)
  case (Cons m ms)
  then have spec: "read_line_spec limit (pending r) =
      (Inr (classify limit m), concat (map (\<lambda>m. m @ [newline]) ms) @ rest)"
    by (simp add: read_line_spec_message)
  obtain r' where "read_inbound_line limit r = (Inr (classify limit m), r')" "healthy r'"
    "pending r' = concat (map (\<lambda>m. m @ [newline]) ms) @ rest"
    using read_inbound_line_refines [OF Cons.prems(1), of limit] spec by auto
  with Cons show ?case by simp
qed simp

theorem messages_stay_in_step_witness:
  "read_lines 3 2 \<lparr>rbuf = ''toolo'', rsrc = [Inr (''ng'' @ newline # ''o''), Inr (''k'' @ [newline])]\<rparr> =
     [Inr TooLong, Inr (Line (''ok'' @ [newline]))]"
  using messages_stay_in_step
      [of "\<lparr>rbuf = ''toolo'', rsrc = [Inr (''ng'' @ newline # ''o''), Inr (''k'' @ [newline])]\<rparr>"
        3 "[''toolong'', ''ok'']" "''''"]
  by (simp add: healthy_def pending_def newline_def classify_def numeral_2_eq_2)

end
