(* ===== verification/Ipc.thy ===== *)
theory Ipc
  imports IpcAuth LineReader
begin

text \<open>
  Model of \<^verbatim>\<open>mount/src/ipc.rs\<close>: the NDJSON client over one Unix domain socket.

  \<^item> \<open>conn\<close> is an \<^verbatim>\<open>IpcClient\<close>: the reader of \<open>LineReader\<close>, and the writer as the outcomes of
    the write and flush calls to come (none left: success). Two ghost fields record the run:
    \<open>out\<close>, the bytes written, and \<open>issued\<close>, the requests whose writing was begun.
  \<^item> \<open>net\<close> is the outside world of the connects: what each connect attempt meets, how many were
    made, and the clock. \<open>past\<close> collects the requests of connections that were dropped.
  \<^item> One definition per verb, in the code's order: request, round trip, reply checks.
\<close>

section \<open>Errors\<close>

datatype ipc_error =
    Io io_err
  | Malformed string
  | ServerError string
  | Busy
  | Unknown string

definition ipc_error_message :: "(io_err \<Rightarrow> string) \<Rightarrow> ipc_error \<Rightarrow> string" where
  "ipc_error_message display_io e =
     (case e of
        Io err \<Rightarrow> ''io: '' @ display_io err
      | Malformed m \<Rightarrow> ''malformed reply: '' @ m
      | ServerError m \<Rightarrow> ''server reported error: '' @ m
      | Busy \<Rightarrow> ''busy''
      | Unknown reason \<Rightarrow> ''unknown: '' @ reason)"

definition is_auth_terminal :: "ipc_error \<Rightarrow> bool" where
  "is_auth_terminal e =
     (case e of
        ServerError m \<Rightarrow> starts_with m AUTH_FAILED \<or> starts_with m AUTH_UNAVAILABLE
      | _ \<Rightarrow> False)"

fun is_io :: "ipc_error \<Rightarrow> bool" where
  "is_io (Io _) = True"
| "is_io _ = False"

definition MAX_INBOUND_LINE_BYTES :: nat where
  "MAX_INBOUND_LINE_BYTES = 4 * 1024 * 1024"

definition MAX_REQUEST_BYTES :: nat where
  "MAX_REQUEST_BYTES = 64 * 1024"

section \<open>Listing entries\<close>

record list_entry =
  le_path :: path
  le_size :: u64
  le_mtime_ms :: int
  le_hydrated :: bool
  le_folder :: bool
  le_remote_modified_ms :: "int option"
  le_pending_upload :: bool

definition entry_size :: "json \<Rightarrow> u64" where
  "entry_size v =
     (case as_u64 v of
        Some n \<Rightarrow> n
      | None \<Rightarrow> (case as_i64 v of Some i \<Rightarrow> word_of_int (max i 0) | None \<Rightarrow> 0))"

definition parse_list_entry :: "ext \<Rightarrow> json \<Rightarrow> ipc_error + list_entry" where
  "parse_list_entry x e =
     res_then (res_or (Malformed (to_json x e)) (as_str (jindex e ''path''))) (\<lambda>path.
     let size = entry_size (jindex e ''size'') in
     res_then (res_or (Malformed (to_json x e)) (as_i64 (jindex e ''mtime_ms''))) (\<lambda>mtime_ms.
     res_then (res_or (Malformed (to_json x e)) (as_bool (jindex e ''hydrated''))) (\<lambda>hydrated.
     res_then (res_or (Malformed (to_json x e)) (as_bool (jindex e ''folder''))) (\<lambda>folder.
     let remote_modified_ms = as_i64 (jindex e ''remote_modified_ms'');
         pending_upload = (case as_bool (jindex e ''pending_upload'') of Some b \<Rightarrow> b | None \<Rightarrow> False)
     in Inr \<lparr>le_path = path, le_size = size, le_mtime_ms = mtime_ms, le_hydrated = hydrated,
             le_folder = folder, le_remote_modified_ms = remote_modified_ms,
             le_pending_upload = pending_upload\<rparr>))))"

fun parse_entries :: "ext \<Rightarrow> json list \<Rightarrow> ipc_error + list_entry list" where
  "parse_entries x [] = Inr []"
| "parse_entries x (e # es) =
     res_then (parse_list_entry x e) (\<lambda>a. res_then (parse_entries x es) (\<lambda>as. Inr (a # as)))"

section \<open>One connection\<close>

record conn =
  rd :: reader
  wres :: "io_err option list"
  out :: string
  issued :: "json list"
  shut :: bool

type_synonym 'a client = "(conn, ipc_error, 'a) prog"

definition write_op :: "string \<Rightarrow> unit client" where
  "write_op bytes = (\<lambda>c.
     case wres c of
       [] \<Rightarrow> Some (Inr (), c\<lparr>out := out c @ bytes\<rparr>)
     | None # ws \<Rightarrow> Some (Inr (), c\<lparr>wres := ws, out := out c @ bytes\<rparr>)
     | Some e # ws \<Rightarrow> Some (Inl (Io e), c\<lparr>wres := ws\<rparr>))"

definition read_op :: "inbound_line client" where
  "read_op = (\<lambda>c.
     case read_inbound_line MAX_INBOUND_LINE_BYTES (rd c) of
       (Inl e, r) \<Rightarrow> Some (Inl (Io e), c\<lparr>rd := r\<rparr>)
     | (Inr l, r) \<Rightarrow> Some (Inr l, c\<lparr>rd := r\<rparr>))"

definition strip_newline :: "string \<Rightarrow> string" where
  "strip_newline buf = (case strip_suffix buf [newline] of Some b \<Rightarrow> b | None \<Rightarrow> buf)"

definition reply_of_line :: "ext \<Rightarrow> inbound_line \<Rightarrow> json client" where
  "reply_of_line x l =
     (case l of
        Eof \<Rightarrow> throw (Io UnexpectedEof)
      | TooLong \<Rightarrow> throw (Malformed
          (''reply longer than '' @ fmt_nat MAX_INBOUND_LINE_BYTES @ '' bytes, discarded''))
      | Line buf \<Rightarrow>
          let trimmed = strip_newline buf in
          (case from_slice x trimmed of
             Inl e \<Rightarrow> throw (Malformed (e @ '': '' @ from_utf8_lossy trimmed))
           | Inr v \<Rightarrow> ret v))"

definition round_trip :: "ext \<Rightarrow> json \<Rightarrow> json client" where
  "round_trip x req =
     (let line = to_json x req in
      if length line + 1 > MAX_REQUEST_BYTES
      then throw (Malformed (''request '' @ fmt_nat (length line) @ '' bytes exceeds 64 KiB JVM cap''))
      else
        andthen (modify (\<lambda>c. c\<lparr>issued := issued c @ [req]\<rparr>)) (\<lambda>_.
        andthen (write_op line) (\<lambda>_.
        andthen (write_op [newline]) (\<lambda>_.
        andthen (write_op '''') (\<lambda>_.
        andthen read_op (reply_of_line x))))))"

definition read_event_line :: "string client" where
  "read_event_line =
     andthen read_op (\<lambda>l.
       case l of
         Line buf \<Rightarrow> ret (from_utf8_lossy (strip_newline buf))
       | Eof \<Rightarrow> throw (Io UnexpectedEof)
       | TooLong \<Rightarrow> throw (Io InvalidData))"

section \<open>Replies\<close>

definition reply_ok :: "json \<Rightarrow> bool" where
  "reply_ok reply = (case as_bool (jindex reply ''ok'') of Some b \<Rightarrow> b | None \<Rightarrow> False)"

definition reply_error :: "json \<Rightarrow> string" where
  "reply_error reply = (case as_str (jindex reply ''error'') of Some s \<Rightarrow> s | None \<Rightarrow> ''unknown'')"

definition server_error :: "json \<Rightarrow> ipc_error" where
  "server_error reply =
     (let err = reply_error reply in if err = ''busy'' then Busy else ServerError err)"

text \<open>The shape every verb shares: a round trip, an error reply turned into \<open>server_error\<close>.\<close>

definition checked_call :: "ext \<Rightarrow> json \<Rightarrow> (json \<Rightarrow> 'a client) \<Rightarrow> 'a client" where
  "checked_call x req k =
     andthen (round_trip x req) (\<lambda>reply.
       if \<not> reply_ok reply then throw (server_error reply) else k reply)"

definition field_str :: "ext \<Rightarrow> json \<Rightarrow> string \<Rightarrow> string client" where
  "field_str x reply k = ok_or (Malformed (to_json x reply)) (as_str (jindex reply k))"

definition verb :: "string \<Rightarrow> (string \<times> string) list \<Rightarrow> json" where
  "verb name args = JObj ((''verb'', JStr name) # map (\<lambda>(k, v). (k, JStr v)) args)"

definition open_read :: "ext \<Rightarrow> string \<Rightarrow> path \<Rightarrow> path client" where
  "open_read x handle_id path =
     checked_call x (verb ''hydration.open_read'' [(''handle_id'', handle_id), (''path'', path)])
       (\<lambda>reply. field_str x reply ''cache_path'')"

definition open_write :: "ext \<Rightarrow> string \<Rightarrow> path \<Rightarrow> path \<Rightarrow> path client" where
  "open_write x handle_id path cache_path =
     checked_call x (verb ''hydration.open_write''
         [(''handle_id'', handle_id), (''path'', path), (''cache_path'', cache_path)])
       (\<lambda>reply. field_str x reply ''cache_path'')"

definition open_write_begin :: "ext \<Rightarrow> path \<Rightarrow> string option \<Rightarrow> path client" where
  "open_write_begin x path handle_id =
     checked_call x
       (case handle_id of
          Some hid \<Rightarrow> verb ''hydration.open_write_begin'' [(''path'', path), (''handle_id'', hid)]
        | None \<Rightarrow> verb ''hydration.open_write_begin'' [(''path'', path)])
       (\<lambda>reply. field_str x reply ''cache_path'')"

definition close_handle :: "ext \<Rightarrow> string \<Rightarrow> unit client" where
  "close_handle x handle_id =
     checked_call x (verb ''hydration.close_handle'' [(''handle_id'', handle_id)]) (\<lambda>_. ret ())"

definition hydrate :: "ext \<Rightarrow> path \<Rightarrow> unit client" where
  "hydrate x path = checked_call x (verb ''hydration.hydrate'' [(''path'', path)]) (\<lambda>_. ret ())"

definition dehydrate :: "ext \<Rightarrow> path \<Rightarrow> unit client" where
  "dehydrate x path = checked_call x (verb ''hydration.dehydrate'' [(''path'', path)]) (\<lambda>_. ret ())"

definition daemon_status :: "ext \<Rightarrow> json client" where
  "daemon_status x = checked_call x (verb ''daemon.status'' []) ret"

definition subscribe :: "ext \<Rightarrow> unit client" where
  "subscribe x = checked_call x (verb ''hydration.subscribe'' []) (\<lambda>_. ret ())"

definition last_synced :: "ext \<Rightarrow> path \<Rightarrow> int client" where
  "last_synced x path =
     andthen (round_trip x (verb ''hydration.last_synced'' [(''path'', path)])) (\<lambda>reply.
       if \<not> reply_ok reply then throw (Unknown (reply_error reply))
       else ok_or (Malformed (to_json x reply)) (as_i64 (jindex reply ''mtime_ms'')))"

definition list_dir :: "ext \<Rightarrow> path \<Rightarrow> list_entry list client" where
  "list_dir x prefix =
     checked_call x (verb ''hydration.list'' [(''prefix'', prefix)]) (\<lambda>reply.
       andthen (ok_or (Malformed (to_json x reply)) (as_array (jindex reply ''entries''))) (\<lambda>entries.
         from_result (parse_entries x entries)))"

definition mkdir :: "ext \<Rightarrow> path \<Rightarrow> unit client" where
  "mkdir x path = checked_call x (verb ''hydration.mkdir'' [(''path'', path)]) (\<lambda>_. ret ())"

definition unlink :: "ext \<Rightarrow> path \<Rightarrow> unit client" where
  "unlink x path = checked_call x (verb ''hydration.unlink'' [(''path'', path)]) (\<lambda>_. ret ())"

definition rmdir :: "ext \<Rightarrow> path \<Rightarrow> unit client" where
  "rmdir x path = checked_call x (verb ''hydration.rmdir'' [(''path'', path)]) (\<lambda>_. ret ())"

record create_reply =
  cr_cache_path :: path
  cr_handle_id :: string

definition create :: "ext \<Rightarrow> string \<Rightarrow> path \<Rightarrow> create_reply client" where
  "create x handle_id path =
     checked_call x (verb ''hydration.create'' [(''handle_id'', handle_id), (''path'', path)]) (\<lambda>reply.
       andthen (field_str x reply ''cache_path'') (\<lambda>cache.
       andthen (field_str x reply ''handle_id'') (\<lambda>hid.
         ret \<lparr>cr_cache_path = cache, cr_handle_id = hid\<rparr>)))"

definition rename :: "ext \<Rightarrow> path \<Rightarrow> path \<Rightarrow> unit client" where
  "rename x old_path new_path =
     checked_call x (verb ''hydration.rename'' [(''old_path'', old_path), (''new_path'', new_path)])
       (\<lambda>_. ret ())"

section \<open>Connecting\<close>

text \<open>What one connect attempt meets: how long it takes, whether the socket accepts, and the token
  file and OS randomness at that moment.\<close>

record peer =
  p_delay :: nat
  p_conn :: "io_err + conn"
  p_token :: "string option"
  p_random :: "string + string"

record net =
  peers :: "nat \<Rightarrow> peer"
  n_conn :: nat
  clock :: nat
  fallback_warned :: bool
  fallback_warnings :: nat
  past :: "json list"

type_synonym 'a connecting = "(net, ipc_error, 'a) prog"

definition connect :: "(peer \<times> conn) connecting" where
  "connect = (\<lambda>n.
     let p = peers n (n_conn n);
         n' = n\<lparr>n_conn := n_conn n + 1, clock := clock n + p_delay p\<rparr>
     in case p_conn p of
          Inl e \<Rightarrow> Some (Inl (Io e), n')
        | Inr c \<Rightarrow> Some (Inr (p, c), n'))"

text \<open>Run a client call on a connection that is dropped when the call fails.\<close>

definition on_conn :: "conn \<Rightarrow> 'a client \<Rightarrow> ('a \<times> conn) connecting" where
  "on_conn c m = (\<lambda>n. Option.bind (m c) (\<lambda>(r, c').
     case r of
       Inl e \<Rightarrow> Some (Inl e, n\<lparr>past := past n @ issued c'\<rparr>)
     | Inr v \<Rightarrow> Some (Inr (v, c'), n)))"

definition warn_fallback_once :: "unit connecting" where
  "warn_fallback_once = modify (\<lambda>n.
     if fallback_warned n then n
     else n\<lparr>fallback_warned := True, fallback_warnings := fallback_warnings n + 1\<rparr>)"

definition auth_failed :: "string \<Rightarrow> ipc_error" where
  "auth_failed why = ServerError (AUTH_FAILED @ '': '' @ why)"

definition shutdown :: "unit client" where
  "shutdown = modify (\<lambda>c. c\<lparr>shut := True\<rparr>)"

definition hello :: "string \<Rightarrow> json" where
  "hello nonce = JObj [(''verb'', JStr ''hello''), (''protocol'', JNum (PosInt PROTOCOL)),
     (''scope'', JStr SCOPE), (''client'', JStr CLIENT_NAME), (''nonce'', JStr nonce)]"

definition reply_proof :: "json \<Rightarrow> string" where
  "reply_proof reply = (case as_str (jindex reply ''proof'') of Some s \<Rightarrow> s | None \<Rightarrow> '''')"

definition handshake :: "ext \<Rightarrow> string \<Rightarrow> string \<Rightarrow> string + string \<Rightarrow> unit client" where
  "handshake x key prof rnd =
     andthen (from_result (case new_nonce x rnd of Inl m \<Rightarrow> Inl (ServerError m) | Inr b \<Rightarrow> Inr b)) (\<lambda>nonce.
     andthen (round_trip x (hello nonce)) (\<lambda>reply.
       if \<not> reply_ok reply then
         let err = reply_error reply in
         throw (if err = ''unknown_verb''
                then auth_failed ''a token file exists but the daemon does not speak protocol 2; restart the daemon''
                else auth_failed (''the daemon refused hello ('' @ err @ ''); restart the mount''))
       else
         andthen (field_str x reply ''snonce'') (\<lambda>snonce.
         let cproof = client_proof x key prof nonce snonce in
         andthen (round_trip x (verb ''hello.proof'' [(''proof'', cproof)])) (\<lambda>reply2.
           if \<not> reply_ok reply2 then
             throw (auth_failed (''the daemon rejected the IPC token ('' @ reply_error reply2 @ ''); restart the mount''))
           else
             let sproof = reply_proof reply2 in
             if \<not> verify_server_proof x key prof nonce snonce cproof sproof then
               andthen shutdown (\<lambda>_. throw (auth_failed ''the daemon's proof did not match; connection closed''))
             else ret ()))))"

definition token_of :: "ext \<Rightarrow> ipc_auth \<Rightarrow> peer \<Rightarrow> string + token_read" where
  "token_of x auth p =
     (case token_file auth of Some f \<Rightarrow> read_token x f (p_token p) | None \<Rightarrow> Inr Absent)"

definition protocol_version :: "json \<Rightarrow> u64" where
  "protocol_version reply =
     (case as_u64 (jindex reply ''protocol_version'') of Some v \<Rightarrow> v | None \<Rightarrow> 1)"

text \<open>Without a token: only a daemon that reports protocol 1 is used.\<close>

definition fallback_check :: "ext \<Rightarrow> ipc_auth \<Rightarrow> unit client" where
  "fallback_check x auth = andthen (round_trip x (verb ''daemon.status'' [])) (\<lambda>reply.
     let version = protocol_version reply in
     if version \<ge> PROTOCOL then
       let place = (case token_file auth of
                       Some f \<Rightarrow> ''no readable token at '' @ f
                     | None \<Rightarrow> ''no token file configured (--ipc-token-file)'')
       in throw (ServerError (AUTH_UNAVAILABLE @ '': cannot authenticate to this daemon (protocol ''
             @ fmt_nat (unat version) @ ''): '' @ place))
     else ret ())"

definition connect_auth :: "ext \<Rightarrow> ipc_auth \<Rightarrow> conn connecting" where
  "connect_auth x auth =
     andthen connect (\<lambda>(p, c).
       case token_of x auth p of
         Inl msg \<Rightarrow> throw (ServerError msg)
       | Inr (Key key) \<Rightarrow>
           andthen (on_conn c (handshake x key (profile auth) (p_random p))) (\<lambda>(_, c'). ret c')
       | Inr Absent \<Rightarrow>
           andthen (on_conn c (fallback_check x auth)) (\<lambda>(_, c').
           andthen warn_fallback_once (\<lambda>_. ret c')))"

section \<open>What a call puts on the wire\<close>

text \<open>\<open>silent m\<close>: the program leaves its state alone. \<open>issues req m\<close>: a client call
  begins to write at most the one request.\<close>

definition silent :: "('s, 'e, 'a) prog \<Rightarrow> bool" where
  "silent m \<longleftrightarrow> (\<forall>s r s'. m s = Some (r, s') \<longrightarrow> s' = s)"

definition issues :: "json \<Rightarrow> 'a client \<Rightarrow> bool" where
  "issues req m \<longleftrightarrow> (\<forall>c r c'. m c = Some (r, c') \<longrightarrow>
     issued c' = issued c @ [req] \<or> issued c' = issued c \<and> (\<exists>e. r = Inl (Malformed e)))"

named_theorems silent_rules \<open>programs that leave the state alone\<close>
named_theorems client_defs \<open>the verbs of the client\<close>

lemma silent_simple [silent_rules]:
  "silent (ret v)" "silent (throw e)" "silent (ok_or e q)" "silent (from_result t)" "silent (gets f)"
  by (auto simp: silent_def prog_defs split: option.splits)

lemma silent_andthen [silent_rules]: "silent m \<Longrightarrow> (\<And>v. silent (k v)) \<Longrightarrow> silent (andthen m k)"
  unfolding silent_def andthen_Some by blast

lemma silent_field_str [silent_rules]: "silent (field_str x reply k)"
  by (simp add: field_str_def silent_rules)

declare open_read_def [client_defs] open_write_def [client_defs] open_write_begin_def [client_defs]
  close_handle_def [client_defs] hydrate_def [client_defs] dehydrate_def [client_defs]
  daemon_status_def [client_defs] subscribe_def [client_defs] list_dir_def [client_defs]
  mkdir_def [client_defs] unlink_def [client_defs] rmdir_def [client_defs] create_def [client_defs]
  rename_def [client_defs]

lemma write_op_cases:
  "write_op b c = Some (r, c') \<Longrightarrow> issued c' = issued c \<and> rd c' = rd c \<and>
     (r = Inr () \<and> out c' = out c @ b \<or> (\<exists>e. r = Inl (Io e)) \<and> out c' = out c)"
  by (auto simp: write_op_def split: list.splits option.splits)

lemma write_op_returns [returns_rules]: "returns (write_op b)"
  by (auto simp: returns_def write_op_def split: list.splits option.splits)

lemma read_op_cases:
  "read_op c = Some (r, c') \<Longrightarrow> issued c' = issued c \<and> out c' = out c \<and> shut c' = shut c"
  by (auto simp: read_op_def split: sum.splits prod.splits)

lemma read_op_returns [returns_rules]: "returns read_op"
  by (auto simp: returns_def read_op_def split: sum.splits prod.splits)

lemma round_trip_oversize:
  assumes "MAX_REQUEST_BYTES < length (to_json x req) + 1"
  shows "\<exists>m. round_trip x req c = Some (Inl (Malformed m), c)"
  using assms by (simp add: round_trip_def Let_def prog_defs)

lemma reply_of_line_silent [silent_rules]: "silent (reply_of_line x l)"
  by (auto simp: reply_of_line_def Let_def intro!: silent_rules split: inbound_line.splits sum.splits)

lemma reply_of_line_returns [returns_rules]: "returns (reply_of_line x l)"
  by (auto simp: reply_of_line_def Let_def intro!: returns_rules split: inbound_line.splits sum.splits)

lemma round_trip_issues: "issues req (round_trip x req)"
proof -
  have silent: "c' = c" if "reply_of_line x l c = Some (r, c')" for l c r c'
    using that reply_of_line_silent [of x l] unfolding silent_def by blast
  show ?thesis
    unfolding issues_def round_trip_def Let_def
    by (auto simp: andthen_Some modify_def throw_def
        dest!: write_op_cases read_op_cases silent split: if_splits)
qed

lemma round_trip_returns [returns_rules]: "returns (round_trip x req)"
  unfolding round_trip_def Let_def
  by (intro returns_rules)

lemma checked_call_returns [returns_rules]:
  "(\<And>reply. returns (k reply)) \<Longrightarrow> returns (checked_call x req k)"
  unfolding checked_call_def by (intro returns_rules)

lemma field_str_returns [returns_rules]: "returns (field_str x reply k)"
  unfolding field_str_def by (intro returns_rules)

lemma verbs_return [returns_rules]:
  "returns (open_read x h p)" "returns (open_write x h p c)" "returns (open_write_begin x p ho)"
  "returns (close_handle x h)" "returns (mkdir x p)" "returns (unlink x p)" "returns (rmdir x p)"
  "returns (list_dir x p)" "returns (create x h p)" "returns (rename x p q)" "returns (daemon_status x)"
  unfolding client_defs by (intro returns_rules)+

lemma checked_call_issues:
  assumes "\<And>reply. silent (k reply)"
  shows "issues req (checked_call x req k)"
  unfolding issues_def
proof (intro allI impI)
  fix c r c'
  assume "checked_call x req k c = Some (r, c')"
  then consider (failed) e where "round_trip x req c = Some (Inl e, c')" "r = Inl e"
    | (replied) reply c1 where "round_trip x req c = Some (Inr reply, c1)"
        "(if \<not> reply_ok reply then throw (server_error reply) else k reply) c1 = Some (r, c')"
    unfolding checked_call_def andthen_Some by blast
  then show "issued c' = issued c @ [req] \<or> issued c' = issued c \<and> (\<exists>e. r = Inl (Malformed e))"
  proof cases
    case failed
    then have "issued c' = issued c @ [req] \<or>
        issued c' = issued c \<and> (\<exists>m. (Inl e :: ipc_error + json) = Inl (Malformed m))"
      using round_trip_issues [of req x] unfolding issues_def by blast
    with failed show ?thesis by auto
  next
    case replied
    then have "c' = c1"
      using assms by (auto simp: silent_def throw_def split: if_splits)
    moreover have "issued c1 = issued c @ [req]"
      using round_trip_issues [of req x] replied(1) by (fastforce simp: issues_def)
    ultimately show ?thesis by simp
  qed
qed

text \<open>Whether the request is begun depends on its length alone.\<close>

definition fits_cap :: "ext \<Rightarrow> json \<Rightarrow> bool" where
  "fits_cap x req \<longleftrightarrow> length (to_json x req) + 1 \<le> MAX_REQUEST_BYTES"

lemma round_trip_issued:
  assumes "round_trip x req c = Some (r, c')"
  shows "issued c' = issued c @ (if fits_cap x req then [req] else [])"
proof -
  have silent: "c' = c" if "reply_of_line x l c = Some (r, c')" for l c r c'
    using that reply_of_line_silent [of x l] unfolding silent_def by blast
  from assms show ?thesis
    unfolding round_trip_def fits_cap_def Let_def
    by (auto simp: andthen_Some modify_def throw_def dest!: write_op_cases read_op_cases silent split: if_splits)
qed

lemma checked_call_issued:
  assumes "checked_call x req k c = Some (r, c')" and "\<And>reply. silent (k reply)"
  shows "issued c' = issued c @ (if fits_cap x req then [req] else [])"
proof -
  have "\<exists>q. round_trip x req c = Some (q, c')"
    using assms unfolding checked_call_def andthen_Some silent_def
    by (auto simp: throw_def split: if_splits) blast
  then show ?thesis using round_trip_issued by blast
qed

lemma verbs_issue:
  "issues (verb ''hydration.open_write'' [(''handle_id'', h), (''path'', p), (''cache_path'', c)]) (open_write x h p c)"
  "issues (verb ''hydration.close_handle'' [(''handle_id'', h)]) (close_handle x h)"
  "issues (verb ''hydration.open_read'' [(''handle_id'', h), (''path'', p)]) (open_read x h p)"
  "issues (verb ''hydration.mkdir'' [(''path'', p)]) (mkdir x p)"
  "issues (verb ''hydration.unlink'' [(''path'', p)]) (unlink x p)"
  "issues (verb ''hydration.rmdir'' [(''path'', p)]) (rmdir x p)"
  "issues (verb ''hydration.list'' [(''prefix'', p)]) (list_dir x p)"
  "issues (verb ''hydration.create'' [(''handle_id'', h), (''path'', p)]) (create x h p)"
  "issues (verb ''hydration.rename'' [(''old_path'', p), (''new_path'', q)]) (rename x p q)"
  unfolding client_defs by (rule checked_call_issues, auto intro!: silent_rules)+

text \<open>A round trip with a well-behaved peer, for evaluating concrete runs.\<close>

lemma read_op_chunk:
  assumes "rd c = \<lparr>rbuf = '''', rsrc = Inr (l @ [newline]) # src\<rparr>"
    and "newline \<notin> set l" and "length l < MAX_INBOUND_LINE_BYTES"
  shows "read_op c = Some (Inr (Line (l @ [newline])), c\<lparr>rd := \<lparr>rbuf = '''', rsrc = src\<rparr>\<rparr>)"
proof -
  have "position newline (l @ [newline]) = Some (length l)"
    using assms(2) by (simp add: position_append position_None [THEN iffD2])
  then have "read_until MAX_INBOUND_LINE_BYTES (rd c) '''' = (Inr (l @ [newline]), \<lparr>rbuf = '''', rsrc = src\<rparr>)"
    using assms(1,3) by (subst read_until.simps) (simp add: fill_buf_def consume_def Let_def)
  then show ?thesis
    using assms(3) by (simp add: read_op_def read_inbound_line_def)
qed

lemma strip_newline_line [simp]: "strip_newline (l @ [newline]) = l"
  by (simp add: strip_newline_def strip_suffix_Some [THEN iffD2])

lemma round_trip_reply:
  assumes "rd c = \<lparr>rbuf = '''', rsrc = Inr (l @ [newline]) # src\<rparr>" and "wres c = []"
    and "newline \<notin> set l" and "length l < MAX_INBOUND_LINE_BYTES"
    and "length (to_json x req) < MAX_REQUEST_BYTES" and "from_slice x l = Inr v"
  shows "round_trip x req c = Some (Inr v, c\<lparr>issued := issued c @ [req],
    out := out c @ to_json x req @ [newline], rd := \<lparr>rbuf = '''', rsrc = src\<rparr>\<rparr>)"
proof -
  let ?c = "c\<lparr>issued := issued c @ [req], out := out c @ to_json x req @ [newline]\<rparr>"
  have "read_op ?c = Some (Inr (Line (l @ [newline])), ?c\<lparr>rd := \<lparr>rbuf = '''', rsrc = src\<rparr>\<rparr>)"
    by (rule read_op_chunk) (use assms in simp_all)
  then show ?thesis
    using assms by (simp add: round_trip_def Let_def prog_defs write_op_def reply_of_line_def)
qed

lemma limits [simp]: "0 < MAX_INBOUND_LINE_BYTES" "1 < MAX_INBOUND_LINE_BYTES" "2 < MAX_REQUEST_BYTES"
  "Suc 0 < MAX_INBOUND_LINE_BYTES" "Suc (Suc 0) < MAX_REQUEST_BYTES"
  by (simp_all add: MAX_INBOUND_LINE_BYTES_def MAX_REQUEST_BYTES_def)

section \<open>Properties\<close>

text \<open>A poisoned size never rejects a listing entry: parsing succeeds exactly when path, mtime and
  the two flags are there, whatever the size field holds, and a negative, absent or non-integer size
  reads as 0 while an unsigned one is kept exactly.\<close>

theorem parse_list_entry_size_never_rejects:
  "case parse_list_entry x e of
     Inr a \<Rightarrow> le_size a =
       (case jindex e ''size'' of JNum (PosInt n) \<Rightarrow> n | JNum (NegInt i) \<Rightarrow> word_of_int (max i 0) | _ \<Rightarrow> 0)
   | Inl err \<Rightarrow> err = Malformed (to_json x e) \<and>
       (as_str (jindex e ''path'') = None \<or> as_i64 (jindex e ''mtime_ms'') = None \<or>
        as_bool (jindex e ''hydrated'') = None \<or> as_bool (jindex e ''folder'') = None)"
  by (auto simp: parse_list_entry_def res_then_def res_or_def entry_size_def Let_def
      split: option.splits json.splits json_num.splits if_splits)


text \<open>An honest daemon that knows the key is accepted.\<close>

lemma handshake_accepts:
  assumes "new_nonce x rnd = Inr nonce"
    and "round_trip x (hello nonce) c = Some (Inr reply, c1)" and "reply_ok reply"
    and "as_str (jindex reply ''snonce'') = Some snonce"
    and "round_trip x (verb ''hello.proof'' [(''proof'', client_proof x key prof nonce snonce)]) c1 =
      Some (Inr reply2, c2)" and "reply_ok reply2"
    and "reply_proof reply2 = server_proof x key prof nonce snonce (client_proof x key prof nonce snonce)"
    and "\<And>s. b64_decode x (b64_encode x s) = Some s"
  shows "handshake x key prof rnd c = Some (Inr (), c2)"
  using assms
  by (simp add: handshake_def andthen_def from_result_def field_str_def ok_or_def ret_def Let_def
      verify_server_proof_def server_proof_def)

text \<open>A toy exchange: identity base64, an HMAC that concatenates, and a parser that knows a few
  replies.\<close>

definition toy_parse :: "string \<Rightarrow> string + json" where
  "toy_parse s =
     (if s = ''H'' then Inr (JObj [(''ok'', JBool True), (''snonce'', JStr ''S'')])
      else if s = ''P'' then Inr (JObj [(''ok'', JBool True),
        (''proof'', JStr (''k'' @ server_message ''p'' ''N'' ''S'' (''k'' @ client_message ''p'' ''N'' ''S'')))])
      else if s = ''O'' then Inr (JObj [(''ok'', JBool True), (''cache_path'', JStr ''/c/k''), (''handle_id'', JStr ''h'')])
      else if s = ''V'' then Inr (JObj [(''protocol_version'', JNum (PosInt 2))])
      else if s = ''E'' then Inr (JObj [(''ok'', JBool False), (''error'', JStr ''not_found'')])
      else if s = ''L'' then Inr (JObj [(''ok'', JBool True), (''entries'', JArr [JObj
        [(''path'', JStr ''/f''), (''size'', JNum (PosInt 5)), (''mtime_ms'', JNum (PosInt 7)),
         (''hydrated'', JBool False), (''folder'', JBool False)]])])
      else if s = ''W'' then Inr (JObj [(''ok'', JBool True), (''mtime_ms'', JNum (PosInt 5))])
      else if s = ''I'' then Inr (JObj [(''event'', JStr ''view.invalidated''), (''paths'', JArr [JStr ''/f''])])
      else Inl ''bad'')"

text \<open>A toy normalisation: the letter q stands for a decomposed k.\<close>

definition toy_nfc :: "string \<Rightarrow> string" where
  "toy_nfc = map (\<lambda>c. if c = CHR ''q'' then CHR ''k'' else c)"

definition toy_ext :: ext where
  "toy_ext = \<lparr>to_json = (\<lambda>_. ''{}''), from_slice = toy_parse,
     hmac_sha256 = (\<lambda>k m. k @ m), b64_encode = (\<lambda>s. s), b64_decode = Some, nfc = toy_nfc\<rparr>"

definition toy_conn :: "string list \<Rightarrow> conn" where
  "toy_conn lines = \<lparr>rd = \<lparr>rbuf = '''', rsrc = map (\<lambda>l. Inr (l @ [newline])) lines\<rparr>,
     wres = [], out = '''', issued = [], shut = False\<rparr>"

lemma toy_ext_simps [simp]:
  "to_json toy_ext v = ''{}''" "from_slice toy_ext = toy_parse" "hmac_sha256 toy_ext k m = k @ m"
  "b64_encode toy_ext s = s" "b64_decode toy_ext s = Some s" "nfc toy_ext = toy_nfc"
  by (simp_all add: toy_ext_def)

lemma toy_round_trip:
  assumes "rd c = \<lparr>rbuf = '''', rsrc = Inr [l, newline] # src\<rparr>" and "wres c = []"
    and "l \<noteq> newline" and "toy_parse [l] = Inr v"
  shows "round_trip toy_ext req c = Some (Inr v, c\<lparr>issued := issued c @ [req],
    out := out c @ ''{}'' @ [newline], rd := \<lparr>rbuf = '''', rsrc = src\<rparr>\<rparr>)"
  using round_trip_reply [of c "[l]" src toy_ext req v] assms by simp


subsection \<open>What a failed or successful connect means\<close>

definition benign_error :: "ipc_error \<Rightarrow> bool" where
  "benign_error e \<longleftrightarrow> is_io e \<or> (\<exists>m. e = Malformed m)"

lemma auth_failed_terminal [simp]: "is_auth_terminal (auth_failed why)"
  by (simp add: auth_failed_def is_auth_terminal_def)

lemma auth_unavailable_terminal [simp]: "is_auth_terminal (ServerError (AUTH_UNAVAILABLE @ m))"
  "is_auth_terminal (ServerError (AUTH_FAILED @ m))"
  by (simp_all add: is_auth_terminal_def)

lemma round_trip_raises: "raises benign_error (round_trip x req)"
proof -
  have "raises benign_error (write_op b)" for b
    by (auto simp: raises_def benign_error_def dest: write_op_cases)
  moreover have "raises benign_error read_op"
    by (auto simp: raises_def read_op_def benign_error_def split: sum.splits prod.splits)
  moreover have "raises benign_error (reply_of_line x l)" for l
    by (auto simp: reply_of_line_def Let_def benign_error_def intro!: raises_rules
        split: inbound_line.splits sum.splits)
  moreover have "benign_error (Malformed m)" for m
    by (simp add: benign_error_def)
  ultimately show ?thesis
    unfolding round_trip_def Let_def by (intro raises_rules)
qed

definition connect_error :: "ipc_error \<Rightarrow> bool" where
  "connect_error e \<longleftrightarrow> benign_error e \<or> is_auth_terminal e"

lemma connect_error_simps [simp]:
  "connect_error (Io e)" "connect_error (Malformed m)" "connect_error (auth_failed why)"
  "connect_error (ServerError (AUTH_UNAVAILABLE @ m))" "connect_error (ServerError (AUTH_FAILED @ m))"
  by (simp_all add: connect_error_def benign_error_def)

lemma round_trip_connect_error [raises_rules]: "raises connect_error (round_trip x req)"
  by (rule raises_mono [OF round_trip_raises]) (simp add: connect_error_def)

lemma handshake_raises: "raises connect_error (handshake x key prof rnd)"
  unfolding handshake_def Let_def field_str_def shutdown_def
  by (intro raises_rules) (auto simp: new_nonce_def split: sum.splits)

lemma read_token_terminal: "read_token x p content = Inl m \<Longrightarrow> is_auth_terminal (ServerError m)"
  by (auto simp: read_token_def split: option.splits if_splits)

lemma token_of_terminal: "token_of x auth p = Inl m \<Longrightarrow> is_auth_terminal (ServerError m)"
  by (auto simp: token_of_def dest: read_token_terminal split: option.splits)

lemma on_conn_Some:
  "on_conn c m n = Some (r, n') \<longleftrightarrow>
     (\<exists>e c'. m c = Some (Inl e, c') \<and> r = Inl e \<and> n' = n\<lparr>past := past n @ issued c'\<rparr>) \<or>
     (\<exists>v c'. m c = Some (Inr v, c') \<and> r = Inr (v, c') \<and> n' = n)"
  by (auto simp: on_conn_def split: Option.bind_splits sum.splits)

lemma connect_Some:
  "connect n = Some (r, n') \<longleftrightarrow>
     n' = n\<lparr>n_conn := n_conn n + 1, clock := clock n + p_delay (peers n (n_conn n))\<rparr> \<and>
     r = (case p_conn (peers n (n_conn n)) of Inl e \<Rightarrow> Inl (Io e) | Inr c \<Rightarrow> Inr (peers n (n_conn n), c))"
  by (auto simp: connect_def Let_def split: sum.splits)

lemma fallback_check_Inr:
  "fallback_check x auth c = Some (Inr u, c') \<Longrightarrow>
     \<exists>reply. round_trip x (verb ''daemon.status'' []) c = Some (Inr reply, c') \<and> protocol_version reply < PROTOCOL"
  by (auto simp: fallback_check_def andthen_Some throw_def ret_def Let_def not_le split: if_splits)

lemma fallback_check_raises: "raises connect_error (fallback_check x auth)"
  unfolding fallback_check_def Let_def by (intro raises_rules) simp

lemma on_conn_raises: "raises P m \<Longrightarrow> raises P (on_conn c m)"
  unfolding raises_def on_conn_Some by auto

text \<open>C2. Connecting fails closed: a connection handed to the rest of the program has either passed the
  handshake under the key in the token file, or there was no readable token, the daemon itself reported
  a protocol below 2, and the fallback warning has been given.\<close>

theorem connect_auth_fails_closed:
  assumes "connect_auth x auth n = Some (Inr c', n')"
  shows "let p = peers n (n_conn n) in \<exists>c. p_conn p = Inr c \<and>
    ((\<exists>key. token_of x auth p = Inr (Key key) \<and> handshake x key (profile auth) (p_random p) c = Some (Inr (), c')) \<or>
     (token_of x auth p = Inr Absent \<and> fallback_warned n' \<and>
      (\<exists>reply. round_trip x (verb ''daemon.status'' []) c = Some (Inr reply, c') \<and>
         protocol_version reply < PROTOCOL)))"
  using assms unfolding connect_auth_def
  by (fastforce simp: andthen_Some connect_Some on_conn_Some throw_def ret_def warn_fallback_once_def modify_def Let_def
      dest: fallback_check_Inr split: sum.splits token_read.splits if_splits)

lemma connect_auth_raises: "raises connect_error (connect_auth x auth)"
proof -
  have connect: "raises connect_error connect"
    by (auto simp: raises_def connect_Some split: sum.splits)
  have warn: "raises connect_error warn_fallback_once"
    unfolding warn_fallback_once_def by (rule raises_simple)
  have token: "connect_error (ServerError msg)" if "token_of x auth p = Inl msg" for msg p
    using token_of_terminal [OF that] by (simp add: connect_error_def)
  show ?thesis
    unfolding connect_auth_def
    by (auto intro!: raises_andthen raises_simple connect warn on_conn_raises handshake_raises
        fallback_check_raises dest: token split: sum.splits token_read.splits)
qed

definition toy_peer :: "string option \<Rightarrow> string list \<Rightarrow> peer" where
  "toy_peer tok lines = \<lparr>p_delay = 1, p_conn = Inr (toy_conn lines), p_token = tok, p_random = Inr ''N''\<rparr>"

definition toy_net :: "(nat \<Rightarrow> peer) \<Rightarrow> net" where
  "toy_net ps = \<lparr>peers = ps, n_conn = 0, clock = 0, fallback_warned = False, fallback_warnings = 0, past = []\<rparr>"

lemma toy_fallback:
  assumes "toy_parse [l] = Inr v" "\<not> PROTOCOL \<le> protocol_version v" "l \<noteq> newline"
  shows "\<exists>c'. fallback_check toy_ext auth (toy_conn [[l]]) = Some (Inr (), c')"
  using assms toy_round_trip [of "toy_conn [[l]]" l "[]" v "verb ''daemon.status'' []"]
  by (simp add: fallback_check_def andthen_def toy_conn_def Let_def ret_def)

theorem connect_auth_fails_closed_witness:
  "\<exists>c' n'. connect_auth toy_ext \<lparr>token_file = None, profile = ''p''\<rparr> (toy_net (\<lambda>_. toy_peer None [''O''])) = Some (Inr c', n') \<and>
     fallback_warned n'"
proof -
  let ?auth = "\<lparr>token_file = None, profile = ''p''\<rparr>"
  let ?n = "toy_net (\<lambda>_. toy_peer None [''O''])"
  have ver: "toy_parse [CHR ''O''] = Inr (JObj [(''ok'', JBool True), (''cache_path'', JStr ''/c/k''), (''handle_id'', JStr ''h'')])"
    by (simp add: toy_parse_def)
  obtain c1 where c1: "fallback_check toy_ext ?auth (toy_conn [''O'']) = Some (Inr (), c1)"
    using toy_fallback [OF ver, of ?auth] by (auto simp: protocol_version_def jindex_def jget_def PROTOCOL_def newline_def word_le_nat_alt)
  have "\<exists>n'. connect_auth toy_ext ?auth ?n = Some (Inr c1, n')"
    by (simp add: connect_auth_def andthen_def connect_def toy_net_def toy_peer_def token_of_def on_conn_def c1
        warn_fallback_once_def modify_def ret_def Let_def)
  then obtain n' where n': "connect_auth toy_ext ?auth ?n = Some (Inr c1, n')" by blast
  have "fallback_warned n'"
    using connect_auth_fails_closed [OF n'] by (auto simp: Let_def token_of_def toy_net_def toy_peer_def)
  with n' show ?thesis by blast
qed

end
