(* ===== verification/Reconnect.thy ===== *)
theory Reconnect
  imports Ipc
begin

text \<open>
  Model of \<^verbatim>\<open>mount/src/reconnect.rs\<close>: the client that survives daemon restarts.

  \<^item> \<open>rclient\<close> is a \<^verbatim>\<open>ReconnectingIpcClient\<close> together with the outside world of its
    connects (\<open>net\<close>); time is the clock of \<open>net\<close> in milliseconds, and a sleep advances it.
  \<^item> The loops are \<^verbatim>\<open>partial_function (option)\<close>s: \<open>None\<close> means the call does not return.
  \<^item> The two macros are \<open>retry_io_loop\<close> and \<open>no_retry_on_io\<close>, taking the client call they wrap.
\<close>

record rc_cfg =
  rc_auth :: "ipc_auth option"
  interval :: nat
  budget :: nat

record rclient =
  rc_net :: net
  inner :: "conn option"
  auth_failure :: "string option"

type_synonym 'a rcall = "(rclient, ipc_error, 'a) prog"

definition DEFAULT_RETRY_INTERVAL :: nat where
  "DEFAULT_RETRY_INTERVAL = 5000"

definition DEFAULT_RETRY_BUDGET :: nat where
  "DEFAULT_RETRY_BUDGET = 60000"

definition STARTUP_CONNECT_INTERVAL :: nat where
  "STARTUP_CONNECT_INTERVAL = 250"

definition STARTUP_CONNECT_BUDGET :: nat where
  "STARTUP_CONNECT_BUDGET = 10000"

definition sleep :: "nat \<Rightarrow> net \<Rightarrow> net" where
  "sleep ms n = n\<lparr>clock := clock n + ms\<rparr>"

section \<open>The first connect\<close>

definition listener_not_ready :: "ipc_error \<Rightarrow> bool" where
  "listener_not_ready e \<longleftrightarrow> e = Io NotFound \<or> e = Io ConnectionRefused"

partial_function (option) startup_loop ::
    "ext \<Rightarrow> ipc_auth \<Rightarrow> nat \<Rightarrow> nat \<Rightarrow> nat \<Rightarrow> net \<Rightarrow> ((ipc_error + conn) \<times> net) option" where
  "startup_loop x auth ival budg start n =
     Option.bind (connect_auth x auth n) (\<lambda>(r, n').
       case r of
         Inl e \<Rightarrow>
           if listener_not_ready e \<and> clock n' - start < budg
           then startup_loop x auth ival budg start (sleep ival n')
           else Some (Inl e, n')
       | Inr c \<Rightarrow> Some (Inr c, n'))"

definition connect_auth_at_startup :: "ext \<Rightarrow> ipc_auth \<Rightarrow> nat \<Rightarrow> nat \<Rightarrow> conn connecting" where
  "connect_auth_at_startup x auth ival budg = (\<lambda>n. startup_loop x auth ival budg (clock n) n)"

section \<open>The reconnecting client\<close>

definition open_conn :: "ext \<Rightarrow> ipc_auth option \<Rightarrow> conn connecting" where
  "open_conn x auth =
     (case auth of
        Some a \<Rightarrow> connect_auth x a
      | None \<Rightarrow> andthen connect (\<lambda>(_, c). ret c))"

definition connect_inner :: "ext \<Rightarrow> rc_cfg \<Rightarrow> net \<Rightarrow> ((ipc_error + rclient) \<times> net) option" where
  "connect_inner x cfg n =
     Option.bind (open_conn x (rc_auth cfg) n) (\<lambda>(r, n').
       case r of
         Inl e \<Rightarrow> Some (Inl e, n')
       | Inr c \<Rightarrow> Some (Inr \<lparr>rc_net = n', inner = Some c, auth_failure = None\<rparr>, n'))"

text \<open>The public constructors. The settings stay with the client, so they are handed to every later call as
  its \<open>rc_cfg\<close>; the result is those settings and the client.\<close>

definition rc_connect_with :: "ext \<Rightarrow> nat \<Rightarrow> nat \<Rightarrow> (rc_cfg \<times> rclient) connecting" where
  "rc_connect_with x ival budg =
     (let cfg = \<lparr>rc_auth = None, interval = ival, budget = budg\<rparr>
      in andthen (connect_inner x cfg) (\<lambda>c. ret (cfg, c)))"

definition rc_connect :: "ext \<Rightarrow> (rc_cfg \<times> rclient) connecting" where
  "rc_connect x = rc_connect_with x DEFAULT_RETRY_INTERVAL DEFAULT_RETRY_BUDGET"

definition rc_connect_auth_with :: "ext \<Rightarrow> ipc_auth \<Rightarrow> nat \<Rightarrow> nat \<Rightarrow> (rc_cfg \<times> rclient) connecting" where
  "rc_connect_auth_with x auth ival budg =
     (let cfg = \<lparr>rc_auth = Some auth, interval = ival, budget = budg\<rparr>
      in andthen (connect_inner x cfg) (\<lambda>c. ret (cfg, c)))"

definition rc_connect_auth :: "ext \<Rightarrow> ipc_auth \<Rightarrow> (rc_cfg \<times> rclient) connecting" where
  "rc_connect_auth x auth = rc_connect_auth_with x auth DEFAULT_RETRY_INTERVAL DEFAULT_RETRY_BUDGET"

partial_function (option) connect_loop ::
    "ext \<Rightarrow> rc_cfg \<Rightarrow> nat \<Rightarrow> rclient \<Rightarrow> ((ipc_error + unit) \<times> rclient) option" where
  "connect_loop x cfg start s =
     Option.bind (open_conn x (rc_auth cfg) (rc_net s)) (\<lambda>(r, n).
       case r of
         Inr c \<Rightarrow> Some (Inr (), s\<lparr>rc_net := n, inner := Some c\<rparr>)
       | Inl e \<Rightarrow>
           if is_auth_terminal e
           then Some (Inl e, s\<lparr>rc_net := n,
                  auth_failure := (case e of ServerError msg \<Rightarrow> Some msg | _ \<Rightarrow> auth_failure s)\<rparr>)
           else if clock n - start \<ge> budget cfg then Some (Inl e, s\<lparr>rc_net := n\<rparr>)
           else connect_loop x cfg start (s\<lparr>rc_net := sleep (interval cfg) n\<rparr>))"

definition ensure_connected :: "ext \<Rightarrow> rc_cfg \<Rightarrow> unit rcall" where
  "ensure_connected x cfg = (\<lambda>s.
     case auth_failure s of
       Some msg \<Rightarrow> Some (Inl (ServerError msg), s)
     | None \<Rightarrow> (case inner s of
                  Some _ \<Rightarrow> Some (Inr (), s)
                | None \<Rightarrow> connect_loop x cfg (clock (rc_net s)) s))"

text \<open>The connection is dropped; its requests join the history.\<close>

definition drop_inner :: "conn \<Rightarrow> rclient \<Rightarrow> rclient" where
  "drop_inner c s = s\<lparr>inner := None, rc_net := (rc_net s)\<lparr>past := past (rc_net s) @ issued c\<rparr>\<rparr>"

text \<open>\<^verbatim>\<open>expect("ensure_connected guarantees Some")\<close>: its panic would be the \<open>None\<close> of the
  inner case; \<open>ensure_connected_some\<close> below shows it is never taken.\<close>

partial_function (option) retry_io_loop ::
    "ext \<Rightarrow> rc_cfg \<Rightarrow> 'a client \<Rightarrow> rclient \<Rightarrow> ((ipc_error + 'a) \<times> rclient) option" where
  "retry_io_loop x cfg method s =
     Option.bind (ensure_connected x cfg s) (\<lambda>(r, s1).
       case r of
         Inl e \<Rightarrow> Some (Inl e, s1)
       | Inr _ \<Rightarrow>
           (case inner s1 of
              None \<Rightarrow> None
            | Some c \<Rightarrow>
                Option.bind (method c) (\<lambda>(r, c').
                  case r of
                    Inr v \<Rightarrow> Some (Inr v, s1\<lparr>inner := Some c'\<rparr>)
                  | Inl e \<Rightarrow>
                      if is_io e then retry_io_loop x cfg method (drop_inner c' s1)
                      else Some (Inl e, s1\<lparr>inner := Some c'\<rparr>))))"

definition no_retry_on_io :: "ext \<Rightarrow> rc_cfg \<Rightarrow> 'a client \<Rightarrow> 'a rcall" where
  "no_retry_on_io x cfg method =
     andthen (ensure_connected x cfg) (\<lambda>_ s1.
       case inner s1 of
         None \<Rightarrow> None
       | Some c \<Rightarrow>
           Option.bind (method c) (\<lambda>(r, c').
             case r of
               Inr v \<Rightarrow> Some (Inr v, s1\<lparr>inner := Some c'\<rparr>)
             | Inl e \<Rightarrow>
                 if is_io e then Some (Inl e, drop_inner c' s1)
                 else Some (Inl e, s1\<lparr>inner := Some c'\<rparr>)))"

text \<open>Which verbs are retried.\<close>

definition rc_open_read where "rc_open_read x cfg h p = retry_io_loop x cfg (open_read x h p)"
definition rc_open_write where "rc_open_write x cfg h p c = no_retry_on_io x cfg (open_write x h p c)"
definition rc_open_write_begin where
  "rc_open_write_begin x cfg p h = no_retry_on_io x cfg (open_write_begin x p h)"
definition rc_close_handle where "rc_close_handle x cfg h = retry_io_loop x cfg (close_handle x h)"
definition rc_hydrate where "rc_hydrate x cfg p = retry_io_loop x cfg (hydrate x p)"
definition rc_dehydrate where "rc_dehydrate x cfg p = retry_io_loop x cfg (dehydrate x p)"
definition rc_last_synced where "rc_last_synced x cfg p = retry_io_loop x cfg (last_synced x p)"
definition rc_list where "rc_list x cfg p = retry_io_loop x cfg (list_dir x p)"
definition rc_daemon_status where "rc_daemon_status x cfg = retry_io_loop x cfg (daemon_status x)"
definition rc_mkdir where "rc_mkdir x cfg p = no_retry_on_io x cfg (mkdir x p)"
definition rc_unlink where "rc_unlink x cfg p = no_retry_on_io x cfg (unlink x p)"
definition rc_rmdir where "rc_rmdir x cfg p = no_retry_on_io x cfg (rmdir x p)"
definition rc_create where "rc_create x cfg h p = no_retry_on_io x cfg (create x h p)"
definition rc_rename where "rc_rename x cfg p q = no_retry_on_io x cfg (rename x p q)"

section \<open>Connecting always returns\<close>

lemma on_conn_returns [returns_rules]: "returns m \<Longrightarrow> returns (on_conn c m)"
  unfolding returns_def on_conn_def by (auto split: Option.bind_splits sum.splits)

lemma connect_returns [returns_rules]: "returns connect"
  by (auto simp: returns_def connect_def Let_def split: sum.splits)

lemma handshake_returns [returns_rules]: "returns (handshake x key prof rnd)"
  unfolding handshake_def Let_def shutdown_def by (intro returns_rules)

lemma connect_auth_returns [returns_rules]: "returns (connect_auth x auth)"
proof -
  have warn: "returns warn_fallback_once"
    unfolding warn_fallback_once_def by (intro returns_rules)
  have check: "returns (fallback_check x auth)"
    unfolding fallback_check_def Let_def by (intro returns_rules)
  show ?thesis
    unfolding connect_auth_def
    by (auto intro!: returns_rules warn check split: sum.splits token_read.splits)
qed

lemma open_conn_returns: "returns (open_conn x auth)"
  by (auto simp: open_conn_def intro!: returns_rules split: option.splits)

text \<open>Each attempt is one connect; time does not run backwards.\<close>

definition one_attempt :: "net \<Rightarrow> net \<Rightarrow> bool" where
  "one_attempt n n' \<longleftrightarrow> n_conn n' = n_conn n + 1 \<and> clock n \<le> clock n' \<and> peers n' = peers n"

lemma connect_auth_one_attempt: "connect_auth x auth n = Some (r, n') \<Longrightarrow> one_attempt n n'"
  unfolding connect_auth_def one_attempt_def
  by (auto simp: andthen_Some connect_Some on_conn_Some throw_def ret_def warn_fallback_once_def modify_def
      split: sum.splits token_read.splits)

lemma open_conn_one_attempt: "open_conn x auth n = Some (r, n') \<Longrightarrow> one_attempt n n'"
  by (auto simp: open_conn_def andthen_Some connect_Some ret_def one_attempt_def
      dest: connect_auth_one_attempt [unfolded one_attempt_def] split: option.splits sum.splits)

lemma connect_loop_step:
  assumes "open_conn x (rc_auth cfg) (rc_net s) = Some (r, n)"
  shows "connect_loop x cfg start s =
    (case r of
       Inr c \<Rightarrow> Some (Inr (), s\<lparr>rc_net := n, inner := Some c\<rparr>)
     | Inl e \<Rightarrow>
         if is_auth_terminal e
         then Some (Inl e, s\<lparr>rc_net := n,
                auth_failure := (case e of ServerError msg \<Rightarrow> Some msg | _ \<Rightarrow> auth_failure s)\<rparr>)
         else if clock n - start \<ge> budget cfg then Some (Inl e, s\<lparr>rc_net := n\<rparr>)
         else connect_loop x cfg start (s\<lparr>rc_net := sleep (interval cfg) n\<rparr>))"
  by (subst connect_loop.simps) (simp add: assms)

text \<open>What the loop guarantees when it returns: \<open>K\<close> further attempts, each but the first a full
  interval later; success leaves a connection, a terminal refusal is latched, and any other error means
  that the budget has elapsed.\<close>

definition connect_result :: "rc_cfg \<Rightarrow> nat \<Rightarrow> rclient \<Rightarrow> ipc_error + unit \<Rightarrow> rclient \<Rightarrow> bool" where
  "connect_result cfg start s r s' \<longleftrightarrow>
     (\<exists>K. n_conn (rc_net s') = n_conn (rc_net s) + 1 + K \<and>
        K * interval cfg < (start + budget cfg - clock (rc_net s)) + interval cfg) \<and>
     (case r of
        Inr _ \<Rightarrow> inner s' \<noteq> None \<and> auth_failure s' = auth_failure s
      | Inl e \<Rightarrow> inner s' = inner s \<and>
          (if is_auth_terminal e then \<exists>msg. e = ServerError msg \<and> auth_failure s' = Some msg
           else auth_failure s' = auth_failure s \<and> start + budget cfg \<le> clock (rc_net s')))"

lemma terminal_is_server_error: "is_auth_terminal e \<Longrightarrow> \<exists>msg. e = ServerError msg"
  by (auto simp: is_auth_terminal_def split: ipc_error.splits)

lemma one_more_interval:
  fixes K i d t t0 :: nat
  assumes "K * i < (d - (t + i)) + i" and "t < d" and "t0 \<le> t"
  shows "Suc K * i < (d - t0) + i"
proof -
  have "K = 0 \<or> i \<le> K * i" by (cases K) auto
  with assms show ?thesis
    by (simp only: mult_Suc) (elim disjE; simp only: mult_0; linarith)
qed

lemma connect_loop_returns:
  assumes "0 < interval cfg" and "start \<le> clock (rc_net s)"
  shows "\<exists>r s'. connect_loop x cfg start s = Some (r, s') \<and> connect_result cfg start s r s'"
  using assms(2)
proof (induction "start + budget cfg - clock (rc_net s)" arbitrary: s rule: less_induct)
  case less
  obtain r n where opened: "open_conn x (rc_auth cfg) (rc_net s) = Some (r, n)"
    by (rule returns_obtain [OF open_conn_returns])
  have one: "n_conn n = n_conn (rc_net s) + 1" "clock (rc_net s) \<le> clock n"
    using open_conn_one_attempt [OF opened] by (auto simp: one_attempt_def)
  note step = connect_loop_step [OF opened]
  show ?case
  proof (cases r)
    case (Inr c)
    then show ?thesis using assms(1) one by (auto simp: step connect_result_def)
  next
    case (Inl e)
    show ?thesis
    proof (cases "is_auth_terminal e \<or> budget cfg \<le> clock n - start")
      case True
      have "start \<le> clock n" using less.prems one by simp
      with True Inl show ?thesis
        using assms(1) one terminal_is_server_error [of e]
        by (auto simp: step connect_result_def)
    next
      case False
      let ?s = "s\<lparr>rc_net := sleep (interval cfg) n\<rparr>"
      have d: "start + budget cfg - clock (rc_net ?s) < start + budget cfg - clock (rc_net s)"
        "start \<le> clock (rc_net ?s)"
        using False less.prems one assms(1) by (auto simp: sleep_def)
      obtain r' s' where ih: "connect_loop x cfg start ?s = Some (r', s')" "connect_result cfg start ?s r' s'"
        using less.hyps [OF d] by blast
      then obtain K where K: "n_conn (rc_net s') = n_conn (rc_net ?s) + 1 + K"
        "K * interval cfg < (start + budget cfg - clock (rc_net ?s)) + interval cfg"
        by (auto simp: connect_result_def)
      have "Suc K * interval cfg < (start + budget cfg - clock (rc_net s)) + interval cfg"
        by (rule one_more_interval [of K "interval cfg" "start + budget cfg" "clock n"])
          (use K(2) False less.prems one in \<open>auto simp: sleep_def\<close>)
      then have "connect_result cfg start s r' s'"
        using ih(2) K(1) one
        unfolding connect_result_def by (intro conjI exI [of _ "Suc K"]) (auto simp: sleep_def split: sum.splits)
      with ih(1) False Inl show ?thesis by (auto simp: step)
    qed
  qed
qed


definition toy_cfg :: rc_cfg where
  "toy_cfg = \<lparr>rc_auth = None, interval = DEFAULT_RETRY_INTERVAL, budget = DEFAULT_RETRY_BUDGET\<rparr>"

definition toy_client :: "(nat \<Rightarrow> peer) \<Rightarrow> rclient" where
  "toy_client ps = \<lparr>rc_net = toy_net ps, inner = None, auth_failure = None\<rparr>"


section \<open>What a loop that returns went through\<close>

text \<open>Induction along the iterations of a run that returns, one rule for each loop.\<close>

lemma startup_loop_induct [consumes 1, case_names last again]:
  assumes "startup_loop x auth ival budg start n = Some (r, n')"
    and "\<And>n r n'. connect_auth x auth n = Some (r, n') \<Longrightarrow>
      (\<forall>e. r = Inl e \<longrightarrow> \<not> (listener_not_ready e \<and> clock n' - start < budg)) \<Longrightarrow> P n r n'"
    and "\<And>n e n1 r n'. connect_auth x auth n = Some (Inl e, n1) \<Longrightarrow> listener_not_ready e \<Longrightarrow>
      clock n1 - start < budg \<Longrightarrow> P (sleep ival n1) r n' \<Longrightarrow> P n r n'"
  shows "P n r n'"
proof -
  let ?P = "\<lambda>x' auth' ival' budg' start' n y.
    x' = x \<and> auth' = auth \<and> ival' = ival \<and> budg' = budg \<and> start' = start \<longrightarrow> P n (fst y) (snd y)"
  have "?P x auth ival budg start n (r, n')"
    using startup_loop.raw_induct [of ?P "(((((x, auth), ival), budg), start), n)" "(r, n')"] assms
    by (fastforce split: Option.bind_splits prod.splits sum.splits if_splits)
  then show ?thesis by simp
qed

lemma connect_loop_induct [consumes 1, case_names connected refused spent again]:
  assumes "connect_loop x cfg start s = Some (r, s')"
    and "\<And>s n c. open_conn x (rc_auth cfg) (rc_net s) = Some (Inr c, n) \<Longrightarrow>
      P s (Inr ()) (s\<lparr>rc_net := n, inner := Some c\<rparr>)"
    and "\<And>s n msg. open_conn x (rc_auth cfg) (rc_net s) = Some (Inl (ServerError msg), n) \<Longrightarrow>
      is_auth_terminal (ServerError msg) \<Longrightarrow>
      P s (Inl (ServerError msg)) (s\<lparr>rc_net := n, auth_failure := Some msg\<rparr>)"
    and "\<And>s n e. open_conn x (rc_auth cfg) (rc_net s) = Some (Inl e, n) \<Longrightarrow> \<not> is_auth_terminal e \<Longrightarrow>
      clock n - start \<ge> budget cfg \<Longrightarrow> P s (Inl e) (s\<lparr>rc_net := n\<rparr>)"
    and "\<And>s n e r s'. open_conn x (rc_auth cfg) (rc_net s) = Some (Inl e, n) \<Longrightarrow> \<not> is_auth_terminal e \<Longrightarrow>
      clock n - start < budget cfg \<Longrightarrow> P (s\<lparr>rc_net := sleep (interval cfg) n\<rparr>) r s' \<Longrightarrow> P s r s'"
  shows "P s r s'"
proof -
  let ?P = "\<lambda>x' cfg' start' s y. x' = x \<and> cfg' = cfg \<and> start' = start \<longrightarrow> P s (fst y) (snd y)"
  have "?P x cfg start s (r, s')"
    using connect_loop.raw_induct [of ?P "(((x, cfg), start), s)" "(r, s')"] assms terminal_is_server_error
    by (fastforce split: Option.bind_splits prod.splits sum.splits if_splits)
  then show ?thesis by simp
qed

lemma retry_io_loop_induct [consumes 1, case_names unreachable answered rejected again]:
  assumes "retry_io_loop x cfg m s = Some (r, s')"
    and "\<And>s s1 e. ensure_connected x cfg s = Some (Inl e, s1) \<Longrightarrow> P s (Inl e) s1"
    and "\<And>s s1 c v c'. ensure_connected x cfg s = Some (Inr (), s1) \<Longrightarrow> inner s1 = Some c \<Longrightarrow>
      m c = Some (Inr v, c') \<Longrightarrow> P s (Inr v) (s1\<lparr>inner := Some c'\<rparr>)"
    and "\<And>s s1 c e c'. ensure_connected x cfg s = Some (Inr (), s1) \<Longrightarrow> inner s1 = Some c \<Longrightarrow>
      m c = Some (Inl e, c') \<Longrightarrow> \<not> is_io e \<Longrightarrow> P s (Inl e) (s1\<lparr>inner := Some c'\<rparr>)"
    and "\<And>s s1 c e c' r s'. ensure_connected x cfg s = Some (Inr (), s1) \<Longrightarrow> inner s1 = Some c \<Longrightarrow>
      m c = Some (Inl e, c') \<Longrightarrow> is_io e \<Longrightarrow> P (drop_inner c' s1) r s' \<Longrightarrow> P s r s'"
  shows "P s r s'"
proof -
  let ?P = "\<lambda>x' cfg' m' s y. x' = x \<and> cfg' = cfg \<and> m' = m \<longrightarrow> P s (fst y) (snd y)"
  have "?P x cfg m s (r, s')"
    using retry_io_loop.raw_induct [of ?P "(((x, cfg), m), s)" "(r, s')"] assms
    by (fastforce split: Option.bind_splits option.splits prod.splits sum.splits if_splits)
  then show ?thesis by simp
qed

section \<open>The latch\<close>

lemma ensure_connected_latched:
  "auth_failure s = Some msg \<Longrightarrow> ensure_connected x cfg s = Some (Inl (ServerError msg), s)"
  by (simp add: ensure_connected_def)

lemma connect_loop_latches:
  assumes "connect_loop x cfg start s = Some (r, s')" and "r = Inl e" and "is_auth_terminal e"
  shows "\<exists>msg. e = ServerError msg \<and> auth_failure s' = Some msg"
  using assms by (induction rule: connect_loop_induct) auto

text \<open>C29. A refused handshake is terminal for the client: once a connect has met it, every verb,
  retried or not, fails at once with the daemon's own refusal and touches nothing, no connect included.\<close>

theorem refusal_is_latched:
  assumes "ensure_connected x cfg s = Some (Inl e, s')" and "is_auth_terminal e"
  shows "retry_io_loop x cfg m s' = Some (Inl e, s') \<and> no_retry_on_io x cfg m' s' = Some (Inl e, s')"
proof -
  obtain msg where "e = ServerError msg" "auth_failure s' = Some msg"
    using assms by (auto simp: ensure_connected_def dest: connect_loop_latches split: option.splits)
  then have "ensure_connected x cfg s' = Some (Inl e, s')"
    by (simp add: ensure_connected_latched)
  then show ?thesis
    by (subst retry_io_loop.simps) (simp add: no_retry_on_io_def andthen_def)
qed

text \<open>A token file that does not hold 32 bytes.\<close>

definition toy_refused_cfg :: rc_cfg where
  "toy_refused_cfg = \<lparr>rc_auth = Some \<lparr>token_file = Some ''t'', profile = ''p''\<rparr>,
     interval = DEFAULT_RETRY_INTERVAL, budget = DEFAULT_RETRY_BUDGET\<rparr>"

lemma toy_k: "valid_utf8 ''k''" "trim ''k'' = ''k''"
  by code_simp+

lemma toy_refused:
  "\<exists>e s'. ensure_connected toy_ext toy_refused_cfg (toy_client (\<lambda>_. toy_peer (Some ''k'') [])) = Some (Inl e, s') \<and>
     is_auth_terminal e"
proof -
  let ?s = "toy_client (\<lambda>_. toy_peer (Some ''k'') [])"
  obtain msg where "read_token toy_ext ''t'' (Some ''k'') = Inl msg"
    using toy_k by (simp add: read_token_def)
  then have "is_auth_terminal (ServerError msg)"
    and "\<exists>n. open_conn toy_ext (rc_auth toy_refused_cfg) (rc_net ?s) = Some (Inl (ServerError msg), n)"
    by (auto simp: open_conn_def toy_refused_cfg_def connect_auth_def andthen_def connect_def toy_client_def
        toy_net_def toy_peer_def token_of_def Let_def throw_def dest: read_token_terminal)
  then show ?thesis
    by (auto simp: ensure_connected_def toy_client_def connect_loop_step)
qed

theorem refusal_is_latched_witness:
  "\<exists>e s'. ensure_connected toy_ext toy_refused_cfg (toy_client (\<lambda>_. toy_peer (Some ''k'') [])) = Some (Inl e, s') \<and>
     rc_unlink toy_ext toy_refused_cfg ''f'' s' = Some (Inl e, s')"
proof -
  obtain e s' where s': "ensure_connected toy_ext toy_refused_cfg (toy_client (\<lambda>_. toy_peer (Some ''k'') [])) = Some (Inl e, s')"
    and "is_auth_terminal e"
    using toy_refused by blast
  from refusal_is_latched [OF this] s' show ?thesis
    by (auto simp: rc_unlink_def)
qed

section \<open>A daemon that drops every call\<close>


text \<open>A daemon that accepts and closes, asked for a listing.\<close>

lemma toy_list_eof: "\<exists>c'. list_dir toy_ext p (toy_conn []) = Some (Inl (Io UnexpectedEof), c')"
  by (simp add: list_dir_def checked_call_def round_trip_def prog_defs write_op_def read_op_def
        read_inbound_line_def read_until.simps fill_buf_def toy_conn_def reply_of_line_def Let_def
        MAX_REQUEST_BYTES_def MAX_INBOUND_LINE_BYTES_def)


section \<open>When a retried verb returns\<close>

definition prompt :: "ext \<Rightarrow> conn \<Rightarrow> bool" where
  "prompt x c \<longleftrightarrow> (\<forall>req e c'. round_trip x req c = Some (Inl e, c') \<longrightarrow> \<not> is_io e)"

text \<open>From its \<open>N\<close>-th connection on, a client gets an answer on every connection that comes up, at least to
  the first call.\<close>

definition settled :: "ext \<Rightarrow> rc_cfg \<Rightarrow> nat \<Rightarrow> rclient \<Rightarrow> bool" where
  "settled x cfg N s \<longleftrightarrow> (\<forall>n c n'. peers n = peers (rc_net s) \<longrightarrow> N \<le> n_conn n \<longrightarrow>
     open_conn x (rc_auth cfg) n = Some (Inr c, n') \<longrightarrow> prompt x c)"

lemma settled_peers: "peers (rc_net s') = peers (rc_net s) \<Longrightarrow> settled x cfg N s' = settled x cfg N s"
  by (simp add: settled_def)

text \<open>A call that does no more than one exchange with the daemon.\<close>

definition first_call :: "ext \<Rightarrow> 'a client \<Rightarrow> bool" where
  "first_call x m \<longleftrightarrow> returns m \<and> (\<forall>c e c'. prompt x c \<longrightarrow> m c = Some (Inl e, c') \<longrightarrow> \<not> is_io e)"

lemma checked_first_call:
  assumes "returns (checked_call x req k)" and "\<And>reply. raises (\<lambda>e. \<not> is_io e) (k reply)"
  shows "first_call x (checked_call x req k)"
proof -
  have "\<not> is_io (server_error reply)" for reply by (simp add: server_error_def Let_def)
  then show ?thesis
    using assms unfolding first_call_def prompt_def raises_def checked_call_def andthen_Some
    by (fastforce simp: simple_Some split: if_splits)
qed

lemma parse_entries_error: "parse_entries x es = Inl e \<Longrightarrow> \<exists>msg. e = Malformed msg"
  by (induction es) (auto simp: parse_list_entry_def res_then_def Let_def res_or_def split: sum.splits option.splits)

lemma retried_first_call:
  "first_call x (open_read x h p)" "first_call x (close_handle x h)" "first_call x (list_dir x p)"
  "first_call x (daemon_status x)"
  unfolding open_read_def close_handle_def list_dir_def daemon_status_def field_str_def
  by (intro checked_first_call returns_rules raises_rules; auto dest: parse_entries_error)+

lemma connect_loop_keeps_peers:
  "connect_loop x cfg start s = Some (r, s') \<Longrightarrow> peers (rc_net s') = peers (rc_net s) \<and>
     (r = Inr () \<longrightarrow> (\<exists>n c n'. open_conn x (rc_auth cfg) n = Some (Inr c, n') \<and> inner s' = Some c \<and>
        peers n = peers (rc_net s) \<and> n_conn (rc_net s) \<le> n_conn n \<and> n_conn (rc_net s') = Suc (n_conn n)))"
proof (induction rule: connect_loop_induct)
  case (again s n e r s')
  then show ?case
    using open_conn_one_attempt [OF again(1)] by (fastforce simp: one_attempt_def sleep_def)
qed (force dest: open_conn_one_attempt simp: one_attempt_def)+

lemma retry_step:
  assumes "ensure_connected x cfg s = Some (Inr (), s1)" and "inner s1 = Some c" and "m c = Some (r, c')"
  shows "retry_io_loop x cfg m s = (case r of
      Inr v \<Rightarrow> Some (Inr v, s1\<lparr>inner := Some c'\<rparr>)
    | Inl e \<Rightarrow> if is_io e then retry_io_loop x cfg m (drop_inner c' s1) else Some (Inl e, s1\<lparr>inner := Some c'\<rparr>))"
  by (subst retry_io_loop.simps) (simp add: assms)


lemma retry_returns_down:
  assumes "0 < interval cfg" and "first_call x m"
  shows "settled x cfg N s \<Longrightarrow> inner s = None \<Longrightarrow> \<exists>r s'. retry_io_loop x cfg m s = Some (r, s') \<and> peers (rc_net s') = peers (rc_net s)"
proof (induction "N - n_conn (rc_net s)" arbitrary: s rule: less_induct)
  case less
  show ?case
  proof (cases "auth_failure s")
    case (Some msg)
    then show ?thesis by (subst retry_io_loop.simps) (simp add: ensure_connected_latched)
  next
    case None
    obtain q s1 where loop: "connect_loop x cfg (clock (rc_net s)) s = Some (q, s1)"
      using connect_loop_returns [OF assms(1), of "clock (rc_net s)" s x] by auto
    then have ens: "ensure_connected x cfg s = Some (q, s1)" using None less.prems(2) by (simp add: ensure_connected_def)
    note up = connect_loop_keeps_peers [OF loop]
    show ?thesis
    proof (cases q)
      case (Inl e)
      with ens up show ?thesis by (subst retry_io_loop.simps) simp
    next
      case (Inr u)
      with up obtain n c n' where c: "open_conn x (rc_auth cfg) n = Some (Inr c, n')" "inner s1 = Some c"
        "peers n = peers (rc_net s)" "n_conn (rc_net s) \<le> n_conn n" "n_conn (rc_net s1) = Suc (n_conn n)" by auto
      obtain r c' where m: "m c = Some (r, c')"
        by (rule returns_obtain [of m c]) (use assms(2) in \<open>simp add: first_call_def\<close>)
      note step = retry_step [where m = m, OF ens [unfolded Inr, simplified] c(2) m]
      show ?thesis
      proof (cases "\<exists>e. r = Inl e \<and> is_io e")
        case False
        with step up show ?thesis by (cases r) auto
      next
        case True
        then have "\<not> prompt x c" using assms(2) m by (auto simp: first_call_def)
        then have "n_conn n < N" using less.prems(1) c(1,3) by (auto simp: settled_def not_less)
        then have "N - n_conn (rc_net (drop_inner c' s1)) < N - n_conn (rc_net s)"
          using c(4,5) by (simp add: drop_inner_def)
        moreover have "settled x cfg N (drop_inner c' s1)" "inner (drop_inner c' s1) = None"
          using less.prems(1) up by (simp_all add: settled_def drop_inner_def)
        ultimately obtain r' s' where "retry_io_loop x cfg m (drop_inner c' s1) = Some (r', s')"
          "peers (rc_net s') = peers (rc_net (drop_inner c' s1))"
          using less.hyps by blast
        with step True up show ?thesis by (auto simp: drop_inner_def)
      qed
    qed
  qed
qed

lemma retry_ends:
  assumes "0 < interval cfg" and "first_call x m"
  shows "ends (settled x cfg N) (retry_io_loop x cfg m)"
proof (rule endsI)
  fix s
  assume s: "settled x cfg N s"
  have "\<exists>r s'. retry_io_loop x cfg m s = Some (r, s') \<and> peers (rc_net s') = peers (rc_net s)"
  proof (cases "auth_failure s = None \<and> inner s \<noteq> None")
    case False
    then show ?thesis
      using retry_returns_down [OF assms s]
      by (cases "auth_failure s") (auto simp: ensure_connected_latched retry_io_loop.simps [of _ _ _ s])
  next
    case True
    then obtain c where c: "inner s = Some c" and ens: "ensure_connected x cfg s = Some (Inr (), s)"
      by (auto simp: ensure_connected_def)
    obtain r c' where m: "m c = Some (r, c')"
        by (rule returns_obtain [of m c]) (use assms(2) in \<open>simp add: first_call_def\<close>)
    note step = retry_step [where m = m, OF ens c m]
    have "settled x cfg N (drop_inner c' s)" "inner (drop_inner c' s) = None"
      using s by (simp_all add: settled_def drop_inner_def)
    from retry_returns_down [OF assms this] show ?thesis
      using step by (cases r) (auto simp: drop_inner_def)
  qed
  with s show "\<exists>r s'. retry_io_loop x cfg m s = Some (r, s') \<and> settled x cfg N s'"
    using settled_peers by blast
qed

lemma no_retry_ends:
  assumes "0 < interval cfg" and "returns m"
  shows "ends (settled x cfg N) (no_retry_on_io x cfg m)"
proof (rule endsI)
  fix s
  assume s: "settled x cfg N s"
  obtain q s1 where ens: "ensure_connected x cfg s = Some (q, s1)" "peers (rc_net s1) = peers (rc_net s)"
    "q = Inr () \<longrightarrow> inner s1 \<noteq> None"
  proof (cases "auth_failure s = None \<and> inner s = None")
    case True
    obtain q s1 where loop: "connect_loop x cfg (clock (rc_net s)) s = Some (q, s1)"
      using connect_loop_returns [OF assms(1), of "clock (rc_net s)" s x] by auto
    with True that [of q s1] connect_loop_keeps_peers [OF loop] show ?thesis by (auto simp: ensure_connected_def)
  next
    case False
    then show ?thesis using that by (cases "auth_failure s"; cases "inner s") (auto simp: ensure_connected_def)
  qed
  show "\<exists>r s'. no_retry_on_io x cfg m s = Some (r, s') \<and> settled x cfg N s'"
  proof (cases q)
    case (Inl e)
    with ens(1) have "no_retry_on_io x cfg m s = Some (Inl e, s1)" by (simp add: no_retry_on_io_def andthen_def)
    with s ens(2) settled_peers show ?thesis by blast
  next
    case (Inr u)
    with ens(3) obtain c where c: "inner s1 = Some c" by auto
    obtain r c' where m: "m c = Some (r, c')" by (rule returns_obtain [OF assms(2)])
    have "\<exists>s'. no_retry_on_io x cfg m s = Some (r, s') \<and> peers (rc_net s') = peers (rc_net s1)"
      using ens(1) Inr c m by (cases r) (auto simp: no_retry_on_io_def andthen_def drop_inner_def)
    with s ens(2) settled_peers show ?thesis by metis
  qed
qed

section \<open>How often a verb is sent\<close>

text \<open>The requests of the connection setup, and the verbs that a client has begun to send: on its
  dropped connections first, then on the current one.\<close>

definition is_setup :: "json \<Rightarrow> bool" where
  "is_setup q \<longleftrightarrow> as_str (jindex q ''verb'') \<in> {Some ''hello'', Some ''hello.proof'', Some ''daemon.status''}"

definition verbs_sent :: "rclient \<Rightarrow> json list" where
  "verbs_sent s = filter (\<lambda>q. \<not> is_setup q)
     (past (rc_net s) @ (case inner s of Some c \<Rightarrow> issued c | None \<Rightarrow> []))"

text \<open>Nothing has been sent yet on the connections the daemon will accept.\<close>

definition fresh_peers :: "rclient \<Rightarrow> bool" where
  "fresh_peers s \<longleftrightarrow> (\<forall>k c. p_conn (peers (rc_net s) k) = Inr c \<longrightarrow> issued c = [])"

definition setup_only :: "'a client \<Rightarrow> bool" where
  "setup_only m \<longleftrightarrow> (\<forall>c r c'. m c = Some (r, c') \<longrightarrow> (\<exists>qs. issued c' = issued c @ qs \<and> list_all is_setup qs))"

named_theorems setup_rules \<open>calls that send setup requests only\<close>

lemma setup_only_silent [setup_rules]: "silent m \<Longrightarrow> setup_only m"
  unfolding silent_def setup_only_def by (metis append_Nil2 list.pred_inject(1))

lemma setup_only_andthen [setup_rules]:
  assumes "setup_only m" and "\<And>v. setup_only (k v)"
  shows "setup_only (andthen m k)"
  unfolding setup_only_def
proof (intro allI impI)
  fix c r c'
  assume "andthen m k c = Some (r, c')"
  then obtain q c1 where m: "m c = Some (q, c1)" and k: "c' = c1 \<or> (\<exists>v. k v c1 = Some (r, c'))"
    unfolding andthen_Some by blast
  obtain qs where qs: "issued c1 = issued c @ qs" "list_all is_setup qs"
    using assms(1) m unfolding setup_only_def by blast
  from k show "\<exists>qs. issued c' = issued c @ qs \<and> list_all is_setup qs"
  proof
    assume "\<exists>v. k v c1 = Some (r, c')"
    then obtain ps where "issued c' = issued c1 @ ps" "list_all is_setup ps"
      using assms(2) unfolding setup_only_def by blast
    with qs show ?thesis by auto
  qed (use qs in blast)
qed

lemma setup_only_if [setup_rules]: "setup_only m \<Longrightarrow> setup_only n \<Longrightarrow> setup_only (if b then m else n)"
  by simp

lemma setup_only_round_trip [setup_rules]: "is_setup req \<Longrightarrow> setup_only (round_trip x req)"
  using round_trip_issues [of req x] unfolding setup_only_def issues_def
  by fastforce

lemma setup_requests [simp]:
  "is_setup (hello nonce)" "is_setup (verb ''hello.proof'' a)" "is_setup (verb ''daemon.status'' a)"
  by (simp_all add: is_setup_def hello_def verb_def jindex_def jget_def)

lemma handshake_setup [setup_rules]: "setup_only (handshake x key prof rnd)"
  and fallback_check_setup [setup_rules]: "setup_only (fallback_check x auth)"
proof -
  have shutdown: "setup_only shutdown"
    by (auto simp: setup_only_def shutdown_def modify_def)
  show "setup_only (handshake x key prof rnd)" "setup_only (fallback_check x auth)"
    unfolding handshake_def fallback_check_def Let_def
    by (intro shutdown setup_only_andthen setup_only_if setup_only_round_trip setup_requests
        | rule setup_only_silent, rule silent_rules)+
qed

lemma open_conn_setup:
  assumes "open_conn x auth n = Some (r, n')"
    and "\<And>k c. p_conn (peers n k) = Inr c \<Longrightarrow> issued c = []"
  shows "filter (\<lambda>q. \<not> is_setup q) (past n') = filter (\<lambda>q. \<not> is_setup q) (past n) \<and> peers n' = peers n \<and>
    (\<forall>c. r = Inr c \<longrightarrow> filter (\<lambda>q. \<not> is_setup q) (issued c) = [])"
proof -
  have none: "filter (\<lambda>q. \<not> is_setup q) (issued c') = []"
    if sent: "setup_only m" "m c = Some (q, c')" "issued c = []" for m :: "unit client" and q c c'
  proof -
    obtain qs where "issued c' = issued c @ qs" "list_all is_setup qs"
      using sent(1,2) unfolding setup_only_def by blast
    with sent(3) show ?thesis by (simp add: list_all_iff)
  qed
  note h = none [OF handshake_setup] none [OF fallback_check_setup]
  show ?thesis
    using assms(1) unfolding open_conn_def connect_auth_def
    by (auto simp: andthen_Some connect_Some on_conn_Some throw_def ret_def warn_fallback_once_def modify_def
        h assms(2) split: option.splits sum.splits token_read.splits)
qed

lemma fresh_peers_net [simp]: "fresh_peers (s\<lparr>inner := i\<rparr>) = fresh_peers s"
  "fresh_peers (drop_inner c s) = fresh_peers s"
  by (simp_all add: fresh_peers_def drop_inner_def)

lemma open_conn_sends:
  assumes "open_conn x auth (rc_net s) = Some (r, n)" and "fresh_peers s" and "inner s = None"
  shows "verbs_sent (s\<lparr>rc_net := n\<rparr>) = verbs_sent s" and "fresh_peers (s\<lparr>rc_net := n\<rparr>)"
    and "r = Inr c \<Longrightarrow> verbs_sent (s\<lparr>rc_net := n, inner := Some c\<rparr>) = verbs_sent s"
proof -
  have h: "filter (\<lambda>q. \<not> is_setup q) (past n) = filter (\<lambda>q. \<not> is_setup q) (past (rc_net s)) \<and>
      peers n = peers (rc_net s) \<and> (\<forall>c. r = Inr c \<longrightarrow> filter (\<lambda>q. \<not> is_setup q) (issued c) = [])"
    by (rule open_conn_setup [OF assms(1)]) (use assms(2) in \<open>simp add: fresh_peers_def\<close>)
  then show "verbs_sent (s\<lparr>rc_net := n\<rparr>) = verbs_sent s" "fresh_peers (s\<lparr>rc_net := n\<rparr>)"
    "r = Inr c \<Longrightarrow> verbs_sent (s\<lparr>rc_net := n, inner := Some c\<rparr>) = verbs_sent s"
    using assms(2,3) by (simp_all add: verbs_sent_def fresh_peers_def)
qed

lemma sleep_sends [simp]: "verbs_sent (s\<lparr>rc_net := sleep ms n\<rparr>) = verbs_sent (s\<lparr>rc_net := n\<rparr>)"
  "fresh_peers (s\<lparr>rc_net := sleep ms n\<rparr>) = fresh_peers (s\<lparr>rc_net := n\<rparr>)"
  "verbs_sent (s\<lparr>rc_net := n, auth_failure := a\<rparr>) = verbs_sent (s\<lparr>rc_net := n\<rparr>)"
  "fresh_peers (s\<lparr>rc_net := n, auth_failure := a\<rparr>) = fresh_peers (s\<lparr>rc_net := n\<rparr>)"
  by (simp_all add: verbs_sent_def fresh_peers_def sleep_def)

lemma connect_loop_sends:
  assumes "connect_loop x cfg start s = Some (r, s')" and "inner s = None" and "fresh_peers s"
  shows "verbs_sent s' = verbs_sent s \<and> fresh_peers s'"
  using assms
proof (induction rule: connect_loop_induct)
  case (connected s n c)
  then show ?case using open_conn_sends [OF connected(1)] by simp
next
  case (refused s n msg)
  then show ?case using open_conn_sends [OF refused(1)] by simp
next
  case (spent s n e)
  then show ?case using open_conn_sends [OF spent(1)] by simp
next
  case (again s n e r s')
  then show ?case using open_conn_sends [OF again(1)] by simp
qed

lemma ensure_connected_sends:
  assumes "ensure_connected x cfg s = Some (r, s')" and "fresh_peers s"
  shows "verbs_sent s' = verbs_sent s \<and> fresh_peers s'"
  using assms by (auto simp: ensure_connected_def dest: connect_loop_sends split: option.splits)

lemma no_retry_on_io_cases [consumes 1, case_names down called]:
  assumes "no_retry_on_io x cfg m s = Some (r, s')"
  obtains e where "ensure_connected x cfg s = Some (Inl e, s')" "r = Inl e"
    | s1 c c' where "ensure_connected x cfg s = Some (Inr (), s1)" "inner s1 = Some c"
      "m c = Some (r, c')" "s' = s1\<lparr>inner := Some c'\<rparr> \<or> s' = drop_inner c' s1"
  using assms unfolding no_retry_on_io_def andthen_Some
  by (elim disjE exE conjE) (fastforce split: option.splits Option.bind_splits sum.splits if_splits)+

definition sent_at_most_once :: "json \<Rightarrow> 'a rcall \<Rightarrow> bool" where
  "sent_at_most_once req m \<longleftrightarrow> (\<forall>s r s'. fresh_peers s \<longrightarrow> m s = Some (r, s') \<longrightarrow>
     verbs_sent s' = verbs_sent s @ [req] \<or> verbs_sent s' = verbs_sent s \<and> (\<exists>e. r = Inl e))"

definition sent_until_answered :: "json \<Rightarrow> 'a rcall \<Rightarrow> bool" where
  "sent_until_answered req m \<longleftrightarrow> (\<forall>s r s'. fresh_peers s \<longrightarrow> m s = Some (r, s') \<longrightarrow>
     (\<exists>k. verbs_sent s' = verbs_sent s @ replicate k req \<and> (k = 0 \<longrightarrow> (\<exists>e. r = Inl e))))"

text \<open>The contract of a client call that a reconnecting verb wraps: it begins to send one request, at
  most once, and that request is not part of the setup.\<close>

locale verb_call =
  fixes m :: "'a client" and req :: json
  assumes sends_one: "issues req m" and no_setup: "\<not> is_setup req"
begin

lemma call_sends:
  assumes "m c = Some (r, c')" and "inner s1 = Some c"
  shows "verbs_sent (s1\<lparr>inner := Some c'\<rparr>) = verbs_sent s1 @ [req] \<or>
    verbs_sent (s1\<lparr>inner := Some c'\<rparr>) = verbs_sent s1 \<and> (\<exists>e. r = Inl (Malformed e))"
  using sends_one assms no_setup unfolding issues_def verbs_sent_def by fastforce

lemma call_drops: "verbs_sent (drop_inner c' s1) = verbs_sent (s1\<lparr>inner := Some c'\<rparr>)"
  by (simp add: verbs_sent_def drop_inner_def)

lemma at_most_once:
  assumes "no_retry_on_io x cfg m s = Some (r, s')" and "fresh_peers s"
  shows "verbs_sent s' = verbs_sent s @ [req] \<or> verbs_sent s' = verbs_sent s \<and> (\<exists>e. r = Inl e)"
proof -
  from assms(1) show ?thesis
  proof (cases rule: no_retry_on_io_cases)
    case (down e)
    then show ?thesis using ensure_connected_sends [OF _ assms(2)] by blast
  next
    case (called s1 c c')
    have "verbs_sent s' = verbs_sent (s1\<lparr>inner := Some c'\<rparr>)"
      using called(4) call_drops by auto
    moreover have "verbs_sent s1 = verbs_sent s"
      using ensure_connected_sends [OF called(1) assms(2)] by blast
    ultimately show ?thesis using call_sends [OF called(3,2)] by auto
  qed
qed

lemma resent:
  assumes "retry_io_loop x cfg m s = Some (r, s')" and "fresh_peers s"
  shows "\<exists>k. verbs_sent s' = verbs_sent s @ replicate k req \<and> (k = 0 \<longrightarrow> (\<exists>e. r = Inl e))"
  using assms
proof (induction rule: retry_io_loop_induct)
  case (unreachable s s1 e)
  then show ?case using ensure_connected_sends by (intro exI [of _ 0]) auto
next
  case (answered s s1 c v c')
  have "verbs_sent (s1\<lparr>inner := Some c'\<rparr>) = verbs_sent s1 @ [req]"
    using call_sends [OF answered(3,2)] by simp
  moreover have "verbs_sent s1 = verbs_sent s"
    using ensure_connected_sends [OF answered(1,4)] by blast
  ultimately show ?case by (intro exI [of _ 1]) simp
next
  case (rejected s s1 c e c')
  have "verbs_sent s1 = verbs_sent s"
    using ensure_connected_sends [OF rejected(1) rejected(5)] by blast
  then show ?case
    using call_sends [OF rejected(3,2)] by (metis append_Nil2 replicate_0 replicate_Suc)
next
  case (again s s1 c e c' r s')
  have s1: "verbs_sent s1 = verbs_sent s" "fresh_peers s1"
    using ensure_connected_sends [OF again(1,6)] by blast+
  have "verbs_sent (drop_inner c' s1) = verbs_sent s @ [req]"
    using call_sends [OF again(3,2)] again(4) s1(1) call_drops by auto
  then show ?case
    using again(5) s1(2) by (metis append_Cons append_Nil append_assoc fresh_peers_net(2) nat.distinct(1) replicate_Suc)
qed

lemma once: "sent_at_most_once req (no_retry_on_io x cfg m)"
  unfolding sent_at_most_once_def using at_most_once by blast

lemma until_answered: "sent_until_answered req (retry_io_loop x cfg m)"
  unfolding sent_until_answered_def using resent by blast

end

text \<open>Every verb keeps the contract; the requests it is about.\<close>

lemma is_setup_verb [simp]:
  "is_setup (verb name a) \<longleftrightarrow> name \<in> {''hello'', ''hello.proof'', ''daemon.status''}"
  by (auto simp: is_setup_def verb_def jindex_def jget_def)

lemma begin_issues:
  "issues (verb ''hydration.open_write_begin'' [(''path'', p), (''handle_id'', h)]) (open_write_begin x p (Some h))"
  by (simp add: open_write_begin_def checked_call_issues silent_field_str)

interpretation v_open_write: verb_call "open_write x h p c"
    "verb ''hydration.open_write'' [(''handle_id'', h), (''path'', p), (''cache_path'', c)]" for x h p c
  by unfold_locales (auto intro: verbs_issue)

interpretation v_open_write_begin: verb_call "open_write_begin x p (Some h)"
    "verb ''hydration.open_write_begin'' [(''path'', p), (''handle_id'', h)]" for x h p
  by unfold_locales (auto intro: begin_issues)

interpretation v_mkdir: verb_call "mkdir x p" "verb ''hydration.mkdir'' [(''path'', p)]" for x p
  by unfold_locales (auto intro: verbs_issue)

interpretation v_unlink: verb_call "unlink x p" "verb ''hydration.unlink'' [(''path'', p)]" for x p
  by unfold_locales (auto intro: verbs_issue)

interpretation v_rmdir: verb_call "rmdir x p" "verb ''hydration.rmdir'' [(''path'', p)]" for x p
  by unfold_locales (auto intro: verbs_issue)

interpretation v_create: verb_call "create x h p" "verb ''hydration.create'' [(''handle_id'', h), (''path'', p)]" for x h p
  by unfold_locales (auto intro: verbs_issue)

interpretation v_rename: verb_call "rename x p q"
    "verb ''hydration.rename'' [(''old_path'', p), (''new_path'', q)]" for x p q
  by unfold_locales (auto intro: verbs_issue)

interpretation v_close_handle: verb_call "close_handle x h" "verb ''hydration.close_handle'' [(''handle_id'', h)]" for x h
  by unfold_locales (auto intro: verbs_issue)

interpretation v_open_read: verb_call "open_read x h p"
    "verb ''hydration.open_read'' [(''handle_id'', h), (''path'', p)]" for x h p
  by unfold_locales (auto intro: verbs_issue)

interpretation v_list: verb_call "list_dir x p" "verb ''hydration.list'' [(''prefix'', p)]" for x p
  by unfold_locales (auto intro: verbs_issue)


text \<open>The idempotent verbs are repeated, and nothing else is: a call that returns has sent its own
  request some number of times in a row, at least once when it succeeds.\<close>

theorem idempotent_verbs_resent:
  "sent_until_answered (verb ''hydration.open_read'' [(''handle_id'', h), (''path'', p)]) (rc_open_read x cfg h p) \<and>
   sent_until_answered (verb ''hydration.close_handle'' [(''handle_id'', h)]) (rc_close_handle x cfg h) \<and>
   sent_until_answered (verb ''hydration.list'' [(''prefix'', p)]) (rc_list x cfg p)"
  unfolding rc_open_read_def rc_close_handle_def rc_list_def
  by (intro conjI v_open_read.until_answered v_close_handle.until_answered v_list.until_answered)

section \<open>The first connect\<close>

lemma startup_step:
  assumes "connect_auth x auth n = Some (r, n')"
  shows "startup_loop x auth ival budg start n =
    (case r of
       Inl e \<Rightarrow> if listener_not_ready e \<and> clock n' - start < budg
                then startup_loop x auth ival budg start (sleep ival n') else Some (Inl e, n')
     | Inr c \<Rightarrow> Some (Inr c, n'))"
  by (subst startup_loop.simps) (simp add: assms)

lemma startup_loop_returns:
  assumes "0 < ival" and "start \<le> clock n"
  shows "\<exists>r n' K. startup_loop x auth ival budg start n = Some (r, n') \<and>
    n_conn n' = n_conn n + 1 + K \<and> K * ival < (start + budg - clock n) + ival \<and>
    (\<forall>e. r = Inl e \<longrightarrow> listener_not_ready e \<longrightarrow> start + budg \<le> clock n')"
  using assms(2)
proof (induction "start + budg - clock n" arbitrary: n rule: less_induct)
  case less
  obtain r n1 where tried: "connect_auth x auth n = Some (r, n1)"
    by (rule returns_obtain [OF connect_auth_returns])
  have one: "n_conn n1 = n_conn n + 1" "clock n \<le> clock n1"
    using connect_auth_one_attempt [OF tried] by (auto simp: one_attempt_def)
  show ?case
  proof (cases "\<exists>e. r = Inl e \<and> listener_not_ready e \<and> clock n1 - start < budg")
    case False
    then have "startup_loop x auth ival budg start n = Some (r, n1)"
      by (auto simp: startup_step [OF tried] split: sum.splits)
    with False one less.prems assms(1) show ?thesis
      by (intro exI [of _ r] exI [of _ n1] exI [of _ 0]) auto
  next
    case True
    let ?n = "sleep ival n1"
    have d: "start + budg - clock ?n < start + budg - clock n" "start \<le> clock ?n"
      using True one less.prems assms(1) by (auto simp: sleep_def)
    obtain r' n' K where ih: "startup_loop x auth ival budg start ?n = Some (r', n')"
      "n_conn n' = n_conn ?n + 1 + K" "K * ival < (start + budg - clock ?n) + ival"
      "\<forall>e. r' = Inl e \<longrightarrow> listener_not_ready e \<longrightarrow> start + budg \<le> clock n'"
      using less.hyps [OF d] by blast
    have "Suc K * ival < (start + budg - clock n) + ival"
      by (rule one_more_interval [of K ival "start + budg" "clock n1"])
        (use ih(3) True one less.prems in \<open>auto simp: sleep_def\<close>)
    moreover have "startup_loop x auth ival budg start n = Some (r', n')"
      using True ih(1) by (auto simp: startup_step [OF tried])
    ultimately show ?thesis
      using ih(2,4) one by (intro exI [of _ r'] exI [of _ n'] exI [of _ "Suc K"]) (auto simp: sleep_def)
  qed
qed

text \<open>The first connect returns: with the shipped interval and budget it makes at most 41 attempts,
  and it reports a missing or refusing listener only once the ten seconds are over.\<close>

theorem startup_connect_returns:
  "\<exists>r n'. connect_auth_at_startup x auth STARTUP_CONNECT_INTERVAL STARTUP_CONNECT_BUDGET n = Some (r, n') \<and>
     n_conn n' \<le> n_conn n + 41 \<and>
     (case r of Inl e \<Rightarrow> if listener_not_ready e then clock n + STARTUP_CONNECT_BUDGET \<le> clock n' else True
        | Inr _ \<Rightarrow> True)"
proof -
  have "0 < STARTUP_CONNECT_INTERVAL" by (simp add: STARTUP_CONNECT_INTERVAL_def)
  from startup_loop_returns [OF this order_refl, of x auth STARTUP_CONNECT_BUDGET n]
  show ?thesis
    by (fastforce simp: connect_auth_at_startup_def STARTUP_CONNECT_INTERVAL_def STARTUP_CONNECT_BUDGET_def
        split: sum.splits)
qed

end
