(* ===== verification/Subscribe.thy ===== *)
theory Subscribe
  imports Reconnect
begin

text \<open>
  Model of \<^verbatim>\<open>mount/src/subscribe.rs\<close>: the event stream that is re-established across daemon
  restarts. \<^verbatim>\<open>run_subscription\<close> runs for ever in the normal case, so it is a step function:
  \<open>sub_step\<close> is one pass through the outer loop up to the established stream, or one event line of
  the inner loop, and \<open>sub_run k\<close> is the state after \<open>k\<close> steps. The callback \<^verbatim>\<open>on_event\<close> works on a state
  of its own. Two ghost fields record the run: \<open>emitted\<close>, what the callback was given, and
  \<open>streams\<close>, the lines read on each established stream.
\<close>

section \<open>What an event invalidates\<close>

datatype sub_event = EventLine string | Gap

datatype invalidation = Paths "path list" | All

fun path_strings :: "json list \<Rightarrow> path list option" where
  "path_strings [] = Some []"
| "path_strings (v # vs) =
     (case as_str v of
        Some p \<Rightarrow> if p \<noteq> '''' \<and> p \<noteq> [slash] then map_option (Cons p) (path_strings vs) else None
      | None \<Rightarrow> None)"

definition invalidation_of :: "ext \<Rightarrow> sub_event \<Rightarrow> invalidation option" where
  "invalidation_of x ev =
     (case ev of
        Gap \<Rightarrow> Some All
      | EventLine line \<Rightarrow>
          (case from_slice x line of
             Inl _ \<Rightarrow> None
           | Inr event \<Rightarrow>
               (case as_str (jindex event ''event'') of
                  None \<Rightarrow> None
                | Some name \<Rightarrow>
                    if name = ''lost'' then Some All
                    else if name = ''view.invalidated'' then
                      if as_bool (jindex event ''full'') = Some True then Some All
                      else (case as_array (jindex event ''paths'') of
                              None \<Rightarrow> Some All
                            | Some listed \<Rightarrow>
                                (case path_strings listed of
                                   Some paths \<Rightarrow> Some (Paths paths)
                                 | None \<Rightarrow> Some All))
                    else None)))"

section \<open>The subscription loop\<close>

record 'c sub_state =
  s_net :: net
  stream :: "conn option"
  had_stream :: bool
  callback :: 'c
  returned :: bool
  emitted :: "sub_event list"
  streams :: "string list list"

type_synonym 'c on_event = "sub_event \<Rightarrow> 'c \<Rightarrow> bool \<times> 'c"

definition hand_over :: "'c on_event \<Rightarrow> sub_event \<Rightarrow> 'c sub_state \<Rightarrow> bool \<times> 'c sub_state" where
  "hand_over on_event ev s =
     (let (go_on, c) = on_event ev (callback s)
      in (go_on, s\<lparr>callback := c, emitted := emitted s @ [ev]\<rparr>))"

text \<open>One pass of the outer loop: connect, subscribe, report the gap.\<close>

definition establish :: "ext \<Rightarrow> ipc_auth \<Rightarrow> nat \<Rightarrow> 'c on_event \<Rightarrow> 'c sub_state \<Rightarrow> 'c sub_state option" where
  "establish x auth ival on_event s =
     Option.bind (connect_auth x auth (s_net s)) (\<lambda>(r, n).
       case r of
         Inl e \<Rightarrow>
           if is_auth_terminal e then Some (s\<lparr>s_net := n, returned := True\<rparr>)
           else Some (s\<lparr>s_net := sleep ival n\<rparr>)
       | Inr sub \<Rightarrow>
           Option.bind (subscribe x sub) (\<lambda>(r', sub').
             case r' of
               Inl _ \<Rightarrow> Some (s\<lparr>s_net := sleep ival n\<rparr>)
             | Inr _ \<Rightarrow>
                 let s1 = s\<lparr>s_net := n, streams := streams s @ [[]]\<rparr>;
                     (go_on, s2) = (if had_stream s then hand_over on_event Gap s1 else (True, s1))
                 in if \<not> go_on then Some (s2\<lparr>returned := True\<rparr>)
                    else Some (s2\<lparr>had_stream := True, stream := Some sub'\<rparr>)))"

definition add_line :: "string \<Rightarrow> string list list \<Rightarrow> string list list" where
  "add_line l lss = butlast lss @ [last lss @ [l]]"

text \<open>One pass of the inner loop.\<close>

definition read_stream :: "nat \<Rightarrow> 'c on_event \<Rightarrow> conn \<Rightarrow> 'c sub_state \<Rightarrow> 'c sub_state option" where
  "read_stream ival on_event sub s =
     Option.bind (read_event_line sub) (\<lambda>(r, sub').
       case r of
         Inr line \<Rightarrow>
           let (go_on, s') = hand_over on_event (EventLine line) (s\<lparr>streams := add_line line (streams s)\<rparr>)
           in Some (s'\<lparr>stream := Some sub', returned := \<not> go_on\<rparr>)
       | Inl _ \<Rightarrow> Some (s\<lparr>stream := None, s_net := sleep ival (s_net s)\<rparr>))"

definition sub_step :: "ext \<Rightarrow> ipc_auth \<Rightarrow> nat \<Rightarrow> 'c on_event \<Rightarrow> 'c sub_state \<Rightarrow> 'c sub_state option" where
  "sub_step x auth ival on_event s =
     (if returned s then Some s
      else case stream s of
             None \<Rightarrow> establish x auth ival on_event s
           | Some sub \<Rightarrow> read_stream ival on_event sub s)"

fun sub_run :: "ext \<Rightarrow> ipc_auth \<Rightarrow> nat \<Rightarrow> 'c on_event \<Rightarrow> nat \<Rightarrow> 'c sub_state \<Rightarrow> 'c sub_state option" where
  "sub_run x auth ival on_event 0 s = Some s"
| "sub_run x auth ival on_event (Suc k) s =
     Option.bind (sub_step x auth ival on_event s) (sub_run x auth ival on_event k)"

definition sub_start :: "net \<Rightarrow> 'c \<Rightarrow> 'c sub_state" where
  "sub_start n c = \<lparr>s_net = n, stream = None, had_stream = False, callback = c, returned = False,
     emitted = [], streams = []\<rparr>"

section \<open>The loop never gets stuck\<close>

lemma read_event_line_returns [returns_rules]: "returns read_event_line"
proof -
  have "returns (case l of Line buf \<Rightarrow> ret (from_utf8_lossy (strip_newline buf))
      | Eof \<Rightarrow> throw (Io UnexpectedEof) | TooLong \<Rightarrow> throw (Io InvalidData))" for l
    by (cases l) (auto intro!: returns_rules)
  then show ?thesis
    unfolding read_event_line_def by (intro returns_rules)
qed

lemma subscribe_returns [returns_rules]: "returns (subscribe x)"
  unfolding subscribe_def by (intro returns_rules)

lemma sub_step_total: "\<exists>s'. sub_step x auth ival on_event s = Some s'"
proof (cases "returned s")
  case True
  then show ?thesis by (simp add: sub_step_def)
next
  case False
  show ?thesis
  proof (cases "stream s")
    case None
    obtain r n where "connect_auth x auth (s_net s) = Some (r, n)"
      by (rule returns_obtain [OF connect_auth_returns])
    moreover have "subscribe x c \<noteq> None" for c
      using subscribe_returns [of x] by (simp add: returns_def)
    ultimately show ?thesis
      using None False
      by (auto simp: sub_step_def establish_def Let_def simp del: not_None_eq
          split: sum.splits prod.splits Option.bind_splits)
  next
    case (Some sub)
    obtain r sub' where "read_event_line sub = Some (r, sub')"
      by (rule returns_obtain [OF read_event_line_returns])
    then show ?thesis
      using Some False by (auto simp: sub_step_def read_stream_def Let_def split: sum.splits prod.splits)
  qed
qed

lemma sub_run_total: "\<exists>s'. sub_run x auth ival on_event k s = Some s'"
proof (induction k arbitrary: s)
  case (Suc k)
  then show ?case using sub_step_total [of x auth ival on_event s] by auto
qed simp

section \<open>What the callback is given\<close>

fun transcript :: "string list list \<Rightarrow> sub_event list" where
  "transcript [] = []"
| "transcript [ls] = map EventLine ls"
| "transcript (ls # lss) = map EventLine ls @ Gap # transcript lss"

lemma transcript_new: "lss \<noteq> [] \<Longrightarrow> transcript (lss @ [[]]) = transcript lss @ [Gap]"
  by (induction lss rule: transcript.induct) auto

lemma add_line_Cons: "lss \<noteq> [] \<Longrightarrow> add_line l (ls # lss) = ls # add_line l lss"
  by (simp add: add_line_def)

lemma add_line_not_Nil [simp]: "add_line l lss \<noteq> []"
  by (simp add: add_line_def)

lemma transcript_line: "lss \<noteq> [] \<Longrightarrow> transcript (add_line l lss) = transcript lss @ [EventLine l]"
proof (induction lss rule: transcript.induct)
  case (2 ls)
  then show ?case by (simp add: add_line_def)
next
  case (3 ls ls' lss)
  then obtain a as where "add_line l (ls' # lss) = a # as"
    by (metis add_line_not_Nil neq_Nil_conv)
  with 3 show ?case by (simp add: add_line_Cons)
qed simp

text \<open>The invariant of the loop: a stream is there only after one was established, and the callback has
  seen exactly the transcript of the streams.\<close>

definition sub_inv :: "'c sub_state \<Rightarrow> bool" where
  "sub_inv s \<longleftrightarrow> emitted s = transcript (streams s) \<and> (had_stream s \<longleftrightarrow> streams s \<noteq> []) \<and>
     (stream s \<noteq> None \<longrightarrow> had_stream s)"

lemma establish_inv:
  assumes "establish x auth ival on_event s = Some s'" and "sub_inv s" and "stream s = None"
  shows "sub_inv s'"
  using assms unfolding establish_def sub_inv_def hand_over_def
  by (auto simp: Let_def transcript_new split: Option.bind_splits sum.splits prod.splits if_splits)

lemma read_stream_inv:
  assumes "read_stream ival on_event sub s = Some s'" and "sub_inv s" and "stream s = Some sub"
  shows "sub_inv s'"
  using assms unfolding read_stream_def sub_inv_def hand_over_def
  by (auto simp: Let_def transcript_line split: Option.bind_splits sum.splits prod.splits if_splits)

lemma sub_step_inv: "sub_step x auth ival on_event s = Some s' \<Longrightarrow> sub_inv s \<Longrightarrow> sub_inv s'"
  by (auto simp: sub_step_def intro: establish_inv read_stream_inv split: if_splits option.splits)

lemma sub_run_inv: "sub_run x auth ival on_event k s = Some s' \<Longrightarrow> sub_inv s \<Longrightarrow> sub_inv s'"
proof (induction k arbitrary: s)
  case (Suc k)
  then show ?case by (auto dest: sub_step_inv split: Option.bind_splits)
qed simp


end
