(* ===== verification/Quota.thy ===== *)
theory Quota
  imports Json
begin

text \<open>
  Model of \<^verbatim>\<open>mount/src/quota.rs\<close>: the account quota behind \<^verbatim>\<open>statfs\<close>. Byte counts are \<open>u64\<close>;
  \<open>quota_cache\<close> is the state behind the mutex with the interval of its owner, and the clock
  (\<^verbatim>\<open>Instant::now\<close>, in milliseconds) is an argument.
\<close>

section \<open>The quota of a reply\<close>

definition BLOCK_SIZE :: u64 where
  "BLOCK_SIZE = 4096"

definition FALLBACK_BLOCKS :: u64 where
  "FALLBACK_BLOCKS = push_bit 32 1"

definition DEFAULT_REFRESH_INTERVAL :: nat where
  "DEFAULT_REFRESH_INTERVAL = 60000"

record quota =
  used_bytes :: u64
  total_bytes :: u64

definition from_status :: "json \<Rightarrow> quota option" where
  "from_status reply =
     Option.bind (jget reply ''quota'') (\<lambda>q.
     Option.bind (Option.bind (jget q ''used_bytes'') as_u64) (\<lambda>used.
     Option.bind (Option.bind (jget q ''total_bytes'') as_u64) (\<lambda>total.
       if total = 0 then None else Some \<lparr>used_bytes = used, total_bytes = total\<rparr>)))"

definition saturating_sub :: "u64 \<Rightarrow> u64 \<Rightarrow> u64" where
  "saturating_sub a b = (if b \<le> a then a - b else 0)"

definition blocks :: "quota \<Rightarrow> u64 \<times> u64" where
  "blocks q =
     (let total = total_bytes q div BLOCK_SIZE;
          free = saturating_sub (total_bytes q) (used_bytes q) div BLOCK_SIZE
      in (total, free))"

definition statfs_blocks :: "quota option \<Rightarrow> u64 \<times> u64" where
  "statfs_blocks q = (case q of Some q \<Rightarrow> blocks q | None \<Rightarrow> (FALLBACK_BLOCKS, FALLBACK_BLOCKS))"

section \<open>The cache\<close>

record quota_cache =
  quota_known :: "quota option"
  last_attempt :: "nat option"
  in_flight :: bool
  refresh_interval :: nat

definition quota_new :: "nat \<Rightarrow> quota_cache" where
  "quota_new ival = \<lparr>quota_known = None, last_attempt = None, in_flight = False, refresh_interval = ival\<rparr>"

definition quota_current :: "quota_cache \<Rightarrow> quota option" where
  "quota_current c = quota_known c"

definition begin_refresh :: "nat \<Rightarrow> quota_cache \<Rightarrow> bool \<times> quota_cache" where
  "begin_refresh now c =
     (if in_flight c then (False, c)
      else if (case last_attempt c of Some t \<Rightarrow> now - t < refresh_interval c | None \<Rightarrow> False) then (False, c)
      else (True, c\<lparr>in_flight := True, last_attempt := Some now\<rparr>))"

definition finish_refresh :: "quota option \<Rightarrow> quota_cache \<Rightarrow> quota_cache" where
  "finish_refresh fetched c =
     (let c = c\<lparr>in_flight := False\<rparr>
      in if fetched \<noteq> None then c\<lparr>quota_known := fetched\<rparr> else c)"

section \<open>What \<^verbatim>\<open>statfs\<close> reports\<close>

lemma unat_saturating_sub: "unat (saturating_sub a b) = unat a - unat b"
  by (simp add: saturating_sub_def unat_sub word_le_nat_alt)

lemma unat_BLOCK_SIZE [simp]: "unat BLOCK_SIZE = 4096"
  by (simp add: BLOCK_SIZE_def)

lemma unat_blocks:
  "unat (fst (blocks q)) = unat (total_bytes q) div 4096"
  "unat (snd (blocks q)) = (unat (total_bytes q) - unat (used_bytes q)) div 4096"
  by (simp_all add: blocks_def Let_def unat_div unat_saturating_sub)

text \<open>The block counts of \<^verbatim>\<open>statfs\<close> are the exact integer quotients of the quota: nothing wraps
  around, free space clamps at zero when the account is over quota, and free never exceeds the total,
  with a known quota and with the fallback volume.\<close>

theorem statfs_blocks_exact:
  "snd (statfs_blocks mq) \<le> fst (statfs_blocks mq) \<and>
   (case mq of
      None \<Rightarrow> statfs_blocks mq = (2 ^ 32, 2 ^ 32)
    | Some q \<Rightarrow>
        int (unat (fst (statfs_blocks mq))) = int (unat (total_bytes q)) div 4096 \<and>
        int (unat (snd (statfs_blocks mq))) = max 0 (int (unat (total_bytes q)) - int (unat (used_bytes q))) div 4096)"
proof (cases mq)
  case None
  then show ?thesis by (simp add: statfs_blocks_def FALLBACK_BLOCKS_def push_bit_eq_mult)
next
  case (Some q)
  have "int (unat a - unat b) = max 0 (int (unat a) - int (unat b))" for a b :: u64
    by linarith
  with Some show ?thesis
    by (simp add: statfs_blocks_def unat_blocks word_le_nat_alt div_le_mono zdiv_int)
qed

text \<open>An unknown is never read as zero.\<close>

lemma from_status_total: "from_status reply = Some q \<Longrightarrow> total_bytes q \<noteq> 0"
  by (auto simp: from_status_def split: Option.bind_splits if_splits)

section \<open>The refresh protocol\<close>

text \<open>A history of refresh requests, each at its time, and of outcomes. \<open>grants\<close> are the times of the
  requests that got \<^verbatim>\<open>true\<close>.\<close>

datatype quota_event = Request nat | Outcome "quota option"

fun quota_step :: "quota_event \<Rightarrow> quota_cache \<Rightarrow> quota_cache" where
  "quota_step (Request t) c = snd (begin_refresh t c)"
| "quota_step (Outcome f) c = finish_refresh f c"

fun granted :: "quota_event \<Rightarrow> quota_cache \<Rightarrow> nat list" where
  "granted (Request t) c = (if fst (begin_refresh t c) then [t] else [])"
| "granted (Outcome f) c = []"

fun grants :: "quota_event list \<Rightarrow> quota_cache \<Rightarrow> nat list" where
  "grants [] c = []"
| "grants (e # es) c = granted e c @ grants es (quota_step e c)"

fun outcomes :: "quota_event list \<Rightarrow> quota list" where
  "outcomes [] = []"
| "outcomes (Outcome (Some q) # es) = q # outcomes es"
| "outcomes (_ # es) = outcomes es"

lemma quota_step_interval [simp]: "refresh_interval (quota_step e c) = refresh_interval c"
  by (cases e) (auto simp: begin_refresh_def finish_refresh_def Let_def)

lemma grants_spaced:
  assumes "0 < refresh_interval c"
  shows "sorted_wrt (\<lambda>s t. s + refresh_interval c \<le> t) (grants es c) \<and>
    (\<forall>t0. last_attempt c = Some t0 \<longrightarrow> (\<forall>t \<in> set (grants es c). t0 + refresh_interval c \<le> t))"
  using assms
proof (induction es arbitrary: c)
  case Nil
  then show ?case by simp
next
  case (Cons e es)
  have ih: "sorted_wrt (\<lambda>s t. s + refresh_interval c \<le> t) (grants es (quota_step e c))"
    "\<And>t0 t. last_attempt (quota_step e c) = Some t0 \<Longrightarrow> t \<in> set (grants es (quota_step e c)) \<Longrightarrow>
      t0 + refresh_interval c \<le> t"
    using Cons.IH [of "quota_step e c"] Cons.prems by auto
  show ?case
  proof (cases e)
    case (Outcome f)
    then show ?thesis
      using ih by (auto simp: finish_refresh_def Let_def split: if_splits)
  next
    case (Request t)
    show ?thesis
    proof (cases "fst (begin_refresh t c)")
      case False
      then have "quota_step e c = c"
        using Request by (auto simp: begin_refresh_def split: if_splits)
      then show ?thesis using ih Request False by auto
    next
      case True
      then have "last_attempt (quota_step e c) = Some t"
        and later: "\<And>t0. last_attempt c = Some t0 \<Longrightarrow> t0 + refresh_interval c \<le> t"
        using Request Cons.prems by (auto simp: begin_refresh_def split: if_splits)
      then have "\<And>u. u \<in> set (grants es (quota_step e c)) \<Longrightarrow> t + refresh_interval c \<le> u"
        using ih(2) by blast
      then show ?thesis
        using ih(1) Request True later by fastforce
    qed
  qed
qed

lemma quota_known_step:
  "quota_known (quota_step e c) = (case outcomes [e] of q # _ \<Rightarrow> Some q | [] \<Rightarrow> quota_known c)"
proof (cases e)
  case (Outcome f)
  then show ?thesis by (cases f) (auto simp: finish_refresh_def Let_def)
qed (auto simp: begin_refresh_def)

lemma outcomes_Cons: "outcomes (e # es) = outcomes [e] @ outcomes es"
proof (cases e)
  case (Outcome f)
  then show ?thesis by (cases f) auto
qed simp

lemma outcomes_single: "outcomes [e] = (case e of Outcome (Some q) \<Rightarrow> [q] | _ \<Rightarrow> [])"
  by (simp split: quota_event.splits option.splits)

lemma quota_known_run:
  "quota_known (fold quota_step es c) =
     (if outcomes es = [] then quota_known c else Some (last (outcomes es)))"
proof (induction es arbitrary: c)
  case (Cons e es)
  then show ?case
    by (auto simp: outcomes_Cons [of e es] quota_known_step outcomes_single split: list.splits if_splits
        quota_event.splits option.splits)
qed simp

text \<open>The daemon is never asked for the quota more often than once per interval, however many
  \<^verbatim>\<open>statfs\<close> calls arrive and whatever the refreshes bring back, and the cache always answers with the
  last quota that a refresh has fetched, failures in between not disturbing it.\<close>

theorem quota_refresh_protocol:
  assumes "0 < ival"
  shows "sorted_wrt (\<lambda>s t. s + ival \<le> t) (grants es (quota_new ival)) \<and>
    quota_current (fold quota_step es (quota_new ival)) =
      (if outcomes es = [] then None else Some (last (outcomes es)))"
  using grants_spaced [of "quota_new ival" es] assms
  by (simp add: quota_current_def quota_known_run quota_new_def)

theorem quota_refresh_protocol_witness:
  "sorted_wrt (\<lambda>s t. s + DEFAULT_REFRESH_INTERVAL \<le> t)
     (grants [Request 0, Request 5, Outcome None, Request 10, Request 70000] (quota_new DEFAULT_REFRESH_INTERVAL)) \<and>
   grants [Request 0, Request 5, Outcome None, Request 10, Request 70000] (quota_new DEFAULT_REFRESH_INTERVAL) = [0, 70000]"
  using quota_refresh_protocol [of DEFAULT_REFRESH_INTERVAL "[Request 0, Request 5, Outcome None, Request 10, Request 70000]"]
  by (simp add: DEFAULT_REFRESH_INTERVAL_def quota_new_def begin_refresh_def finish_refresh_def Let_def)

end
