(* ===== verification/FuseState.thy ===== *)
theory FuseState
  imports FuseNames PathMap Subscribe Quota
begin

text \<open>
  The state and the internal helpers of \<^verbatim>\<open>mount/src/fuse_fs.rs\<close>.

  \<^item> \<open>fs\<close> is a \<^verbatim>\<open>UnidriveFs\<close>: the fields behind its mutexes and atomics. A helper or a request
    handler is a \<open>prog\<close> on it with the errno as error: the whole body runs as one step (the
    interleavings that matter for a handle are modelled in \<open>Durability\<close>). File handles and handle
    numbers are \<open>nat\<close>: the counters are \<^verbatim>\<open>u64\<close>s that only count up.
  \<^item> \<open>sys\<close> is what the program is linked with: the libraries (\<open>ext\<close>), the reconnect settings, and
    the operating system as functions on a disk of any type \<open>'d\<close> with open files of any type \<open>'f\<close>.
    Nothing is assumed of it but what a theorem states.
  \<^item> Two ghost fields: \<open>quarantine_log\<close>, the entries reported as unrepresentable, and \<open>quota_tasks\<close>,
    the background refreshes that have been spawned and not run yet.
\<close>

section \<open>Data\<close>

datatype errno = EIO | ENOENT | EBUSY | EEXIST | EISDIR | ENOTDIR | ENOTEMPTY | EINVAL | EBADF | EPERM
  | ENODATA | ERANGE

record cached_attr =
  ca_size :: u64
  ca_mtime_ms :: int
  ca_remote_mtime_ms :: "int option"
  ca_is_folder :: bool
  ca_is_hydrated :: bool
  ca_pending_upload :: bool

definition state_comment :: "cached_attr \<Rightarrow> string option" where
  "state_comment a =
     (if ca_is_folder a then None
      else if ca_pending_upload a then Some ''Waiting to upload''
      else if ca_is_hydrated a then Some ''Available offline''
      else Some ''Cloud only'')"

definition attr_of_entry :: "list_entry \<Rightarrow> cached_attr" where
  "attr_of_entry e =
     \<lparr>ca_size = le_size e,
      ca_mtime_ms = le_mtime_ms e,
      ca_remote_mtime_ms =
        (if le_folder e \<or> (\<not> le_hydrated e \<and> \<not> le_pending_upload e) then le_remote_modified_ms e else None),
      ca_is_folder = le_folder e,
      ca_is_hydrated = le_hydrated e,
      ca_pending_upload = le_pending_upload e\<rparr>"

record 'f open_handle =
  oh_file :: 'f
  oh_handle_id :: string
  oh_remote_path :: path
  oh_cache_path :: path
  oh_dirty :: bool

definition follow_rename :: "path \<Rightarrow> path \<Rightarrow> 'f open_handle \<Rightarrow> 'f open_handle" where
  "follow_rename old new h =
     (case strip_prefix (oh_remote_path h) old of
        None \<Rightarrow> h
      | Some rest \<Rightarrow>
          if rest = '''' \<or> starts_with rest [slash] then
            let new_remote = new @ rest;
                old_rel = trim_start_slash (oh_remote_path h);
                h' = (case Option.bind (os_to_str (oh_cache_path h)) (\<lambda>c. strip_suffix c old_rel) of
                        Some base \<Rightarrow> h\<lparr>oh_cache_path := base @ trim_start_slash new_remote\<rparr>
                      | None \<Rightarrow> h)
            in h'\<lparr>oh_remote_path := new_remote\<rparr>
          else h)"

datatype file_type = Directory | RegularFile

record file_attr =
  fa_ino :: nat
  fa_size :: u64
  fa_blocks :: u64
  fa_secs :: int
  fa_nsec :: u32
  fa_kind :: file_type
  fa_perm :: nat
  fa_nlink :: nat
  fa_uid :: u32
  fa_gid :: u32
  fa_rdev :: nat
  fa_blksize :: nat

text \<open>The libraries and the operating system.\<close>

record ('d, 'f) sys =
  lib :: ext
  rc :: rc_cfg
  os_open_rd :: "path \<Rightarrow> 'd \<Rightarrow> (io_err + 'f) \<times> 'd"
  os_open_rw :: "path \<Rightarrow> 'd \<Rightarrow> (io_err + 'f) \<times> 'd"
  os_open_w :: "path \<Rightarrow> 'd \<Rightarrow> (io_err + 'f) \<times> 'd"
  os_open_create :: "path \<Rightarrow> 'd \<Rightarrow> (io_err + 'f) \<times> 'd"
  os_len :: "'f \<Rightarrow> 'd \<Rightarrow> (io_err + u64) \<times> 'd"
  os_read_at :: "'f \<Rightarrow> nat \<Rightarrow> u64 \<Rightarrow> 'd \<Rightarrow> (io_err + string) \<times> 'd"
  os_write_at :: "'f \<Rightarrow> string \<Rightarrow> u64 \<Rightarrow> 'd \<Rightarrow> (io_err + nat) \<times> 'd"
  os_set_len :: "'f \<Rightarrow> u64 \<Rightarrow> 'd \<Rightarrow> (io_err + unit) \<times> 'd"
  os_sync_all :: "'f \<Rightarrow> 'd \<Rightarrow> (io_err + unit) \<times> 'd"
  os_sync_data :: "'f \<Rightarrow> 'd \<Rightarrow> (io_err + unit) \<times> 'd"
  os_remove_file :: "path \<Rightarrow> 'd \<Rightarrow> (io_err + unit) \<times> 'd"
  os_remove_dir_all :: "path \<Rightarrow> 'd \<Rightarrow> (io_err + unit) \<times> 'd"
  os_now_ms :: "'d \<Rightarrow> int"
  os_uid :: u32
  os_gid :: u32

record ('d, 'f) fs =
  ipc :: rclient
  paths :: path_map
  attrs :: "(nat, cached_attr) hashmap"
  open_handles :: "(nat, 'f open_handle) hashmap"
  next_fh :: nat
  next_handle_id :: nat
  cache_root :: "path option"
  quota_cache :: quota_cache
  quarantine_warned :: "path list"
  raw_names :: "(path, string) hashmap"
  disk :: 'd
  quarantine_log :: "path list"
  quota_tasks :: nat

type_synonym ('d, 'f, 'a) handler = "(('d, 'f) fs, errno, 'a) prog"

definition fs_new :: "rclient \<Rightarrow> 'd \<Rightarrow> ('d, 'f) fs" where
  "fs_new c d = \<lparr>ipc = c, paths = pm_new, attrs = [], open_handles = [], next_fh = 1, next_handle_id = 1,
     cache_root = None, quota_cache = quota_new DEFAULT_REFRESH_INTERVAL, quarantine_warned = [],
     raw_names = [], disk = d, quarantine_log = [], quota_tasks = 0\<rparr>"

definition with_cache_root :: "path \<Rightarrow> ('d, 'f) fs \<Rightarrow> ('d, 'f) fs" where
  "with_cache_root root s = s\<lparr>cache_root := Some root\<rparr>"

definition with_quota_refresh_interval :: "nat \<Rightarrow> ('d, 'f) fs \<Rightarrow> ('d, 'f) fs" where
  "with_quota_refresh_interval ival s = s\<lparr>quota_cache := quota_new ival\<rparr>"

section \<open>Errors\<close>

definition ipc_error_to_errno :: "ipc_error \<Rightarrow> errno" where
  "ipc_error_to_errno e =
     (case e of
        Io _ \<Rightarrow> EIO
      | Busy \<Rightarrow> EBUSY
      | ServerError msg \<Rightarrow> if msg = ''not_found'' then ENOENT else EIO
      | Malformed _ \<Rightarrow> EIO
      | Unknown _ \<Rightarrow> EIO)"

definition namespace_err_to_errno :: "ipc_error \<Rightarrow> errno" where
  "namespace_err_to_errno e =
     (case e of
        ServerError msg \<Rightarrow>
          if msg = ''parent_not_found'' then ENOENT
          else if msg = ''unknown_path'' then ENOENT
          else if msg = ''path_is_folder'' then EISDIR
          else if msg = ''path_is_file'' then ENOTDIR
          else if msg = ''not_empty'' then ENOTEMPTY
          else if msg = ''path_exists'' then EEXIST
          else if msg = ''old_path_not_found'' then ENOENT
          else if msg = ''new_parent_not_found'' then ENOENT
          else if msg = ''new_path_exists'' then EEXIST
          else ipc_error_to_errno e
      | _ \<Rightarrow> ipc_error_to_errno e)"

section \<open>Effects\<close>

text \<open>A call on the request connection, and an operation on the disk.\<close>

definition ipc_call :: "'a rcall \<Rightarrow> (('d, 'f) fs, ipc_error, 'a) prog" where
  "ipc_call m = zoom ipc ipc_update m"

definition on_disk :: "('d \<Rightarrow> (io_err + 'a) \<times> 'd) \<Rightarrow> (('d, 'f) fs, io_err, 'a) prog" where
  "on_disk f = (\<lambda>s. let (r, d) = f (disk s) in Some (r, s\<lparr>disk := d\<rparr>))"

definition now_ms :: "('d, 'f) sys \<Rightarrow> ('d, 'f) fs \<Rightarrow> int" where
  "now_ms w s = os_now_ms w (disk s)"

text \<open>\<^verbatim>\<open>fetch_add\<close> on the two counters.\<close>

definition fresh_handle_number :: "('d, 'f, nat) handler" where
  "fresh_handle_number = (\<lambda>s. Some (Inr (next_handle_id s), s\<lparr>next_handle_id := next_handle_id s + 1\<rparr>))"

definition fresh_fh :: "('d, 'f, nat) handler" where
  "fresh_fh = (\<lambda>s. Some (Inr (next_fh s), s\<lparr>next_fh := next_fh s + 1\<rparr>))"

definition handle_name :: "string \<Rightarrow> nat \<Rightarrow> string" where
  "handle_name prefix n = prefix @ fmt_nat n"

definition set_attr_of :: "nat \<Rightarrow> (cached_attr \<Rightarrow> cached_attr) \<Rightarrow> ('d, 'f) fs \<Rightarrow> ('d, 'f) fs" where
  "set_attr_of ino f s = s\<lparr>attrs := hm_adjust ino f (attrs s)\<rparr>"

definition set_handle :: "nat \<Rightarrow> ('f open_handle \<Rightarrow> 'f open_handle) \<Rightarrow> ('d, 'f) fs \<Rightarrow> ('d, 'f) fs" where
  "set_handle fh f s = s\<lparr>open_handles := hm_adjust fh f (open_handles s)\<rparr>"

section \<open>Dropping cached attributes\<close>

definition unsent :: "('d, 'f) fs \<Rightarrow> path list" where
  "unsent s = map oh_remote_path (filter oh_dirty (map snd (open_handles s)))"

definition kept_inodes :: "('d, 'f) fs \<Rightarrow> nat list" where
  "kept_inodes s = List.map_filter (inode_for (paths s)) (unsent s)"

definition view_apply :: "invalidation \<Rightarrow> ('d, 'f) fs \<Rightarrow> ('d, 'f) fs" where
  "view_apply change s =
     (let keep = kept_inodes s
      in case change of
           All \<Rightarrow> s\<lparr>attrs := hm_retain_keys (\<lambda>ino. ino \<in> set keep) (attrs s)\<rparr>
         | Paths roots \<Rightarrow>
             s\<lparr>attrs := fold (\<lambda>ino m. if ino \<notin> set keep then AList.delete ino m else m)
               (inodes_at_or_below (paths s) (set roots)) (attrs s)\<rparr>)"

section \<open>Names\<close>

definition visible_name :: "('d, 'f) fs \<Rightarrow> path \<Rightarrow> string" where
  "visible_name s cp = (case map_of (raw_names s) cp of Some raw \<Rightarrow> raw | None \<Rightarrow> basename cp)"

definition record_raw_name :: "('d, 'f) sys \<Rightarrow> path \<Rightarrow> string \<Rightarrow> ('d, 'f) fs \<Rightarrow> ('d, 'f) fs" where
  "record_raw_name w cp name s =
     (if is_nfc_name (lib w) name then s\<lparr>raw_names := AList.delete cp (raw_names s)\<rparr>
      else s\<lparr>raw_names := AList.update cp name (raw_names s)\<rparr>)"

definition forget_raw_names :: "path \<Rightarrow> ('d, 'f) fs \<Rightarrow> ('d, 'f) fs" where
  "forget_raw_names cp s =
     s\<lparr>raw_names := hm_retain_keys (\<lambda>k. k \<noteq> cp \<and> \<not> starts_with k (cp @ [slash])) (raw_names s)\<rparr>"

definition rename_raw_names :: "path \<Rightarrow> path \<Rightarrow> ('d, 'f) fs \<Rightarrow> ('d, 'f) fs" where
  "rename_raw_names old new s =
     (let prefix = old @ [slash];
          moved = map (\<lambda>(k, v). (new @ slash # drop (length prefix) k, v))
            (filter (\<lambda>(k, _). starts_with k prefix) (raw_names s));
          kept = hm_retain_keys (\<lambda>k. k \<noteq> old \<and> \<not> starts_with k prefix) (raw_names s)
      in s\<lparr>raw_names := hm_extend kept moved\<rparr>)"

section \<open>Listing\<close>

text \<open>The quarantine pass: the representable entries, and one report for each unrepresentable path.\<close>

fun quarantine :: "list_entry list \<Rightarrow> ('d, 'f) fs \<Rightarrow> list_entry list \<times> ('d, 'f) fs" where
  "quarantine [] s = ([], s)"
| "quarantine (e # es) s =
     (if is_representable_component (basename (le_path e)) then
        (let (r, s') = quarantine es s in (e # r, s'))
      else if le_path e \<notin> set (quarantine_warned s) then
        quarantine es (s\<lparr>quarantine_warned := le_path e # quarantine_warned s,
                         quarantine_log := quarantine_log s @ [le_path e]\<rparr>)
      else quarantine es s)"

fun intern_entries :: "list_entry list \<Rightarrow> ('d, 'f) fs \<Rightarrow> (nat \<times> list_entry) list \<times> ('d, 'f) fs" where
  "intern_entries [] s = ([], s)"
| "intern_entries (e # es) s =
     (let (ino, m) = pm_intern (paths s) (le_path e);
          (r, s') = intern_entries es (s\<lparr>paths := m, attrs := AList.update ino (attr_of_entry e) (attrs s)\<rparr>)
      in ((ino, e) # r, s'))"

definition populate_from_list ::
    "('d, 'f) sys \<Rightarrow> path \<Rightarrow> (('d, 'f) fs, ipc_error, (nat \<times> list_entry) list) prog" where
  "populate_from_list w prefix =
     andthen (ipc_call (rc_list (lib w) (rc w) prefix)) (\<lambda>entries s.
       let (representable, s1) = quarantine entries s;
           (out, s2) = intern_entries representable s1
       in Some (Inr out, s2))"

definition root_attr :: cached_attr where
  "root_attr = \<lparr>ca_size = 0, ca_mtime_ms = 0, ca_remote_mtime_ms = None, ca_is_folder = True,
     ca_is_hydrated = False, ca_pending_upload = False\<rparr>"

definition get_or_fetch_attr :: "('d, 'f) sys \<Rightarrow> nat \<Rightarrow> ('d, 'f, cached_attr) handler" where
  "get_or_fetch_attr w inode =
     (if inode = ROOT_INODE then ret root_attr
      else andthen (gets (\<lambda>s. map_of (attrs s) inode)) (\<lambda>cached.
        case cached of
          Some a \<Rightarrow> ret a
        | None \<Rightarrow>
            andthen (gets (\<lambda>s. path_for (paths s) inode)) (\<lambda>p.
            andthen (ok_or ENOENT p) (\<lambda>path.
            andthen (map_err ipc_error_to_errno (populate_from_list w (parent_prefix path))) (\<lambda>_.
            andthen (gets (\<lambda>s. map_of (attrs s) inode)) (ok_or ENOENT))))))"

definition dotdot_inode :: "nat \<Rightarrow> path \<Rightarrow> ('d, 'f, nat) handler" where
  "dotdot_inode dir_inode dir_path =
     (if dir_inode = ROOT_INODE then ret ROOT_INODE
      else (\<lambda>s. let (ino, m) = pm_intern (paths s) (parent_prefix dir_path)
                in Some (Inr ino, s\<lparr>paths := m\<rparr>)))"

definition refuse_nfc_collision :: "('d, 'f) sys \<Rightarrow> path \<Rightarrow> path \<Rightarrow> string \<Rightarrow> ('d, 'f, unit) handler" where
  "refuse_nfc_collision w parent_path cp name =
     andthen (gets (\<lambda>s. visible_name s cp)) (\<lambda>visible.
       if visible = name then ret ()
       else
         andthen (gets (\<lambda>s. case inode_for (paths s) cp of
                              Some ino \<Rightarrow> map_of (attrs s) ino \<noteq> None
                            | None \<Rightarrow> False)) (\<lambda>cached.
         andthen (if cached then ret True
                  else andthen (map_err ipc_error_to_errno (populate_from_list w parent_path)) (\<lambda>listed.
                    ret (list_ex (\<lambda>(_, e). le_path e = cp) listed))) (\<lambda>exists.
           if \<not> exists then ret () else throw EEXIST)))"

text \<open>What the refusal logs: the requested and the visible name, and the code points where they differ.\<close>

definition refusal_report :: "('d, 'f) fs \<Rightarrow> path \<Rightarrow> path \<Rightarrow> string \<Rightarrow> string \<times> string \<times> string \<times> (string \<times> string)" where
  "refusal_report s parent_path cp name =
     (let visible = visible_name s cp
      in (if parent_path = '''' then [slash] else parent_path, name, visible, differing_code_points name visible))"

section \<open>The quota\<close>

definition refresh_quota_if_due :: "('d, 'f) fs \<Rightarrow> ('d, 'f) fs" where
  "refresh_quota_if_due s =
     (let (due, q) = begin_refresh (clock (rc_net (ipc s))) (quota_cache s)
      in if \<not> due then s else s\<lparr>quota_cache := q, quota_tasks := quota_tasks s + 1\<rparr>)"

text \<open>The spawned task, when it is scheduled.\<close>

definition quota_task :: "('d, 'f) sys \<Rightarrow> ('d, 'f, unit) handler" where
  "quota_task w =
     andthen (attempt (ipc_call (rc_daemon_status (lib w) (rc w)))) (\<lambda>r.
       let fetched = (case r of Inr reply \<Rightarrow> from_status reply | Inl _ \<Rightarrow> None)
       in modify (\<lambda>s. s\<lparr>quota_cache := finish_refresh fetched (quota_cache s), quota_tasks := quota_tasks s - 1\<rparr>))"

section \<open>Attributes for the kernel\<close>

definition div_ceil :: "u64 \<Rightarrow> u64 \<Rightarrow> u64" where
  "div_ceil a b = (let d = a div b in if a mod b = 0 then d else d + 1)"

definition file_attr_from_cached :: "('d, 'f) sys \<Rightarrow> nat \<Rightarrow> cached_attr \<Rightarrow> file_attr" where
  "file_attr_from_cached w ino c =
     (let ms = (case ca_remote_mtime_ms c of Some r \<Rightarrow> r | None \<Rightarrow> ca_mtime_ms c);
          secs = ms div 1000;
          nsec = word_of_int (ms mod 1000 * 1000000)
      in \<lparr>fa_ino = ino, fa_size = ca_size c, fa_blocks = div_ceil (ca_size c) 512,
          fa_secs = secs, fa_nsec = nsec,
          fa_kind = (if ca_is_folder c then Directory else RegularFile),
          fa_perm = (if ca_is_folder c then 493 else 420),
          fa_nlink = (if ca_is_folder c then 2 else 1),
          fa_uid = os_uid w, fa_gid = os_gid w, fa_rdev = 0, fa_blksize = 4096\<rparr>)"

end
