(* ===== verification/FuseOps.thy ===== *)
theory FuseOps
  imports FuseState
begin

unbundle bit_operations_syntax

text \<open>
  The request handlers of \<^verbatim>\<open>impl Filesystem for UnidriveFs\<close> in \<^verbatim>\<open>mount/src/fuse_fs.rs\<close>, in the
  order of the code, and \<^verbatim>\<open>create_internal\<close>. A handler returns what the kernel is sent; the constant
  parts of a reply (time to live, generation) are fields of \<open>reply_entry\<close>. Names arrive as byte strings
  (\<^verbatim>\<open>OsStr\<close>) and are refused when they are not UTF-8.
\<close>

section \<open>Replies\<close>

record reply_entry =
  re_ttl_secs :: nat
  re_attr :: file_attr
  re_generation :: nat

record reply_attr =
  ra_ttl_secs :: nat
  ra_attr :: file_attr

record reply_open =
  ro_fh :: nat
  ro_flags :: u32

record reply_created =
  rcr_attr :: file_attr
  rcr_fh :: nat
  rcr_flags :: u32

record dir_entry =
  de_inode :: nat
  de_kind :: file_type
  de_name :: string
  de_offset :: int

record dir_entry_plus = dir_entry +
  dp_attr :: file_attr

record reply_statfs =
  sf_blocks :: u64
  sf_bfree :: u64
  sf_bavail :: u64
  sf_files :: nat
  sf_ffree :: nat
  sf_bsize :: u32
  sf_namelen :: nat
  sf_frsize :: u32

datatype xattr_reply = XSize nat | XData string

definition FOPEN_DIRECT_IO :: u32 where "FOPEN_DIRECT_IO = 1"
definition O_ACCMODE :: u32 where "O_ACCMODE = 3"
definition O_WRONLY :: u32 where "O_WRONLY = 1"
definition O_RDWR :: u32 where "O_RDWR = 2"
definition O_TRUNC :: u32 where "O_TRUNC = 512"
definition S_IFMT :: u32 where "S_IFMT = 61440"
definition S_IFREG :: u32 where "S_IFREG = 32768"

section \<open>Steps the handlers share\<close>

definition name_of :: "string \<Rightarrow> ('d, 'f, string) handler" where
  "name_of name = ok_or EINVAL (os_to_str name)"

definition path_of_inode :: "nat \<Rightarrow> ('d, 'f, path) handler" where
  "path_of_inode ino = andthen (gets (\<lambda>s. path_for (paths s) ino)) (ok_or ENOENT)"

definition handle_of :: "nat \<Rightarrow> ('d, 'f, 'f open_handle) handler" where
  "handle_of fh = andthen (gets (\<lambda>s. map_of (open_handles s) fh)) (ok_or EBADF)"

definition entry_reply :: "('d, 'f) sys \<Rightarrow> nat \<Rightarrow> cached_attr \<Rightarrow> reply_entry" where
  "entry_reply w ino a = \<lparr>re_ttl_secs = 1, re_attr = file_attr_from_cached w ino a, re_generation = 0\<rparr>"

definition truncated_attr :: "int \<Rightarrow> cached_attr \<Rightarrow> cached_attr" where
  "truncated_attr now a = a\<lparr>ca_size := 0, ca_mtime_ms := now, ca_remote_mtime_ms := None\<rparr>"

text \<open>\<^verbatim>\<open>let _ = \<dots>\<close> and \<^verbatim>\<open>if let Err(e) = \<dots>\<close> that only logs.\<close>

definition ignore_err :: "('s, 'e, 'a) prog \<Rightarrow> ('s, 'e2, unit) prog" where
  "ignore_err m = andthen (attempt m) (\<lambda>_. ret ())"

definition upload_handle :: "('d, 'f) sys \<Rightarrow> string \<Rightarrow> path \<Rightarrow> path \<Rightarrow> (('d, 'f) fs, ipc_error, path) prog" where
  "upload_handle w hid remote cache = ipc_call (rc_open_write (lib w) (rc w) hid remote (from_utf8_lossy cache))"

definition close_jvm_handle :: "('d, 'f) sys \<Rightarrow> string \<Rightarrow> (('d, 'f) fs, ipc_error, unit) prog" where
  "close_jvm_handle w hid = ipc_call (rc_close_handle (lib w) (rc w) hid)"

section \<open>Lookup and attributes\<close>

definition fuse_init :: "('d, 'f, nat) handler" where
  "fuse_init = andthen (modify refresh_quota_if_due) (\<lambda>_. ret (2 ^ 20))"

definition lookup :: "('d, 'f) sys \<Rightarrow> nat \<Rightarrow> string \<Rightarrow> ('d, 'f, reply_entry) handler" where
  "lookup w parent name =
     andthen (name_of name) (\<lambda>name.
     andthen (path_of_inode parent) (\<lambda>parent_path.
     let cp = child_path (lib w) parent_path name in
     andthen (gets (\<lambda>s. visible_name s cp)) (\<lambda>visible.
       if visible \<noteq> name then throw ENOENT
       else
         andthen (gets (\<lambda>s. Option.bind (inode_for (paths s) cp) (\<lambda>ino.
                    map_option (\<lambda>a. (ino, a)) (map_of (attrs s) ino)))) (\<lambda>hit.
           case hit of
             Some (ino, a) \<Rightarrow> ret (entry_reply w ino a)
           | None \<Rightarrow>
               andthen (map_err ipc_error_to_errno (populate_from_list w parent_path)) (\<lambda>listed.
                 case find (\<lambda>(_, e). le_path e = cp) listed of
                   Some (ino, e) \<Rightarrow> ret (entry_reply w ino (attr_of_entry e))
                 | None \<Rightarrow> throw ENOENT)))))"

definition getattr :: "('d, 'f) sys \<Rightarrow> nat \<Rightarrow> ('d, 'f, reply_attr) handler" where
  "getattr w inode =
     andthen (get_or_fetch_attr w inode) (\<lambda>a.
       ret \<lparr>ra_ttl_secs = 1, ra_attr = file_attr_from_cached w inode a\<rparr>)"

definition opendir :: "('d, 'f, reply_open) handler" where
  "opendir = ret \<lparr>ro_fh = 0, ro_flags = 0\<rparr>"

section \<open>Opening, reading, writing\<close>

definition open_file :: "('d, 'f) sys \<Rightarrow> nat \<Rightarrow> u32 \<Rightarrow> ('d, 'f, reply_open) handler" where
  "open_file w inode flags =
     andthen (path_of_inode inode) (\<lambda>path.
     if path = '''' then throw EISDIR
     else
       let acc = flags AND O_ACCMODE;
           writable = (acc = O_WRONLY \<or> acc = O_RDWR);
           truncating = (writable \<and> flags AND O_TRUNC \<noteq> 0)
       in
       andthen fresh_handle_number (\<lambda>n.
       let handle_id = handle_name (if writable then ''wh-'' else ''rh-'') n in
       andthen (if truncating
                then map_err namespace_err_to_errno
                       (ipc_call (rc_open_write_begin (lib w) (rc w) path (Some handle_id)))
                else map_err ipc_error_to_errno (ipc_call (rc_open_read (lib w) (rc w) handle_id path))) (\<lambda>cache_path.
       andthen (modify (\<lambda>s.
                 if truncating then set_attr_of inode (truncated_attr (now_ms w s)) s
                 else set_attr_of inode (\<lambda>a. a\<lparr>ca_is_hydrated := True, ca_remote_mtime_ms := None\<rparr>) s)) (\<lambda>_.
       andthen (map_err (\<lambda>_. EIO) (on_disk (if writable then os_open_rw w cache_path else os_open_rd w cache_path)))
         (\<lambda>file.
       andthen (if truncating then ret False
                else andthen (attempt (on_disk (os_len w file))) (\<lambda>meta s.
                  case meta of
                    Inl _ \<Rightarrow> Some (Inr False, s)
                  | Inr len \<Rightarrow>
                      Some (Inr (case map_of (attrs s) inode of Some a \<Rightarrow> ca_size a \<noteq> len | None \<Rightarrow> False),
                            set_attr_of inode (\<lambda>a. a\<lparr>ca_size := len\<rparr>) s))) (\<lambda>size_was_stale.
       andthen fresh_fh (\<lambda>fh.
       andthen (modify (\<lambda>s. s\<lparr>open_handles := AList.update fh
                 \<lparr>oh_file = file, oh_handle_id = handle_id, oh_remote_path = path, oh_cache_path = cache_path,
                  oh_dirty = truncating\<rparr> (open_handles s)\<rparr>)) (\<lambda>_.
         ret \<lparr>ro_fh = fh, ro_flags = if size_was_stale then FOPEN_DIRECT_IO else 0\<rparr>))))))))"

definition read_file :: "('d, 'f) sys \<Rightarrow> nat \<Rightarrow> u64 \<Rightarrow> u32 \<Rightarrow> ('d, 'f, string) handler" where
  "read_file w fh offset sz =
     andthen (handle_of fh) (\<lambda>h.
       map_err (\<lambda>_. EIO) (on_disk (os_read_at w (oh_file h) (unat sz) offset)))"

definition write_file :: "('d, 'f) sys \<Rightarrow> nat \<Rightarrow> nat \<Rightarrow> u64 \<Rightarrow> string \<Rightarrow> ('d, 'f, u32) handler" where
  "write_file w inode fh offset data =
     andthen (handle_of fh) (\<lambda>h.
     andthen (map_err (\<lambda>_. EIO) (on_disk (os_write_at w (oh_file h) data offset))) (\<lambda>n.
     andthen (modify (set_handle fh (\<lambda>h. h\<lparr>oh_dirty := True\<rparr>))) (\<lambda>_.
     let new_end = offset + of_nat n in
     andthen (modify (\<lambda>s. set_attr_of inode (\<lambda>a.
               a\<lparr>ca_size := max (ca_size a) new_end, ca_mtime_ms := now_ms w s, ca_remote_mtime_ms := None\<rparr>) s)) (\<lambda>_.
       ret (of_nat n)))))"

definition fsync :: "('d, 'f) sys \<Rightarrow> nat \<Rightarrow> bool \<Rightarrow> ('d, 'f, unit) handler" where
  "fsync w fh datasync =
     andthen (handle_of fh) (\<lambda>h.
     andthen (map_err (\<lambda>_. EIO)
       (on_disk (if datasync then os_sync_data w (oh_file h) else os_sync_all w (oh_file h)))) (\<lambda>_.
     let was_dirty = oh_dirty h in
     andthen (modify (set_handle fh (\<lambda>h. h\<lparr>oh_dirty := False\<rparr>))) (\<lambda>_.
       if \<not> was_dirty then ret ()
       else
         andthen (attempt (upload_handle w (oh_handle_id h) (oh_remote_path h) (oh_cache_path h))) (\<lambda>upload.
           case upload of
             Inl e \<Rightarrow>
               andthen (modify (set_handle fh (\<lambda>h. h\<lparr>oh_dirty := True\<rparr>))) (\<lambda>_. throw (ipc_error_to_errno e))
           | Inr _ \<Rightarrow> ret ()))))"

definition release :: "('d, 'f) sys \<Rightarrow> nat \<Rightarrow> ('d, 'f, unit) handler" where
  "release w fh =
     andthen (gets (\<lambda>s. map_of (open_handles s) fh)) (\<lambda>removed.
       case removed of
         None \<Rightarrow> ret ()
       | Some h \<Rightarrow>
           andthen (modify (\<lambda>s. s\<lparr>open_handles := AList.delete fh (open_handles s)\<rparr>)) (\<lambda>_.
           andthen (if oh_dirty h
                    then ignore_err (upload_handle w (oh_handle_id h) (oh_remote_path h) (oh_cache_path h))
                    else ret ()) (\<lambda>_.
             ignore_err (close_jvm_handle w (oh_handle_id h)))))"

section \<open>Directories\<close>

definition kind_of :: "list_entry \<Rightarrow> file_type" where
  "kind_of e = (if le_folder e then Directory else RegularFile)"

definition shown_name :: "(path, string) hashmap \<Rightarrow> list_entry \<Rightarrow> string" where
  "shown_name raw e = (case map_of raw (le_path e) of Some r \<Rightarrow> r | None \<Rightarrow> basename (le_path e))"

definition readdir :: "('d, 'f) sys \<Rightarrow> nat \<Rightarrow> int \<Rightarrow> ('d, 'f, dir_entry list) handler" where
  "readdir w parent offset =
     andthen (path_of_inode parent) (\<lambda>parent_path.
     andthen (map_err ipc_error_to_errno (populate_from_list w parent_path)) (\<lambda>listed.
     andthen (dotdot_inode parent parent_path) (\<lambda>dotdot.
     andthen (gets raw_names) (\<lambda>raw.
       let all = [\<lparr>de_inode = parent, de_kind = Directory, de_name = ''.'', de_offset = 1\<rparr>,
                  \<lparr>de_inode = dotdot, de_kind = Directory, de_name = ''..'', de_offset = 2\<rparr>] @
                 map (\<lambda>(i, (ino, e)). \<lparr>de_inode = ino, de_kind = kind_of e, de_name = shown_name raw e,
                                       de_offset = int i + 3\<rparr>) (enumerate 0 listed)
       in ret (drop (nat (max offset 0)) all)))))"

definition readdirplus :: "('d, 'f) sys \<Rightarrow> nat \<Rightarrow> u64 \<Rightarrow> ('d, 'f, dir_entry_plus list) handler" where
  "readdirplus w parent offset =
     andthen (path_of_inode parent) (\<lambda>parent_path.
     andthen (map_err ipc_error_to_errno (populate_from_list w parent_path)) (\<lambda>listed.
     andthen (get_or_fetch_attr w parent) (\<lambda>parent_attr.
     andthen (dotdot_inode parent parent_path) (\<lambda>dotdot.
     andthen (gets raw_names) (\<lambda>raw.
       let all = [\<lparr>de_inode = parent, de_kind = Directory, de_name = ''.'', de_offset = 1,
                   dp_attr = file_attr_from_cached w parent parent_attr\<rparr>,
                  \<lparr>de_inode = dotdot, de_kind = Directory, de_name = ''..'', de_offset = 2,
                   dp_attr = file_attr_from_cached w dotdot parent_attr\<rparr>] @
                 map (\<lambda>(i, (ino, e)). \<lparr>de_inode = ino, de_kind = kind_of e, de_name = shown_name raw e,
                                       de_offset = int i + 3,
                                       dp_attr = file_attr_from_cached w ino (attr_of_entry e)\<rparr>) (enumerate 0 listed)
       in ret (drop (unat offset) all))))))"

section \<open>The namespace\<close>

text \<open>What \<^verbatim>\<open>mkdir\<close> and \<^verbatim>\<open>create_internal\<close> do once the daemon has agreed (and the cache file is
  open).\<close>

definition install_dir :: "('d, 'f) sys \<Rightarrow> path \<Rightarrow> string \<Rightarrow> ('d, 'f, reply_entry) handler" where
  "install_dir w cp name = (\<lambda>s.
     let (new_ino, m) = pm_intern (paths s) cp;
         s1 = record_raw_name w cp name (s\<lparr>paths := m\<rparr>);
         cached = \<lparr>ca_size = 0, ca_mtime_ms = now_ms w s1, ca_remote_mtime_ms = None, ca_is_folder = True,
                   ca_is_hydrated = False, ca_pending_upload = False\<rparr>
     in Some (Inr (entry_reply w new_ino cached), s1\<lparr>attrs := AList.update new_ino cached (attrs s1)\<rparr>))"

definition install_file ::
    "('d, 'f) sys \<Rightarrow> path \<Rightarrow> string \<Rightarrow> create_reply \<Rightarrow> 'f \<Rightarrow> ('d, 'f, nat \<times> file_attr \<times> nat) handler" where
  "install_file w cp name reply file = (\<lambda>s.
     let (new_ino, m) = pm_intern (paths s) cp;
         s1 = record_raw_name w cp name (s\<lparr>paths := m\<rparr>);
         cached = \<lparr>ca_size = 0, ca_mtime_ms = now_ms w s1, ca_remote_mtime_ms = None, ca_is_folder = False,
                   ca_is_hydrated = True, ca_pending_upload = True\<rparr>;
         s2 = s1\<lparr>attrs := AList.update new_ino cached (attrs s1)\<rparr>;
         fh = next_fh s2
     in Some (Inr (fh, file_attr_from_cached w new_ino cached, new_ino),
              s2\<lparr>next_fh := fh + 1, open_handles := AList.update fh
                \<lparr>oh_file = file, oh_handle_id = cr_handle_id reply, oh_remote_path = cp,
                 oh_cache_path = cr_cache_path reply, oh_dirty = True\<rparr> (open_handles s2)\<rparr>))"

definition fuse_mkdir :: "('d, 'f) sys \<Rightarrow> nat \<Rightarrow> string \<Rightarrow> ('d, 'f, reply_entry) handler" where
  "fuse_mkdir w parent_inode name =
     andthen (name_of name) (\<lambda>name.
     andthen (path_of_inode parent_inode) (\<lambda>parent_path.
     let cp = child_path (lib w) parent_path name in
     andthen (refuse_nfc_collision w parent_path cp name) (\<lambda>_.
     andthen (map_err namespace_err_to_errno (ipc_call (rc_mkdir (lib w) (rc w) cp))) (\<lambda>_.
       install_dir w cp name))))"

text \<open>What \<^verbatim>\<open>unlink\<close> and \<^verbatim>\<open>rmdir\<close> do after the daemon has agreed.\<close>

definition drop_entry :: "path \<Rightarrow> ('d, 'f) fs \<Rightarrow> ('d, 'f) fs" where
  "drop_entry cp s =
     (let (ino, m) = pm_forget (paths s) cp;
          s1 = forget_raw_names cp (s\<lparr>paths := m\<rparr>)
      in case ino of
           Some inode \<Rightarrow> s1\<lparr>attrs := AList.delete inode (attrs s1)\<rparr>
         | None \<Rightarrow> s1)"

definition evict :: "(path \<Rightarrow> 'd \<Rightarrow> (io_err + unit) \<times> 'd) \<Rightarrow> path \<Rightarrow> ('d, 'f, unit) handler" where
  "evict remove cp =
     andthen (gets cache_root) (\<lambda>root.
       case root of
         Some r \<Rightarrow> ignore_err (on_disk (remove (path_join r (trim_start_slash cp))))
       | None \<Rightarrow> ret ())"

definition fuse_unlink :: "('d, 'f) sys \<Rightarrow> nat \<Rightarrow> string \<Rightarrow> ('d, 'f, unit) handler" where
  "fuse_unlink w parent_inode name =
     andthen (name_of name) (\<lambda>name.
     andthen (path_of_inode parent_inode) (\<lambda>parent_path.
     let cp = child_path (lib w) parent_path name in
     andthen (map_err namespace_err_to_errno (ipc_call (rc_unlink (lib w) (rc w) cp))) (\<lambda>_.
     andthen (modify (drop_entry cp)) (\<lambda>_. evict (os_remove_file w) cp))))"

definition fuse_rmdir :: "('d, 'f) sys \<Rightarrow> nat \<Rightarrow> string \<Rightarrow> ('d, 'f, unit) handler" where
  "fuse_rmdir w parent_inode name =
     andthen (name_of name) (\<lambda>name.
     andthen (path_of_inode parent_inode) (\<lambda>parent_path.
     let cp = child_path (lib w) parent_path name in
     andthen (map_err namespace_err_to_errno (ipc_call (rc_rmdir (lib w) (rc w) cp))) (\<lambda>_.
     andthen (modify (drop_entry cp)) (\<lambda>_. evict (os_remove_dir_all w) cp))))"

definition create_internal :: "('d, 'f) sys \<Rightarrow> nat \<Rightarrow> string \<Rightarrow> ('d, 'f, nat \<times> file_attr \<times> nat) handler" where
  "create_internal w parent_inode name =
     andthen (name_of name) (\<lambda>name.
     andthen (path_of_inode parent_inode) (\<lambda>parent_path.
     let cp = child_path (lib w) parent_path name in
     andthen (refuse_nfc_collision w parent_path cp name) (\<lambda>_.
     andthen fresh_handle_number (\<lambda>n.
     andthen (map_err namespace_err_to_errno (ipc_call (rc_create (lib w) (rc w) (handle_name ''create-'' n) cp))) (\<lambda>reply.
     andthen (map_err (\<lambda>_. EIO) (on_disk (os_open_create w (cr_cache_path reply))))
       (install_file w cp name reply))))))"

definition fuse_create :: "('d, 'f) sys \<Rightarrow> nat \<Rightarrow> string \<Rightarrow> ('d, 'f, reply_created) handler" where
  "fuse_create w parent_inode name =
     andthen (create_internal w parent_inode name) (\<lambda>(fh, attr, new_ino).
       ret \<lparr>rcr_attr = attr, rcr_fh = fh, rcr_flags = 0\<rparr>)"

definition mknod :: "('d, 'f) sys \<Rightarrow> nat \<Rightarrow> string \<Rightarrow> u32 \<Rightarrow> ('d, 'f, reply_entry) handler" where
  "mknod w parent_inode name mode =
     (let typ = mode AND S_IFMT in
      if typ \<noteq> 0 \<and> typ \<noteq> S_IFREG then throw EPERM
      else
        andthen (create_internal w parent_inode name) (\<lambda>(fh, attr, new_ino).
        andthen (gets (\<lambda>s. map_of (open_handles s) fh)) (\<lambda>removed.
        andthen (modify (\<lambda>s. s\<lparr>open_handles := AList.delete fh (open_handles s)\<rparr>)) (\<lambda>_.
        andthen (case removed of
                   None \<Rightarrow> ret ()
                 | Some h \<Rightarrow>
                     andthen (ignore_err (upload_handle w (oh_handle_id h) (oh_remote_path h) (oh_cache_path h))) (\<lambda>_.
                       ignore_err (close_jvm_handle w (oh_handle_id h)))) (\<lambda>_.
          ret \<lparr>re_ttl_secs = 1, re_attr = attr, re_generation = 0\<rparr>)))))"

definition fuse_rename :: "('d, 'f) sys \<Rightarrow> nat \<Rightarrow> string \<Rightarrow> nat \<Rightarrow> string \<Rightarrow> ('d, 'f, unit) handler" where
  "fuse_rename w old_parent_inode old_name new_parent_inode new_name =
     andthen (name_of old_name) (\<lambda>old_name.
     andthen (name_of new_name) (\<lambda>new_name.
     andthen (path_of_inode old_parent_inode) (\<lambda>old_parent.
     andthen (path_of_inode new_parent_inode) (\<lambda>new_parent.
     let old_path = child_path (lib w) old_parent old_name;
         new_path = child_path (lib w) new_parent new_name in
     andthen (refuse_nfc_collision w new_parent new_path new_name) (\<lambda>_.
     andthen (map_err namespace_err_to_errno (ipc_call (rc_rename (lib w) (rc w) old_path new_path))) (\<lambda>_.
       modify (\<lambda>s.
         let s1 = s\<lparr>paths := pm_rename (paths s) old_path new_path\<rparr>;
             s2 = s1\<lparr>open_handles := map (\<lambda>(fh, h). (fh, follow_rename old_path new_path h)) (open_handles s1)\<rparr>
         in record_raw_name w new_path new_name (rename_raw_names old_path new_path s2))))))))"

section \<open>Truncating\<close>

text \<open>The part of \<^verbatim>\<open>setattr\<close> for a size of zero and for a positive size.\<close>

definition truncate_handle :: "('d, 'f) sys \<Rightarrow> nat \<Rightarrow> u64 \<Rightarrow> ('d, 'f, unit) handler" where
  "truncate_handle w fh sz =
     andthen (handle_of fh) (\<lambda>h.
     andthen (map_err (\<lambda>_. EIO) (on_disk (os_set_len w (oh_file h) sz))) (\<lambda>_.
       modify (set_handle fh (\<lambda>h. h\<lparr>oh_dirty := True\<rparr>))))"

text \<open>Without a file handle the truncation is committed at once, under a synthetic handle id.\<close>

definition commit_and_close :: "('d, 'f) sys \<Rightarrow> string \<Rightarrow> path \<Rightarrow> path \<Rightarrow> ('d, 'f, unit) handler" where
  "commit_and_close w handle_id path cache_path =
     andthen (attempt (upload_handle w handle_id path cache_path)) (\<lambda>upload.
     andthen (ignore_err (close_jvm_handle w handle_id)) (\<lambda>_.
       case upload of Inl e \<Rightarrow> throw (ipc_error_to_errno e) | Inr _ \<Rightarrow> ret ()))"

definition bare_truncate_zero :: "('d, 'f) sys \<Rightarrow> path \<Rightarrow> ('d, 'f, unit) handler" where
  "bare_truncate_zero w path =
     andthen (map_err namespace_err_to_errno (ipc_call (rc_open_write_begin (lib w) (rc w) path None))) (\<lambda>cp.
     andthen fresh_handle_number (\<lambda>n.
       commit_and_close w (handle_name ''trunc0-'' n) path cp))"

definition close_and_fail :: "('d, 'f) sys \<Rightarrow> string \<Rightarrow> ('d, 'f, unit) handler" where
  "close_and_fail w handle_id = andthen (ignore_err (close_jvm_handle w handle_id)) (\<lambda>_. throw EIO)"

definition bare_truncate_size :: "('d, 'f) sys \<Rightarrow> string \<Rightarrow> path \<Rightarrow> u64 \<Rightarrow> ('d, 'f, unit) handler" where
  "bare_truncate_size w handle_id path new_size =
     andthen (map_err ipc_error_to_errno (ipc_call (rc_open_read (lib w) (rc w) handle_id path))) (\<lambda>cache_path.
     andthen (attempt (on_disk (os_open_w w cache_path))) (\<lambda>open_result.
       case open_result of
         Inl _ \<Rightarrow> close_and_fail w handle_id
       | Inr file \<Rightarrow>
           andthen (attempt (on_disk (os_set_len w file new_size))) (\<lambda>set_len.
             case set_len of
               Inl _ \<Rightarrow> close_and_fail w handle_id
             | Inr _ \<Rightarrow> commit_and_close w handle_id path cache_path)))"

definition truncate_to_zero :: "('d, 'f) sys \<Rightarrow> nat \<Rightarrow> path \<Rightarrow> nat option \<Rightarrow> ('d, 'f, unit) handler" where
  "truncate_to_zero w inode path fh =
     andthen (case fh of Some fh \<Rightarrow> truncate_handle w fh 0 | None \<Rightarrow> bare_truncate_zero w path) (\<lambda>_.
       modify (\<lambda>s. set_attr_of inode (truncated_attr (now_ms w s)) s))"

definition truncate_to_size :: "('d, 'f) sys \<Rightarrow> nat \<Rightarrow> path \<Rightarrow> nat option \<Rightarrow> u64 \<Rightarrow> ('d, 'f, unit) handler" where
  "truncate_to_size w inode path fh new_size =
     andthen (case fh of
                Some fh \<Rightarrow> truncate_handle w fh new_size
              | None \<Rightarrow>
                  andthen fresh_handle_number (\<lambda>n.
                    bare_truncate_size w (handle_name ''truncN-'' n) path new_size)) (\<lambda>_.
       modify (\<lambda>s. set_attr_of inode (\<lambda>a. a\<lparr>ca_size := new_size, ca_mtime_ms := now_ms w s,
         ca_is_hydrated := True, ca_remote_mtime_ms := None\<rparr>) s))"

definition setattr :: "('d, 'f) sys \<Rightarrow> nat \<Rightarrow> nat option \<Rightarrow> u64 option \<Rightarrow> ('d, 'f, reply_attr) handler" where
  "setattr w inode fh new_size =
     andthen (path_of_inode inode) (\<lambda>path.
     andthen (case new_size of
                None \<Rightarrow> ret ()
              | Some new_size \<Rightarrow>
                  if new_size = 0 then truncate_to_zero w inode path fh
                  else truncate_to_size w inode path fh new_size) (\<lambda>_.
       getattr w inode))"

section \<open>Volume and extended attributes\<close>

definition statfs :: "('d, 'f, reply_statfs) handler" where
  "statfs =
     andthen (modify refresh_quota_if_due) (\<lambda>_.
     andthen (gets (\<lambda>s. statfs_blocks (quota_current (quota_cache s)))) (\<lambda>(blocks, bfree).
       ret \<lparr>sf_blocks = blocks, sf_bfree = bfree, sf_bavail = bfree, sf_files = 2 ^ 20, sf_ffree = 2 ^ 20,
            sf_bsize = ucast BLOCK_SIZE, sf_namelen = 255, sf_frsize = ucast BLOCK_SIZE\<rparr>))"

text \<open>The size probe: the 32-bit length in the machine's byte order (little endian), padded to eight
  bytes.\<close>

definition getxattr_size_reply :: "nat \<Rightarrow> xattr_reply" where
  "getxattr_size_reply len =
     XData (map (\<lambda>i. char_of ((len div 256 ^ i) mod 256)) [0..<4] @ replicate 4 CHR 0x00)"

definition xattr_value :: "('d, 'f) fs \<Rightarrow> nat \<Rightarrow> string \<Rightarrow> string option" where
  "xattr_value s inode name =
     (if name = ''user.unidrive.hydrated'' then
        (case map_of (attrs s) inode of
           Some c \<Rightarrow> if ca_is_hydrated c then Some ''1'' else Some ''0''
         | None \<Rightarrow> Some ''0'')
      else if name = ''user.xdg.comment'' then Option.bind (map_of (attrs s) inode) state_comment
      else None)"

definition getxattr :: "nat \<Rightarrow> string \<Rightarrow> u32 \<Rightarrow> ('d, 'f, xattr_reply) handler" where
  "getxattr inode name sz =
     andthen (ok_or ENODATA (os_to_str name)) (\<lambda>name.
     andthen (gets (\<lambda>s. xattr_value s inode name)) (\<lambda>value.
     andthen (ok_or ENODATA value) (\<lambda>val.
       if sz = 0 then ret (getxattr_size_reply (length val))
       else if unat sz < length val then throw ERANGE
       else ret (XData val))))"

definition XATTR_NAMES :: string where
  "XATTR_NAMES = ''user.unidrive.hydrated'' @ [CHR 0x00] @ ''user.xdg.comment'' @ [CHR 0x00]"

definition listxattr :: "u32 \<Rightarrow> ('d, 'f, xattr_reply) handler" where
  "listxattr sz =
     (if sz = 0 then ret (XSize (length XATTR_NAMES))
      else if unat sz \<ge> length XATTR_NAMES then ret (XData XATTR_NAMES)
      else throw ERANGE)"

definition setxattr :: "('d, 'f, unit) handler" where
  "setxattr = ret ()"

definition removexattr :: "('d, 'f, unit) handler" where
  "removexattr = ret ()"

section \<open>Successful steps\<close>

lemma res_or_Inr [simp]: "res_or e x = Inr v \<longleftrightarrow> x = Some v" "Inr v = res_or e x \<longleftrightarrow> x = Some v"
  by (auto simp: res_or_def split: option.splits)

lemma name_of_Some: "name_of n s = Some (Inr m, s') \<longleftrightarrow> m = n \<and> s' = s \<and> valid_utf8 n"
  by (auto simp: name_of_def ok_or_Some os_to_str_def)

lemma path_of_inode_Some: "path_of_inode i s = Some (Inr p, s') \<longleftrightarrow> path_for (paths s) i = Some p \<and> s' = s"
  by (auto simp: path_of_inode_def ok_or_Some)

lemma handle_of_Some: "handle_of fh s = Some (Inr h, s') \<longleftrightarrow> map_of (open_handles s) fh = Some h \<and> s' = s"
  by (auto simp: handle_of_def ok_or_Some)

lemma on_disk_Some: "on_disk f s = Some (r, s') \<longleftrightarrow> (\<exists>d. f (disk s) = (r, d) \<and> s' = s\<lparr>disk := d\<rparr>)"
  by (auto simp: on_disk_def Let_def split: prod.splits)

lemma fresh_handle_number_Some:
  "fresh_handle_number s = Some (r, s') \<longleftrightarrow> r = Inr (next_handle_id s) \<and> s' = s\<lparr>next_handle_id := next_handle_id s + 1\<rparr>"
  by (auto simp: fresh_handle_number_def)

lemmas step_Some = name_of_Some path_of_inode_Some handle_of_Some on_disk_Some fresh_handle_number_Some simple_Some

lemma create_internal_Inr:
  "create_internal w i name s = Some (Inr v, s') \<longleftrightarrow>
     (\<exists>pp s1 reply s2 file d. valid_utf8 name \<and> path_for (paths s) i = Some pp \<and>
        refuse_nfc_collision w pp (child_path (lib w) pp name) name s = Some (Inr (), s1) \<and>
        ipc_call (rc_create (lib w) (rc w) (handle_name ''create-'' (next_handle_id s1)) (child_path (lib w) pp name))
          (s1\<lparr>next_handle_id := next_handle_id s1 + 1\<rparr>) = Some (Inr reply, s2) \<and>
        os_open_create w (cr_cache_path reply) (disk s2) = (Inr file, d) \<and>
        install_file w (child_path (lib w) pp name) name reply file (s2\<lparr>disk := d\<rparr>) = Some (Inr v, s'))"
  unfolding create_internal_def Let_def
  by (simp add: andthen_Inr step_Some) metis

end
