(* ===== verification/FuseInv.thy ===== *)
theory FuseInv
  imports FuseOps
begin

text \<open>
  The invariant of the file system's state, and that every request handler and every background step
  keeps it: the path map is a bijection, file handles are fresh, every cached attribute belongs to an
  inode that was handed out, and every quarantined name was reported once.
\<close>

definition fs_inv :: "('d, 'f) fs \<Rightarrow> bool" where
  "fs_inv s \<longleftrightarrow>
     pm_inv (paths s) \<and>
     distinct (map fst (open_handles s)) \<and> (\<forall>fh h. map_of (open_handles s) fh = Some h \<longrightarrow> fh < next_fh s) \<and>
     distinct (map fst (attrs s)) \<and> (\<forall>ino a. map_of (attrs s) ino = Some a \<longrightarrow> ino < pm_next (paths s)) \<and>
     distinct (quarantine_log s) \<and> set (quarantine_log s) = set (quarantine_warned s)"

lemma fs_inv_simps [simp]:
  "fs_inv (s\<lparr>ipc := c\<rparr>) = fs_inv s" "fs_inv (s\<lparr>disk := d\<rparr>) = fs_inv s"
  "fs_inv (s\<lparr>raw_names := rn\<rparr>) = fs_inv s" "fs_inv (s\<lparr>next_handle_id := k\<rparr>) = fs_inv s"
  "fs_inv (s\<lparr>quota_cache := q\<rparr>) = fs_inv s" "fs_inv (s\<lparr>quota_tasks := t\<rparr>) = fs_inv s"
  by (simp_all add: fs_inv_def)

lemma fs_inv_paths [simp]: "fs_inv s \<Longrightarrow> pm_inv (paths s)"
  by (simp add: fs_inv_def)

lemma fs_new_inv: "fs_inv (fs_new c d)"
  by (simp add: fs_inv_def fs_new_def pm_new_inv)

section \<open>Steps on the state\<close>

lemma fs_inv_intern:
  assumes "fs_inv s" and "pm_intern (paths s) p = (ino, m)"
  shows "fs_inv (s\<lparr>paths := m\<rparr>)" and "ino < pm_next m"
  using assms pm_intern_inv [of "paths s" p] pm_intern_next [of "paths s" p] pm_intern_fst_less [of "paths s" p]
  by (auto simp: fs_inv_def) (meson less_le_trans)

lemma fs_inv_attr:
  "fs_inv s \<Longrightarrow> ino < pm_next (paths s) \<Longrightarrow> fs_inv (s\<lparr>attrs := AList.update ino a (attrs s)\<rparr>)"
  by (auto simp: fs_inv_def)

lemma fs_inv_drop_attr: "fs_inv s \<Longrightarrow> fs_inv (s\<lparr>attrs := AList.delete ino (attrs s)\<rparr>)"
  by (auto simp: fs_inv_def)

lemma set_attr_of_inv [simp]: "fs_inv (set_attr_of ino f s) = fs_inv s"
  and set_handle_inv [simp]: "fs_inv (set_handle fh g s) = fs_inv s"
  by (auto simp: fs_inv_def set_attr_of_def set_handle_def split: if_splits)

lemma record_raw_name_inv [simp]: "fs_inv (record_raw_name w cp name s) = fs_inv s"
  and forget_raw_names_inv [simp]: "fs_inv (forget_raw_names cp s) = fs_inv s"
  and rename_raw_names_inv [simp]: "fs_inv (rename_raw_names old new s) = fs_inv s"
  by (simp_all add: record_raw_name_def forget_raw_names_def rename_raw_names_def Let_def)

lemma raw_name_steps [simp]:
  "paths (record_raw_name w cp name s) = paths s" "attrs (record_raw_name w cp name s) = attrs s"
  "open_handles (record_raw_name w cp name s) = open_handles s" "next_fh (record_raw_name w cp name s) = next_fh s"
  "disk (record_raw_name w cp name s) = disk s" "ipc (record_raw_name w cp name s) = ipc s"
  "paths (forget_raw_names cp s) = paths s" "attrs (forget_raw_names cp s) = attrs s"
  "open_handles (forget_raw_names cp s) = open_handles s" "ipc (forget_raw_names cp s) = ipc s"
  "paths (rename_raw_names old new s) = paths s" "attrs (rename_raw_names old new s) = attrs s"
  "open_handles (rename_raw_names old new s) = open_handles s" "ipc (rename_raw_names old new s) = ipc s"
  by (simp_all add: record_raw_name_def forget_raw_names_def rename_raw_names_def Let_def)

lemma fs_inv_new_handle:
  "fs_inv s \<Longrightarrow> fs_inv (s\<lparr>next_fh := next_fh s + 1, open_handles := AList.update (next_fh s) h (open_handles s)\<rparr>)"
  by (auto simp: fs_inv_def less_Suc_eq)

lemma fs_inv_drop_handle: "fs_inv s \<Longrightarrow> fs_inv (s\<lparr>open_handles := AList.delete fh (open_handles s)\<rparr>)"
  by (auto simp: fs_inv_def)

lemma drop_entry_inv:
  assumes "fs_inv s" and "cp \<noteq> ''''"
  shows "fs_inv (drop_entry cp s)"
proof -
  let ?s = "forget_raw_names cp (s\<lparr>paths := snd (pm_forget (paths s) cp)\<rparr>)"
  have "fs_inv (s\<lparr>paths := snd (pm_forget (paths s) cp)\<rparr>)"
    using assms pm_forget_inv [of "paths s" cp] by (auto simp: fs_inv_def)
  then have "fs_inv ?s" by simp
  then have "fs_inv (?s\<lparr>attrs := AList.delete i (attrs ?s)\<rparr>)" for i
    by (rule fs_inv_drop_attr)
  with \<open>fs_inv ?s\<close> show ?thesis
    by (auto simp: drop_entry_def Let_def split: prod.splits option.splits)
qed

lemma fold_delete_unkept:
  "map_of (fold (\<lambda>i m. if i \<notin> K then AList.delete i m else m) is m) j =
     (if j \<in> set is \<and> j \<notin> K then None else map_of m j)"
  "distinct (map fst m) \<Longrightarrow> distinct (map fst (fold (\<lambda>i m. if i \<notin> K then AList.delete i m else m) is m))"
  by (induction "is" arbitrary: m) auto

lemma view_apply_inv: "fs_inv s \<Longrightarrow> fs_inv (view_apply change s)"
  unfolding fs_inv_def view_apply_def Let_def
  by (cases change) (auto simp: fold_delete_unkept split: if_splits)

section \<open>Helpers keep the invariant\<close>

lemma keeps_ipc_call [keeps_rules]: "keeps fs_inv (ipc_call m)"
  unfolding ipc_call_def by (rule keeps_zoom) simp

lemma keeps_on_disk [keeps_rules]: "keeps fs_inv (on_disk f)"
  by (rule keepsI) (auto simp: on_disk_def Let_def split: prod.splits)

lemma keeps_simple_steps [keeps_rules]:
  "keeps fs_inv (name_of n)" "keeps fs_inv (path_of_inode i)" "keeps fs_inv (handle_of fh)"
  unfolding name_of_def path_of_inode_def handle_of_def by (intro keeps_rules)+

lemma keeps_fresh_handle_number [keeps_rules]: "keeps fs_inv fresh_handle_number"
  by (auto simp: keeps_def fresh_handle_number_def)

lemma keeps_ignore_err [keeps_rules]: "keeps I m \<Longrightarrow> keeps I (ignore_err m)"
  unfolding ignore_err_def by (intro keeps_rules)

lemma keeps_uploads [keeps_rules]: "keeps fs_inv (upload_handle w h p c)" "keeps fs_inv (close_jvm_handle w h)"
  unfolding upload_handle_def close_jvm_handle_def by (intro keeps_rules)+

lemma quarantine_inv: "fs_inv s \<Longrightarrow> fs_inv (snd (quarantine es s))"
proof (induction es s rule: quarantine.induct)
  case (2 e es s)
  have "fs_inv (s\<lparr>quarantine_warned := le_path e # quarantine_warned s, quarantine_log := quarantine_log s @ [le_path e]\<rparr>)"
    if "le_path e \<notin> set (quarantine_warned s)"
    using that 2(4) by (auto simp: fs_inv_def)
  with 2 show ?case by (auto split: prod.splits)
qed simp

lemma intern_entries_inv: "fs_inv s \<Longrightarrow> fs_inv (snd (intern_entries es s))"
proof (induction es arbitrary: s)
  case (Cons e es)
  obtain ino m where im: "pm_intern (paths s) (le_path e) = (ino, m)" by fastforce
  let ?s = "s\<lparr>paths := m, attrs := AList.update ino (attr_of_entry e) (attrs s)\<rparr>"
  have "fs_inv ?s"
    using fs_inv_intern [OF Cons.prems im] fs_inv_attr [of "s\<lparr>paths := m\<rparr>" ino] by simp
  from Cons.IH [OF this] im show ?case by (simp add: case_prod_beta Let_def)
qed simp

lemma keeps_populate [keeps_rules]: "keeps fs_inv (populate_from_list w p)"
proof -
  have "keeps fs_inv (\<lambda>s. let (representable, s1) = quarantine entries s; (out, s2) = intern_entries representable s1
      in Some (Inr out, s2))" for entries
    by (intro keepsI) (auto simp: case_prod_beta Let_def intro: quarantine_inv intern_entries_inv)
  then show ?thesis unfolding populate_from_list_def by (intro keeps_rules)
qed

lemma keeps_fetch [keeps_rules]: "keeps fs_inv (get_or_fetch_attr w i)"
  unfolding get_or_fetch_attr_def by (intro keeps_rules)

lemma keeps_dotdot [keeps_rules]: "keeps fs_inv (dotdot_inode i p)"
proof -
  have "keeps fs_inv (\<lambda>s. let (ino, m) = pm_intern (paths s) (parent_prefix p) in Some (Inr ino, s\<lparr>paths := m\<rparr>))"
    by (intro keepsI) (auto intro: fs_inv_intern(1) split: prod.splits)
  then show ?thesis unfolding dotdot_inode_def by (intro keeps_rules)
qed

lemma keeps_refuse [keeps_rules]: "keeps fs_inv (refuse_nfc_collision w p cp n)"
  unfolding refuse_nfc_collision_def by (intro keeps_rules)

lemma refresh_quota_inv [simp]: "fs_inv (refresh_quota_if_due s) = fs_inv s"
  by (auto simp: refresh_quota_if_due_def Let_def split: prod.splits)

section \<open>Handlers keep the invariant\<close>

lemma keeps_lookup: "keeps fs_inv (lookup w i n)"
  and keeps_getattr [keeps_rules]: "keeps fs_inv (getattr w i)"
  and keeps_read: "keeps fs_inv (read_file w fh off sz)"
  and keeps_readdir: "keeps fs_inv (readdir w i o1)"
  and keeps_readdirplus: "keeps fs_inv (readdirplus w i o2)"
  and keeps_getxattr: "keeps fs_inv (getxattr i n sz)"
  and keeps_listxattr: "keeps fs_inv (listxattr sz)"
  unfolding lookup_def getattr_def read_file_def readdir_def readdirplus_def getxattr_def listxattr_def Let_def
  by (intro keeps_rules)+

lemma keeps_write: "keeps fs_inv (write_file w i fh off data)"
  and keeps_fsync: "keeps fs_inv (fsync w fh ds)"
  and keeps_release: "keeps fs_inv (release w fh)"
  and keeps_statfs: "keeps fs_inv statfs"
  and keeps_init: "keeps fs_inv fuse_init"
  and keeps_quota_task: "keeps fs_inv (quota_task w)"
  unfolding write_file_def fsync_def release_def statfs_def fuse_init_def quota_task_def Let_def
  by (intro keeps_rules keeps_modify; simp add: fs_inv_drop_handle)+

lemma keeps_truncates [keeps_rules]:
  "keeps fs_inv (truncate_handle w fh sz)" "keeps fs_inv (truncate_to_zero w i p ofh)"
  "keeps fs_inv (truncate_to_size w i p ofh sz)"
  unfolding truncate_to_zero_def truncate_to_size_def truncate_handle_def bare_truncate_zero_def bare_truncate_size_def
    commit_and_close_def close_and_fail_def
  by (intro keeps_rules keeps_modify; simp)+

lemma keeps_setattr: "keeps fs_inv (setattr w i ofh sz)"
  unfolding setattr_def by (intro keeps_rules)

lemma keeps_open: "keeps fs_inv (open_file w i flags)"
proof -
  have finish: "keeps fs_inv (andthen fresh_fh (\<lambda>fh. andthen (modify (\<lambda>s. s\<lparr>open_handles :=
      AList.update fh h (open_handles s)\<rparr>)) (\<lambda>_. ret \<lparr>ro_fh = fh, ro_flags = g\<rparr>)))" for h :: "'b open_handle" and g
    by (intro keepsI) (auto simp: andthen_Some fresh_fh_def modify_def ret_def dest: fs_inv_new_handle)
  have stat: "keeps fs_inv (\<lambda>s. case meta of
       Inl _ \<Rightarrow> Some (Inr False, s)
     | Inr len \<Rightarrow> Some (Inr (case map_of (attrs s) i of Some a \<Rightarrow> ca_size a \<noteq> len | None \<Rightarrow> False),
                       set_attr_of i (\<lambda>a. a\<lparr>ca_size := len\<rparr>) s))" for meta :: "io_err + u64"
    by (intro keepsI) (auto split: sum.splits)
  show ?thesis
    unfolding open_file_def Let_def
    by (intro finish stat keeps_rules keeps_modify; simp)
qed

text \<open>A new entry: interned, named, cached; and with a handle on it.\<close>

lemma fs_inv_new_entry:
  assumes "fs_inv s" and "pm_intern (paths s) cp = (ino, m)"
  shows "fs_inv ((record_raw_name w cp name (s\<lparr>paths := m\<rparr>))\<lparr>attrs := AList.update ino a (attrs s)\<rparr>)"
  using fs_inv_intern [OF assms] fs_inv_attr [of "record_raw_name w cp name (s\<lparr>paths := m\<rparr>)" ino a] by simp

lemma fs_inv_new_entry_handle:
  assumes "fs_inv s" and "pm_intern (paths s) cp = (ino, m)"
  shows "fs_inv ((record_raw_name w cp name (s\<lparr>paths := m\<rparr>))\<lparr>attrs := AList.update ino a (attrs s),
    next_fh := Suc (next_fh s), open_handles := AList.update (next_fh s) h (open_handles s)\<rparr>)"
  using fs_inv_new_handle [OF fs_inv_new_entry [OF assms, where w = w and name = name and a = a], of h] by simp

lemma keeps_install [keeps_rules]:
  "keeps fs_inv (install_dir w cp name)" "keeps fs_inv (install_file w cp name reply file)"
  by (auto simp: keeps_def install_dir_def install_file_def Let_def
      intro: fs_inv_new_entry fs_inv_new_entry_handle split: prod.splits)

lemma keeps_mkdir: "keeps fs_inv (fuse_mkdir w i n)"
  unfolding fuse_mkdir_def Let_def by (intro keeps_rules)

lemma keeps_evict [keeps_rules]: "keeps fs_inv (evict remove cp)"
  unfolding evict_def by (intro keeps_rules)

lemma keeps_unlink: "keeps fs_inv (fuse_unlink w i n)"
  and keeps_rmdir: "keeps fs_inv (fuse_rmdir w i n)"
  unfolding fuse_unlink_def fuse_rmdir_def Let_def
  by (intro keeps_rules keeps_modify drop_entry_inv; simp)+

lemma keeps_create_internal [keeps_rules]: "keeps fs_inv (create_internal w i n)"
  unfolding create_internal_def Let_def by (intro keeps_rules)

lemma keeps_create: "keeps fs_inv (fuse_create w i n)"
  and keeps_mknod: "keeps fs_inv (mknod w i n mode)"
  unfolding fuse_create_def mknod_def Let_def
  by (intro keeps_rules keeps_modify; simp add: fs_inv_drop_handle)+

lemma map_of_map_snd: "map_of (map (\<lambda>(k, v). (k, f v)) m) k = map_option f (map_of m k)"
  by (induction m) auto

lemma keeps_rename: "keeps fs_inv (fuse_rename w i n j k)"
proof -
  have keys: "map fst (map (\<lambda>(k, v). (k, f v)) m) = map fst m" for f :: "'f open_handle \<Rightarrow> 'f open_handle"
    and m :: "(nat, 'f open_handle) hashmap"
    by (induction m) auto
  have step: "fs_inv (s\<lparr>paths := pm_rename (paths s) old new,
      open_handles := map (\<lambda>(fh, h). (fh, follow_rename old new h)) (open_handles s)\<rparr>)"
    if "fs_inv s" "old \<noteq> ''''" "new \<noteq> ''''" for s :: "('d, 'f) fs" and old new
    using that pm_rename_inv [of "paths s" old new]
    by (auto simp: fs_inv_def keys map_of_map_snd simp del: map_map)
  show ?thesis
    unfolding fuse_rename_def Let_def
    by (intro keeps_rules keeps_modify) (auto intro: step)
qed

end
