(* ===== verification/FuseToy.thy ===== *)
theory FuseToy
  imports FuseOps
begin

text \<open>
  A small world to run the file system in, for concrete instances of the theorems: a disk of named byte
  strings, an open file being its name, and a daemon that has already accepted the connection and will
  send the given reply lines.
\<close>

type_synonym toy_disk = "(path, string) hashmap"

definition toy_put :: "path \<Rightarrow> string \<Rightarrow> toy_disk \<Rightarrow> toy_disk" where
  "toy_put p c d = AList.update p c d"

definition toy_open :: "path \<Rightarrow> toy_disk \<Rightarrow> (io_err + path) \<times> toy_disk" where
  "toy_open p d = (if map_of d p = None then (Inl NotFound, d) else (Inr p, d))"

definition toy_write :: "path \<Rightarrow> string \<Rightarrow> u64 \<Rightarrow> toy_disk \<Rightarrow> (io_err + nat) \<times> toy_disk" where
  "toy_write f b off d =
     (case map_of d f of
        None \<Rightarrow> (Inl NotFound, d)
      | Some c \<Rightarrow> (Inr (length b), toy_put f (take (unat off) c @ b @ drop (unat off + length b) c) d))"

definition toy_sys :: "(toy_disk, path) sys" where
  "toy_sys = \<lparr>lib = toy_ext, rc = toy_cfg,
     os_open_rd = toy_open, os_open_rw = toy_open, os_open_w = toy_open,
     os_open_create = (\<lambda>p d. (Inr p, toy_put p '''' d)),
     os_len = (\<lambda>f d. (case map_of d f of Some c \<Rightarrow> Inr (of_nat (length c)) | None \<Rightarrow> Inl NotFound, d)),
     os_read_at = (\<lambda>f n off d.
       (case map_of d f of Some c \<Rightarrow> Inr (take n (drop (unat off) c)) | None \<Rightarrow> Inl NotFound, d)),
     os_write_at = toy_write,
     os_set_len = (\<lambda>f n d. (case map_of d f of
        Some c \<Rightarrow> (Inr (), toy_put f (take (unat n) c) d) | None \<Rightarrow> (Inl NotFound, d))),
     os_sync_all = (\<lambda>f d. (Inr (), d)), os_sync_data = (\<lambda>f d. (Inr (), d)),
     os_remove_file = (\<lambda>p d. (if map_of d p = None then Inl NotFound else Inr (), AList.delete p d)),
     os_remove_dir_all = (\<lambda>p d. (Inr (), d)),
     os_now_ms = (\<lambda>_. 7), os_uid = 0, os_gid = 0\<rparr>"

lemma toy_sys_simps [simp]:
  "lib toy_sys = toy_ext" "rc toy_sys = toy_cfg" "os_open_rd toy_sys = toy_open" "os_open_rw toy_sys = toy_open"
  "os_open_w toy_sys = toy_open"
  "os_open_create toy_sys p d = (Inr p, toy_put p '''' d)" "os_write_at toy_sys = toy_write"
  "os_sync_all toy_sys f d = (Inr (), d)" "os_sync_data toy_sys f d = (Inr (), d)" "os_now_ms toy_sys d = 7"
  by (simp_all add: toy_sys_def)

definition toy_rc :: "conn \<Rightarrow> rclient" where
  "toy_rc c = \<lparr>rc_net = toy_net (\<lambda>_. toy_peer None []), inner = Some c, auth_failure = None\<rparr>"

definition toy_fs :: "string list \<Rightarrow> (toy_disk, path) fs" where
  "toy_fs lines = fs_new (toy_rc (toy_conn lines)) []"

section \<open>Calls that are answered\<close>

lemma ensure_toy: "ensure_connected x cfg (toy_rc c) = Some (Inr (), toy_rc c)"
  by (simp add: ensure_connected_def toy_rc_def)

lemma toy_rc_inner [simp]: "inner (toy_rc c) = Some c" "(toy_rc c)\<lparr>inner := Some c'\<rparr> = toy_rc c'"
  by (simp_all add: toy_rc_def)

lemma toy_no_retry:
  assumes "m c = Some (r, c')" and "\<forall>e. r = Inl e \<longrightarrow> \<not> is_io e"
  shows "no_retry_on_io x cfg m (toy_rc c) = Some (r, toy_rc c')"
  using assms by (auto simp: no_retry_on_io_def andthen_def ensure_toy split: sum.splits)

lemma toy_retry:
  assumes "m c = Some (r, c')" and "\<forall>e. r = Inl e \<longrightarrow> \<not> is_io e"
  shows "retry_io_loop x cfg m (toy_rc c) = Some (r, toy_rc c')"
  using assms by (subst retry_io_loop.simps) (auto simp: ensure_toy split: sum.splits)

definition toy_next :: "json \<Rightarrow> conn \<Rightarrow> conn" where
  "toy_next req c = c\<lparr>issued := issued c @ [req], out := out c @ ''{}'' @ [newline],
     rd := \<lparr>rbuf = '''', rsrc = tl (rsrc (rd c))\<rparr>\<rparr>"

definition toy_ready :: "char list \<Rightarrow> conn \<Rightarrow> bool" where
  "toy_ready ls c \<longleftrightarrow> rbuf (rd c) = '''' \<and> rsrc (rd c) = map (\<lambda>l. Inr [l, newline]) ls \<and> wres c = []"

lemma toy_ready_conn: "toy_ready ls (toy_conn (map (\<lambda>l. [l]) ls))"
  by (simp add: toy_ready_def toy_conn_def)

lemma toy_ready_next: "toy_ready (l # ls) c \<Longrightarrow> toy_ready ls (toy_next req c)"
  by (simp add: toy_ready_def toy_next_def)

lemma toy_answer:
  assumes "toy_ready (l # ls) c" and "l \<noteq> newline" and "toy_parse [l] = Inr v"
  shows "round_trip toy_ext req c = Some (Inr v, toy_next req c)"
proof -
  have "rd c = \<lparr>rbuf = '''', rsrc = Inr [l, newline] # map (\<lambda>l. Inr [l, newline]) ls\<rparr>"
    using assms(1) by (cases "rd c") (simp add: toy_ready_def)
  with toy_round_trip [OF this _ assms(2,3), of req] assms(1) show ?thesis
    by (simp add: toy_next_def toy_ready_def)
qed

definition toy_reply :: "char \<Rightarrow> json" where
  "toy_reply l = (case toy_parse [l] of Inr v \<Rightarrow> v | Inl _ \<Rightarrow> JNull)"

lemma toy_letters [simp]:
  "toy_parse ''O'' = Inr (toy_reply CHR ''O'')" "toy_parse ''L'' = Inr (toy_reply CHR ''L'')"
  "toy_parse ''E'' = Inr (toy_reply CHR ''E'')"
  "CHR ''O'' \<noteq> newline" "CHR ''L'' \<noteq> newline" "CHR ''E'' \<noteq> newline"
  by (simp_all add: toy_reply_def toy_parse_def newline_def)

lemma toy_reply_ok [simp]: "reply_ok (toy_reply CHR ''O'')" "reply_ok (toy_reply CHR ''L'')"
  "\<not> reply_ok (toy_reply CHR ''E'')"
  by (simp_all add: toy_reply_def toy_parse_def reply_ok_def jindex_def jget_def)

lemma toy_ok_call:
  assumes "toy_ready (CHR ''O'' # ls) c"
  shows "checked_call toy_ext req k c = k (toy_reply CHR ''O'') (toy_next req c)"
  using toy_answer [OF assms, of "toy_reply CHR ''O''" req] by (simp add: checked_call_def andthen_def)

lemma toy_ok_unit_call:
  assumes "toy_ready (CHR ''O'' # ls) c"
  shows "checked_call toy_ext req (\<lambda>_. ret ()) c = Some (Inr (), toy_next req c)"
  using toy_ok_call [OF assms] by (simp add: ret_def)

lemma toy_err_call:
  assumes "toy_ready (CHR ''E'' # ls) c"
  shows "checked_call toy_ext req k c = Some (Inl (ServerError ''not_found''), toy_next req c)"
  using toy_answer [OF assms, of "toy_reply CHR ''E''" req]
  by (simp add: checked_call_def andthen_def throw_def)
    (simp add: toy_reply_def toy_parse_def server_error_def reply_error_def jindex_def jget_def)

lemma toy_cache_path_call:
  assumes "toy_ready (CHR ''O'' # ls) c"
  shows "checked_call toy_ext req (\<lambda>reply. field_str toy_ext reply ''cache_path'') c = Some (Inr ''/c/k'', toy_next req c)"
  unfolding toy_ok_call [OF assms]
  by (simp add: field_str_def ok_or_def ret_def toy_reply_def toy_parse_def jindex_def jget_def)

definition toy_entry :: list_entry where
  "toy_entry = \<lparr>le_path = ''/f'', le_size = 5, le_mtime_ms = 7, le_hydrated = False, le_folder = False,
     le_remote_modified_ms = None, le_pending_upload = False\<rparr>"

lemma toy_list_call:
  assumes "toy_ready (CHR ''L'' # ls) c"
  shows "list_dir toy_ext p c = Some (Inr [toy_entry], toy_next (verb ''hydration.list'' [(''prefix'', p)]) c)"
  using toy_answer [OF assms, of "toy_reply CHR ''L''"]
  by (simp add: list_dir_def checked_call_def andthen_def)
    (simp add: toy_reply_def toy_parse_def jindex_def jget_def ok_or_def ret_def from_result_def
      parse_list_entry_def entry_size_def toy_entry_def Let_def)

section \<open>Calls of the file system that are answered\<close>

text \<open>A file system whose request connection is up and about to send the replies \<open>ls\<close>.\<close>

definition toy_up :: "char list \<Rightarrow> conn \<Rightarrow> (toy_disk, path) fs \<Rightarrow> bool" where
  "toy_up ls c s \<longleftrightarrow> ipc s = toy_rc c \<and> toy_ready ls c"

lemma toy_up_fs: "toy_up ls (toy_conn (map (\<lambda>l. [l]) ls)) (toy_fs (map (\<lambda>l. [l]) ls))"
  by (simp add: toy_up_def toy_fs_def fs_new_def toy_ready_conn)

lemma toy_upD: "toy_up ls c s \<Longrightarrow> toy_ready ls c" "toy_up ls c s \<Longrightarrow> ipc s = toy_rc c"
  by (simp_all add: toy_up_def)

lemma toy_once:
  assumes "toy_up ls c s" and "m c = Some (r, c')" and "\<forall>e. r = Inl e \<longrightarrow> \<not> is_io e"
  shows "ipc_call (no_retry_on_io x cfg m) s = Some (r, s\<lparr>ipc := toy_rc c'\<rparr>)"
    and "ipc_call (retry_io_loop x cfg m) s = Some (r, s\<lparr>ipc := toy_rc c'\<rparr>)"
  using toy_no_retry [of m c r c' x cfg] toy_retry [of m c r c' x cfg] assms
  by (simp_all add: ipc_call_def zoom_def toy_up_def)

lemma toy_fs_open_write:
  assumes "toy_up (CHR ''O'' # ls) c s"
  shows "\<exists>req. upload_handle toy_sys h p cp s = Some (Inr ''/c/k'', s\<lparr>ipc := toy_rc (toy_next req c)\<rparr>)"
  using toy_cache_path_call [OF toy_upD(1) [OF assms]] toy_once(1) [OF assms]
  by (fastforce simp: upload_handle_def rc_open_write_def open_write_def)

lemma toy_fs_open_write_fails:
  assumes "toy_up (CHR ''E'' # ls) c s"
  shows "\<exists>req. upload_handle toy_sys h p cp s =
    Some (Inl (ServerError ''not_found''), s\<lparr>ipc := toy_rc (toy_next req c)\<rparr>)"
  using toy_err_call [OF toy_upD(1) [OF assms]] toy_once(1) [OF assms]
  by (fastforce simp: upload_handle_def rc_open_write_def open_write_def)

lemma toy_fs_close:
  assumes "toy_up (CHR ''O'' # ls) c s"
  shows "\<exists>req. close_jvm_handle toy_sys h s = Some (Inr (), s\<lparr>ipc := toy_rc (toy_next req c)\<rparr>)"
  using toy_ok_unit_call [OF toy_upD(1) [OF assms]] toy_once(2) [OF assms]
  by (fastforce simp: close_jvm_handle_def rc_close_handle_def close_handle_def)

lemma toy_fs_list:
  assumes "toy_up (CHR ''L'' # ls) c s"
  shows "ipc_call (rc_list toy_ext toy_cfg p) s =
    Some (Inr [toy_entry], s\<lparr>ipc := toy_rc (toy_next (verb ''hydration.list'' [(''prefix'', p)]) c)\<rparr>)"
  using toy_list_call [OF toy_upD(1) [OF assms], of p] toy_once(2) [OF assms, of "list_dir toy_ext p"]
  by (simp add: rc_list_def)

lemma toy_create_call:
  assumes "toy_ready (CHR ''O'' # ls) c"
  shows "\<exists>req. create toy_ext h p c = Some (Inr \<lparr>cr_cache_path = ''/c/k'', cr_handle_id = ''h''\<rparr>, toy_next req c)"
  unfolding create_def toy_ok_call [OF assms]
  by (simp add: field_str_def ok_or_def ret_def andthen_def toy_reply_def toy_parse_def jindex_def jget_def) blast

lemma toy_fs_create:
  assumes "toy_up (CHR ''O'' # ls) c s"
  shows "\<exists>req. ipc_call (rc_create toy_ext toy_cfg h p) s =
    Some (Inr \<lparr>cr_cache_path = ''/c/k'', cr_handle_id = ''h''\<rparr>, s\<lparr>ipc := toy_rc (toy_next req c)\<rparr>)"
  using toy_create_call [OF toy_upD(1) [OF assms], of h p] toy_once(1) [OF assms]
  by (fastforce simp: rc_create_def)

lemma toy_up_next: "toy_up (l # ls) c s \<Longrightarrow> toy_up ls (toy_next req c) (s\<lparr>ipc := toy_rc (toy_next req c)\<rparr>)"
  by (auto simp: toy_up_def intro: toy_ready_next)

lemma toy_up_cong: "toy_up ls c s \<Longrightarrow> ipc s' = ipc s \<Longrightarrow> toy_up ls c s'"
  by (simp add: toy_up_def)

section \<open>Creating a file under a decomposed name\<close>

lemma toy_names [simp]: "valid_utf8 ''q''" "valid_utf8 ''k''" "valid_utf8 ''/c/k''"
  "child_path toy_ext '''' ''q'' = ''/k''" "child_path toy_ext '''' ''k'' = ''/k''" "basename ''/k'' = ''k''"
  "basename ''/f'' = ''f''" "is_representable_component ''f''"
  "\<not> is_nfc_name toy_ext ''q''" "is_nfc_name toy_ext ''k''"
  by (simp_all add: valid_utf8_ascii child_path_def toy_nfc_def slash_def basename_def is_nfc_name_def
      is_representable_component_def NAME_MAX_def)

lemma toy_populate:
  assumes "toy_up (CHR ''L'' # ls) c s" and "pm_intern (paths s) ''/f'' = (ino, m)"
  shows "populate_from_list toy_sys p s = Some (Inr [(ino, toy_entry)],
    s\<lparr>ipc := toy_rc (toy_next (verb ''hydration.list'' [(''prefix'', p)]) c), paths := m,
      attrs := AList.update ino (attr_of_entry toy_entry) (attrs s)\<rparr>)"
  using toy_fs_list [OF assms(1), of p] assms(2)
  by (simp add: populate_from_list_def andthen_def toy_entry_def Let_def)

definition toy_lines :: "char list \<Rightarrow> (toy_disk, path) fs" where
  "toy_lines ls = toy_fs (map (\<lambda>l. [l]) ls)"

definition toy_handle :: "path open_handle" where
  "toy_handle = \<lparr>oh_file = ''/c/k'', oh_handle_id = ''h'', oh_remote_path = ''/k'', oh_cache_path = ''/c/k'', oh_dirty = True\<rparr>"

definition toy_attr :: cached_attr where
  "toy_attr = \<lparr>ca_size = 0, ca_mtime_ms = 7, ca_remote_mtime_ms = None, ca_is_folder = False,
     ca_is_hydrated = True, ca_pending_upload = True\<rparr>"

text \<open>The state after the name q was created: its normal form is k.\<close>

definition toy_has_q :: "char list \<Rightarrow> (toy_disk, path) fs \<Rightarrow> bool" where
  "toy_has_q ls s \<longleftrightarrow> (\<exists>c. toy_up ls c s) \<and> raw_names s = [(''/k'', ''q'')] \<and> inode_for (paths s) ''/k'' = Some 3 \<and>
     map_of (attrs s) 3 = Some toy_attr \<and> open_handles s = [(1, toy_handle)] \<and> disk s = [(''/c/k'', '''')] \<and>
     path_for (paths s) ROOT_INODE = Some ''''"

lemma toy_create:
  "\<exists>s. create_internal toy_sys ROOT_INODE ''q'' (toy_lines (''LO'' @ ls)) =
     Some (Inr (1, file_attr_from_cached toy_sys 3 toy_attr, 3), s) \<and> toy_has_q ls s"
proof -
  let ?s0 = "toy_lines (''LO'' @ ls)" and ?c0 = "toy_conn (map (\<lambda>l. [l]) (''LO'' @ ls))"
  have up0: "toy_up (CHR ''L'' # CHR ''O'' # ls) ?c0 ?s0"
    using toy_up_fs [of "''LO'' @ ls"] by (simp add: toy_lines_def)
  let ?c1 = "toy_next (verb ''hydration.list'' [(''prefix'', '''')]) ?c0"
  define m where "m = snd (pm_intern pm_new ''/f'')"
  have m: "pm_intern pm_new ''/f'' = (2, m)" "inode_for m ''/k'' = None" "pm_next m = 3" "pm_inv m"
    using pm_intern_inv [OF pm_new_inv, of "''/f''"]
    by (simp_all add: m_def pm_intern_def pm_new_def ROOT_INODE_def inode_for_def)
  let ?s1 = "?s0\<lparr>ipc := toy_rc ?c1, paths := m, attrs := AList.update 2 (attr_of_entry toy_entry) (attrs ?s0)\<rparr>"
  have pop: "populate_from_list toy_sys '''' ?s0 = Some (Inr [(2, toy_entry)], ?s1)"
    by (rule toy_populate [OF up0]) (simp add: toy_lines_def toy_fs_def fs_new_def m)
  have refuse: "refuse_nfc_collision toy_sys '''' ''/k'' ''q'' ?s0 = Some (Inr (), ?s1)"
    using pop
    by (simp add: refuse_nfc_collision_def visible_name_def toy_lines_def toy_fs_def fs_new_def andthen_def gets_def
        map_err_def ret_def toy_entry_def inode_for_def pm_new_def)
  have root: "path_for (paths ?s0) ROOT_INODE = Some ''''"
    by (simp add: toy_lines_def toy_fs_def fs_new_def pm_new_def path_for_def)
  let ?s2 = "?s1\<lparr>next_handle_id := next_handle_id ?s1 + 1\<rparr>"
  have up2: "toy_up (CHR ''O'' # ls) ?c1 ?s2"
    by (rule toy_up_cong [OF toy_up_next [OF up0]]) simp
  obtain req where create: "ipc_call (rc_create toy_ext toy_cfg (handle_name ''create-'' (next_handle_id ?s1)) ''/k'') ?s2 =
      Some (Inr \<lparr>cr_cache_path = ''/c/k'', cr_handle_id = ''h''\<rparr>, ?s2\<lparr>ipc := toy_rc (toy_next req ?c1)\<rparr>)"
    using toy_fs_create [OF up2, of "handle_name ''create-'' (next_handle_id ?s1)" "''/k''"] by blast
  let ?s3 = "?s2\<lparr>ipc := toy_rc (toy_next req ?c1)\<rparr>"
  have up3: "toy_up ls (toy_next req ?c1) s" if "ipc s = toy_rc (toy_next req ?c1)" for s
    by (rule toy_up_cong [OF toy_up_next [OF up2]]) (simp add: that)
  have num: "next_fh ?s3 = 1" "raw_names ?s3 = []" "paths ?s3 = m" "open_handles ?s3 = []" "disk ?s3 = []"
    by (simp_all add: toy_lines_def toy_fs_def fs_new_def)
  obtain m2 where ino: "pm_intern m ''/k'' = (3, m2)" "inode_for m2 ''/k'' = Some 3"
    using m pm_intern_inode_for [of m "''/k''" "''/k''"] by (auto simp: pm_intern_new)
  have root2: "path_for m2 ROOT_INODE = Some ''''"
    using pm_inv_root [OF pm_intern_inv [OF m(4), of "''/k''"]] ino by simp
  have "\<exists>s4. install_file toy_sys ''/k'' ''q'' \<lparr>cr_cache_path = ''/c/k'', cr_handle_id = ''h''\<rparr> ''/c/k''
        (?s3\<lparr>disk := toy_put ''/c/k'' '''' (disk ?s3)\<rparr>) =
      Some (Inr (1, file_attr_from_cached toy_sys 3 toy_attr, 3), s4) \<and> toy_has_q ls s4"
    using num ino root2
    by (simp add: install_file_def Let_def now_ms_def record_raw_name_def toy_attr_def toy_has_q_def toy_handle_def
        toy_put_def) (rule exI, rule up3, simp)
  then show ?thesis
    unfolding create_internal_Inr using refuse root create by simp
qed

lemma toy_fs_unit:
  assumes "toy_up (CHR ''O'' # ls) c s"
  shows "\<exists>req. ipc_call (rc_rename toy_ext toy_cfg p q) s = Some (Inr (), s\<lparr>ipc := toy_rc (toy_next req c)\<rparr>)"
    and "\<exists>req. ipc_call (rc_unlink toy_ext toy_cfg p) s = Some (Inr (), s\<lparr>ipc := toy_rc (toy_next req c)\<rparr>)"
  using toy_ok_unit_call [OF toy_upD(1) [OF assms]] toy_once(1) [OF assms]
  by (fastforce simp: rc_rename_def rename_def rc_unlink_def unlink_def)+

end
