(* ===== verification/FuseRuns.thy ===== *)
theory FuseRuns
  imports FuseInv FuseToy
begin

text \<open>
  Runs of the file system: any sequence of kernel requests, background quota refreshes and change events
  from the daemon. \<open>serve\<close> is the state after one of them; \<open>reachable\<close> are the states of all runs from
  a fresh mount.
\<close>

datatype request =
    Init | Lookup nat string | Getattr nat | Open nat u32 | Read nat u64 u32
  | Write nat nat u64 string | Fsync nat bool | Release nat | Readdir nat int | Readdirplus nat u64
  | Mkdir nat string | Unlink nat string | Rmdir nat string | Create nat string | Mknod nat string u32
  | Setattr nat "nat option" "u64 option" | Statfs | Getxattr nat string u32 | Listxattr u32
  | RenameReq nat string nat string | QuotaTask | Change invalidation

definition after :: "('s, 'e, 'a) prog \<Rightarrow> 's \<Rightarrow> 's option" where
  "after m s = map_option snd (m s)"

fun serve :: "('d, 'f) sys \<Rightarrow> request \<Rightarrow> ('d, 'f) fs \<Rightarrow> ('d, 'f) fs option" where
  "serve w Init s = after fuse_init s"
| "serve w (Lookup i n) s = after (lookup w i n) s"
| "serve w (Getattr i) s = after (getattr w i) s"
| "serve w (Open i fl) s = after (open_file w i fl) s"
| "serve w (Read fh off sz) s = after (read_file w fh off sz) s"
| "serve w (Write i fh off b) s = after (write_file w i fh off b) s"
| "serve w (Fsync fh ds) s = after (fsync w fh ds) s"
| "serve w (Release fh) s = after (release w fh) s"
| "serve w (Readdir i off) s = after (readdir w i off) s"
| "serve w (Readdirplus i off) s = after (readdirplus w i off) s"
| "serve w (Mkdir i n) s = after (fuse_mkdir w i n) s"
| "serve w (Unlink i n) s = after (fuse_unlink w i n) s"
| "serve w (Rmdir i n) s = after (fuse_rmdir w i n) s"
| "serve w (Create i n) s = after (fuse_create w i n) s"
| "serve w (Mknod i n mode) s = after (mknod w i n mode) s"
| "serve w (Setattr i fh sz) s = after (setattr w i fh sz) s"
| "serve w Statfs s = after statfs s"
| "serve w (Getxattr i n sz) s = after (getxattr i n sz) s"
| "serve w (Listxattr sz) s = after (listxattr sz) s"
| "serve w (RenameReq i n j k) s = after (fuse_rename w i n j k) s"
| "serve w QuotaTask s = after (quota_task w) s"
| "serve w (Change c) s = Some (view_apply c s)"

inductive reachable :: "('d, 'f) sys \<Rightarrow> (request \<Rightarrow> bool) \<Rightarrow> ('d, 'f) fs \<Rightarrow> bool" for w P where
  mounted: "reachable w P (fs_new c d)"
| rooted: "reachable w P s \<Longrightarrow> reachable w P (with_cache_root root s)"
| served: "reachable w P s \<Longrightarrow> P q \<Longrightarrow> serve w q s = Some s' \<Longrightarrow> reachable w P s'"

inductive_cases reachable_cases: "reachable w P s"

text \<open>An invariant of the handlers holds in every reachable state.\<close>

locale handler_invariant =
  fixes w :: "('d, 'f) sys" and P :: "request \<Rightarrow> bool" and I :: "('d, 'f) fs \<Rightarrow> bool"
  assumes at_mount: "I (fs_new c d)"
    and at_root: "I s \<Longrightarrow> I (with_cache_root root s)"
    and at_serve: "I s \<Longrightarrow> P q \<Longrightarrow> serve w q s = Some s' \<Longrightarrow> I s'"
begin

lemma always: "reachable w P s \<Longrightarrow> I s"
  by (induction rule: reachable.induct) (auto intro: at_mount at_root at_serve)

end

lemma after_keeps: "after m s = Some s' \<Longrightarrow> keeps I m \<Longrightarrow> I s \<Longrightarrow> I s'"
  by (auto simp: after_def keeps_def)

lemmas fs_keeps = keeps_init keeps_lookup keeps_getattr keeps_open keeps_read keeps_write keeps_fsync
  keeps_release keeps_readdir keeps_readdirplus keeps_mkdir keeps_unlink keeps_rmdir keeps_create
  keeps_mknod keeps_setattr keeps_statfs keeps_getxattr keeps_listxattr keeps_rename keeps_quota_task

interpretation fsi: handler_invariant w P fs_inv for w :: "('d, 'f) sys" and P
proof
  show "fs_inv (fs_new c d)" for c and d :: 'd by (rule fs_new_inv)
  show "fs_inv (with_cache_root root s)" if "fs_inv s" for root and s :: "('d, 'f) fs"
    using that by (simp add: with_cache_root_def fs_inv_def)
  show "fs_inv s'" if "fs_inv s" "P q" "serve w q s = Some s'" for q s s'
    using that by (cases q) (auto intro: view_apply_inv fs_keeps elim!: after_keeps)
qed

text \<open>Whatever the kernel asks, in whatever order, and whatever the daemon and the disk answer: in every
  reachable state inodes and paths are in bijection, the root keeps inode 1, no two open files share a file
  handle and the next one is unused, and no cached attribute belongs to an inode that was never handed
  out.\<close>

theorem reachable_invariant:
  assumes "reachable w (\<lambda>_. True) s"
  shows "fs_inv s"
  using assms by (rule fsi.always)

text \<open>A run: a file is created under a decomposed name.\<close>

lemma toy_reachable:
  assumes "P (Create ROOT_INODE ''q'')"
  shows "\<exists>s. reachable toy_sys P s \<and> toy_has_q ls s"
proof -
  obtain v s where s: "create_internal toy_sys ROOT_INODE ''q'' (toy_lines (''LO'' @ ls)) = Some (Inr v, s)"
    "toy_has_q ls s"
    using toy_create by blast
  have "serve toy_sys (Create ROOT_INODE ''q'') (toy_lines (''LO'' @ ls)) = Some s"
    using s(1) by (cases v) (simp add: after_def fuse_create_def andthen_def ret_def)
  moreover have "reachable toy_sys P (toy_lines (''LO'' @ ls))"
    unfolding toy_lines_def toy_fs_def by (rule reachable.mounted)
  ultimately have "reachable toy_sys P s"
    using reachable.served [where P = P and q = "Create ROOT_INODE ''q''"] assms by blast
  with s show ?thesis by blast
qed

lemma toy_has_q_exists: "\<exists>s. toy_has_q ls s \<and> fs_inv s"
  using toy_reachable [of "\<lambda>_. True" ls] fsi.always by blast

theorem reachable_invariant_witness:
  "\<exists>s. reachable toy_sys (\<lambda>_. True) s \<and> inode_for (paths s) ''/k'' = Some 3 \<and> fs_inv s"
  using toy_reachable [of "\<lambda>_. True" "''''"] reachable_invariant [of toy_sys] unfolding toy_has_q_def by blast

section \<open>Names\<close>

text \<open>A raw name is a name that is not in NFC, kept for the path of its NFC form.\<close>

definition raw_ok :: "ext \<Rightarrow> (path, string) hashmap \<Rightarrow> bool" where
  "raw_ok x raw \<longleftrightarrow> (\<forall>(cp, n) \<in> set raw. nfc x n \<noteq> n \<and> nfc x n = basename cp)"

abbreviation names_inv :: "('d, 'f) sys \<Rightarrow> ('d, 'f) fs \<Rightarrow> bool" where
  "names_inv w s \<equiv> raw_ok (lib w) (raw_names s)"

named_theorems keeps_raw \<open>programs that leave the raw names alone\<close>

lemma raw_steps [simp]:
  "raw_names (set_attr_of i f s) = raw_names s" "raw_names (set_handle fh g s) = raw_names s"
  "raw_names (snd (quarantine es s)) = raw_names s" "raw_names (snd (intern_entries es s)) = raw_names s"
  "raw_names (refresh_quota_if_due s) = raw_names s" "raw_names (view_apply c s) = raw_names s"
proof -
  show "raw_names (snd (quarantine es s)) = raw_names s"
    by (induction es s rule: quarantine.induct) (auto simp: case_prod_beta Let_def)
  show "raw_names (snd (intern_entries es s)) = raw_names s"
    by (induction es arbitrary: s) (auto simp: case_prod_beta Let_def)
qed (auto simp: set_attr_of_def set_handle_def refresh_quota_if_due_def view_apply_def Let_def
    split: prod.splits invalidation.splits)

lemma keeps_raw_basic [keeps_raw]:
  "keeps (\<lambda>s. J (raw_names s)) (ipc_call m)" "keeps (\<lambda>s. J (raw_names s)) (on_disk f)"
  "keeps (\<lambda>s. J (raw_names s)) fresh_handle_number" "keeps (\<lambda>s. J (raw_names s)) fresh_fh"
  by (auto simp: keeps_def ipc_call_def zoom_def on_disk_def fresh_handle_number_def fresh_fh_def Let_def
      split: Option.bind_splits prod.splits)

lemma keeps_raw_modify: "(\<And>s. raw_names (f s) = raw_names s) \<Longrightarrow> keeps (\<lambda>s. J (raw_names s)) (modify f)"
  by (auto simp: keeps_def modify_def)

lemma keeps_raw_helpers [keeps_raw]:
  "keeps (\<lambda>s. J (raw_names s)) (name_of n)" "keeps (\<lambda>s. J (raw_names s)) (path_of_inode i)"
  "keeps (\<lambda>s. J (raw_names s)) (handle_of fh)" "keeps (\<lambda>s. J (raw_names s)) (upload_handle w h p c)"
  "keeps (\<lambda>s. J (raw_names s)) (close_jvm_handle w h)"
  unfolding name_of_def path_of_inode_def handle_of_def upload_handle_def close_jvm_handle_def
  by (intro keeps_raw keeps_rules)+

lemma keeps_raw_populate [keeps_raw]: "keeps (\<lambda>s. J (raw_names s)) (populate_from_list w p)"
proof -
  have "keeps (\<lambda>s. J (raw_names s)) (\<lambda>s. let (representable, s1) = quarantine es s;
      (out, s2) = intern_entries representable s1 in Some (Inr out, s2))" for es
    by (intro keepsI) (auto simp: case_prod_beta Let_def)
  then show ?thesis unfolding populate_from_list_def by (intro keeps_raw keeps_rules)
qed

lemma keeps_raw_fetch [keeps_raw]:
  "keeps (\<lambda>s. J (raw_names s)) (get_or_fetch_attr w i)" "keeps (\<lambda>s. J (raw_names s)) (dotdot_inode i p)"
  "keeps (\<lambda>s. J (raw_names s)) (refuse_nfc_collision w p cp n)" "keeps (\<lambda>s. J (raw_names s)) (evict r cp)"
proof -
  have "keeps (\<lambda>s. J (raw_names s)) (\<lambda>s. let (ino, m) = pm_intern (paths s) q in Some (Inr ino, s\<lparr>paths := m\<rparr>))" for q
    by (intro keepsI) (auto split: prod.splits)
  then show "keeps (\<lambda>s. J (raw_names s)) (dotdot_inode i p)"
    unfolding dotdot_inode_def by (intro keeps_rules)
qed (unfold get_or_fetch_attr_def refuse_nfc_collision_def evict_def, (intro keeps_raw keeps_rules)+)

lemma keeps_raw_handlers:
  "keeps (\<lambda>s. J (raw_names s)) (lookup w i n)" "keeps (\<lambda>s. J (raw_names s)) (getattr w i)"
  "keeps (\<lambda>s. J (raw_names s)) (read_file w fh off sz)" "keeps (\<lambda>s. J (raw_names s)) (readdir w i o1)"
  "keeps (\<lambda>s. J (raw_names s)) (readdirplus w i off)" "keeps (\<lambda>s. J (raw_names s)) (getxattr i n sz)"
  "keeps (\<lambda>s. J (raw_names s)) (listxattr sz)"
  unfolding lookup_def getattr_def read_file_def readdir_def readdirplus_def getxattr_def listxattr_def Let_def
  by (intro keeps_raw keeps_rules)+

lemma keeps_raw_writers:
  "keeps (\<lambda>s. J (raw_names s)) (write_file w i fh off data)" "keeps (\<lambda>s. J (raw_names s)) (fsync w fh ds)"
  "keeps (\<lambda>s. J (raw_names s)) (release w fh)" "keeps (\<lambda>s. J (raw_names s)) statfs"
  "keeps (\<lambda>s. J (raw_names s)) fuse_init" "keeps (\<lambda>s. J (raw_names s)) (quota_task w)"
  unfolding write_file_def fsync_def release_def statfs_def fuse_init_def quota_task_def Let_def
  by (intro keeps_raw keeps_rules keeps_raw_modify; simp)+

lemma keeps_raw_setattr: "keeps (\<lambda>s. J (raw_names s)) (setattr w i ofh sz)"
  unfolding setattr_def truncate_to_zero_def truncate_to_size_def truncate_handle_def bare_truncate_zero_def
    bare_truncate_size_def commit_and_close_def close_and_fail_def
  by (intro keeps_raw keeps_rules keeps_raw_modify keeps_raw_handlers; simp)

lemma keeps_raw_open: "keeps (\<lambda>s. J (raw_names s)) (open_file w i flags)"
proof -
  have "keeps (\<lambda>s. J (raw_names s)) (\<lambda>s. case meta of
       Inl _ \<Rightarrow> Some (Inr False, s)
     | Inr len \<Rightarrow> Some (Inr (case map_of (attrs s) i of Some a \<Rightarrow> ca_size a \<noteq> len | None \<Rightarrow> False),
                       set_attr_of i (\<lambda>a. a\<lparr>ca_size := len\<rparr>) s))" for meta :: "io_err + u64"
    by (intro keepsI) (auto split: sum.splits)
  then show ?thesis
    unfolding open_file_def Let_def
    by (intro keeps_raw keeps_rules keeps_raw_modify; simp)
qed

text \<open>Normalisation of a name without a slash brings in none; the kernel hands out no name with one.\<close>

definition nfc_keeps_slash :: "ext \<Rightarrow> bool" where
  "nfc_keeps_slash x \<longleftrightarrow> (\<forall>n. slash \<notin> set n \<longrightarrow> slash \<notin> set (nfc x n))"

fun kernel_request :: "request \<Rightarrow> bool" where
  "kernel_request (Mkdir i n) \<longleftrightarrow> slash \<notin> set n"
| "kernel_request (Create i n) \<longleftrightarrow> slash \<notin> set n"
| "kernel_request (Mknod i n m) \<longleftrightarrow> slash \<notin> set n"
| "kernel_request (RenameReq i n j k) \<longleftrightarrow> slash \<notin> set k"
| "kernel_request _ \<longleftrightarrow> True"

lemma set_update_subset: "set (AList.update k v m) \<subseteq> insert (k, v) (set m)"
  by (induction m) auto

lemma set_delete_subset: "set (AList.delete k m) \<subseteq> set m"
  by (auto simp: AList.delete_eq)

lemma set_extend_subset: "set (hm_extend m kvs) \<subseteq> set m \<union> set kvs"
  unfolding hm_extend_def
proof (induction kvs arbitrary: m)
  case (Cons kv kvs)
  then show ?case using set_update_subset [of "fst kv" "snd kv" m] by (fastforce simp: case_prod_beta)
qed simp

lemma raw_ok_subset: "raw_ok x m \<Longrightarrow> set m' \<subseteq> set m \<Longrightarrow> raw_ok x m'"
  unfolding raw_ok_def by blast

lemma raw_ok_append: "raw_ok x (a @ b) \<longleftrightarrow> raw_ok x a \<and> raw_ok x b"
  by (auto simp: raw_ok_def)

lemma record_raw_ok:
  assumes "names_inv w s" and "nfc_keeps_slash (lib w)" and "slash \<notin> set n"
  shows "names_inv w (record_raw_name w (child_path (lib w) p n) n s)"
  using assms set_update_subset [of "child_path (lib w) p n" n "raw_names s"]
  by (fastforce simp: record_raw_name_def is_nfc_name_def nfc_keeps_slash_def raw_ok_def
      dest: set_mp [OF set_delete_subset])

lemma basename_below: "basename (a @ slash # r) = basename (b @ slash # r)"
proof (cases "slash \<in> set r")
  case True
  then obtain q t where r: "r = q @ slash # t" "slash \<notin> set t"
    by (metis split_list_last)
  have "basename (c @ slash # r) = t" for c
    using rfind_child [OF r(2), of "c @ slash # q"] r(1) by (simp add: basename_def)
  then show ?thesis by simp
next
  case False
  then show ?thesis using rfind_child [OF False] by (simp add: basename_def)
qed

lemma rename_raw_ok: "names_inv w s \<Longrightarrow> names_inv w (rename_raw_names old new s)"
proof -
  assume inv: "names_inv w s"
  let ?moved = "map (\<lambda>(k, v). (new @ slash # drop (length (old @ [slash])) k, v))
    (filter (\<lambda>(k, _). starts_with k (old @ [slash])) (raw_names s))"
  have moved: "raw_ok (lib w) ?moved"
    unfolding raw_ok_def
  proof (clarify, goal_cases)
    case (1 cp n)
    then obtain r where r: "(old @ slash # r, n) \<in> set (raw_names s)" "cp = new @ slash # r"
      by (auto simp: starts_with_iff)
    then show ?case
      using inv basename_below [of new r old] unfolding raw_ok_def by fastforce
  qed
  have sub: "set (raw_names (rename_raw_names old new s)) \<subseteq> set (raw_names s @ ?moved)"
    unfolding rename_raw_names_def Let_def
    by (simp, rule subset_trans [OF set_extend_subset]) (auto simp: hm_retain_keys_def)
  show ?thesis
    by (rule raw_ok_subset [OF _ sub]) (simp only: raw_ok_append inv moved)
qed

lemma drop_entry_raw_ok: "names_inv w s \<Longrightarrow> names_inv w (drop_entry cp s)"
  by (auto simp: drop_entry_def forget_raw_names_def Let_def hm_retain_keys_def raw_ok_def
      split: prod.splits option.splits)

lemma name_of_Inr: "name_of n s = Some (Inr m, s') \<longleftrightarrow> m = n \<and> s' = s \<and> valid_utf8 n"
  by (auto simp: name_of_def ok_or_def os_to_str_def throw_def ret_def)

lemma keeps_name_of:
  assumes "valid_utf8 n \<Longrightarrow> keeps I (k n)"
  shows "keeps I (andthen (name_of n) k)"
  using assms by (auto simp: keeps_def name_of_def ok_or_def os_to_str_def throw_def ret_def andthen_def)

lemma names_install:
  assumes "nfc_keeps_slash (lib w)" and "slash \<notin> set n"
  shows "keeps (names_inv w) (install_dir w (child_path (lib w) p n) n)"
    and "keeps (names_inv w) (install_file w (child_path (lib w) p n) n reply file)"
  by (auto simp: keeps_def install_dir_def install_file_def Let_def intro!: record_raw_ok assms split: prod.splits)

lemma names_mkdir:
  assumes "nfc_keeps_slash (lib w)" and "slash \<notin> set n"
  shows "keeps (names_inv w) (fuse_mkdir w i n)"
  unfolding fuse_mkdir_def Let_def by (intro names_install [OF assms] keeps_name_of keeps_raw keeps_rules)

lemma names_create_internal:
  assumes "nfc_keeps_slash (lib w)" and "slash \<notin> set n"
  shows "keeps (names_inv w) (create_internal w i n)"
  unfolding create_internal_def Let_def by (intro names_install [OF assms] keeps_name_of keeps_raw keeps_rules)

lemma names_create:
  assumes "nfc_keeps_slash (lib w)" and "slash \<notin> set n"
  shows "keeps (names_inv w) (fuse_create w i n)" and "keeps (names_inv w) (mknod w i n mode)"
  unfolding fuse_create_def mknod_def Let_def
  by (intro names_create_internal [OF assms] keeps_raw keeps_rules keeps_raw_modify; simp)+

lemma names_unlink: "keeps (names_inv w) (fuse_unlink w i n)"
  and names_rmdir: "keeps (names_inv w) (fuse_rmdir w i n)"
  unfolding fuse_unlink_def fuse_rmdir_def Let_def
  by (intro keeps_raw keeps_rules keeps_modify drop_entry_raw_ok; simp)+

lemma names_rename:
  assumes "nfc_keeps_slash (lib w)" and "slash \<notin> set k"
  shows "keeps (names_inv w) (fuse_rename w i n j k)"
  unfolding fuse_rename_def Let_def
  by (rule keeps_andthen, intro keeps_raw, rule keeps_name_of)
    (intro keeps_raw keeps_rules keeps_modify record_raw_ok assms rename_raw_ok; simp)

interpretation names: handler_invariant w kernel_request "\<lambda>s. nfc_keeps_slash (lib w) \<longrightarrow> names_inv w s"
  for w :: "('d, 'f) sys"
proof
  show "nfc_keeps_slash (lib w) \<longrightarrow> names_inv w (fs_new c d)" for c and d :: 'd
    by (simp add: fs_new_def raw_ok_def)
  show "nfc_keeps_slash (lib w) \<longrightarrow> names_inv w (with_cache_root root s)"
    if "nfc_keeps_slash (lib w) \<longrightarrow> names_inv w s" for root and s :: "('d, 'f) fs"
    using that by (simp add: with_cache_root_def)
  show "nfc_keeps_slash (lib w) \<longrightarrow> names_inv w s'"
    if "nfc_keeps_slash (lib w) \<longrightarrow> names_inv w s" "kernel_request q" "serve w q s = Some s'" for q s s'
    using that
    by (cases q) (auto intro: keeps_raw_handlers keeps_raw_writers keeps_raw_open keeps_raw_setattr
        names_mkdir names_create names_unlink names_rmdir names_rename elim!: after_keeps)
qed

text \<open>The visible name of an entry normalises to its base name.\<close>

lemma nfc_visible:
  assumes "names_inv w s" and "nfc (lib w) (basename cp) = basename cp"
  shows "nfc (lib w) (visible_name s cp) = basename cp"
  using assms by (auto simp: visible_name_def raw_ok_def dest: map_of_SomeD split: option.splits)

lemma same_visible_name:
  assumes "names_inv w s" and "nfc (lib w) (basename p) = basename p" and "nfc (lib w) (basename q) = basename q"
    and "slash \<in> set p" and "slash \<in> set q" and "parent_prefix p = parent_prefix q"
    and "visible_name s p = visible_name s q"
  shows "p = q"
proof -
  have "basename p = basename q"
    using nfc_visible [OF assms(1,2)] nfc_visible [OF assms(1,3)] assms(7) by simp
  then show ?thesis
    using path_split [OF assms(4)] path_split [OF assms(5)] assms(6) by simp
qed

text \<open>Two entries of one directory are never shown under the same name: in every reachable state, when
  the daemon's names are in NFC, entries with the same parent and the same visible name are the same
  entry, however names with equal normal forms were created and renamed.\<close>

theorem visible_names_distinct:
  assumes "reachable w kernel_request s" and "nfc_keeps_slash (lib w)"
    and "nfc (lib w) (basename p) = basename p" and "nfc (lib w) (basename q) = basename q"
    and "slash \<in> set p" and "slash \<in> set q" and "parent_prefix p = parent_prefix q"
    and "visible_name s p = visible_name s q"
  shows "p = q"
  by (rule same_visible_name [OF names.always [OF assms(1), rule_format, OF assms(2)] assms(3-8)])

theorem visible_names_distinct_witness:
  "\<exists>s. reachable toy_sys kernel_request s \<and> visible_name s ''/k'' = ''q'' \<and>
     (\<forall>n. nfc toy_ext n = n \<and> slash \<notin> set n \<and> visible_name s (slash # n) = ''q'' \<longrightarrow> slash # n = ''/k'')"
proof -
  obtain s where s: "reachable toy_sys kernel_request s" "raw_names s = [(''/k'', ''q'')]"
    using toy_reachable [of kernel_request "''''"] by (auto simp: slash_def toy_has_q_def)
  then have vis: "visible_name s ''/k'' = ''q''" by (simp add: visible_name_def)
  have nfc: "nfc_keeps_slash (lib toy_sys)"
    by (auto simp: nfc_keeps_slash_def toy_nfc_def slash_def)
  have "slash # n = ''/k''" if "nfc toy_ext n = n" "slash \<notin> set n" "visible_name s (slash # n) = ''q''" for n
  proof (rule visible_names_distinct [OF s(1) nfc])
    have "basename (slash # n) = n" "parent_prefix (slash # n) = ''''"
      using rfind_child [OF that(2), of "[]"] by (simp_all add: basename_def parent_prefix_def)
    with that show "nfc (lib toy_sys) (basename (slash # n)) = basename (slash # n)"
      "parent_prefix (slash # n) = parent_prefix ''/k''"
      by (simp_all add: parent_prefix_def slash_def)
  qed (use that vis in \<open>simp_all add: slash_def toy_nfc_def\<close>)
  with s(1) vis show ?thesis by blast
qed

end
