(* ===== verification/FuseNamespace.thy ===== *)
theory FuseNamespace
  imports FuseRuns
begin

text \<open>
  What the namespace handlers of the file system promise: names with equal normal forms are kept apart,
  and a created entry is found again.
\<close>

section \<open>Runs that keep a mapped inode\<close>

definition maps :: "nat \<Rightarrow> path \<Rightarrow> ('d, 'f) fs \<Rightarrow> bool" where
  "maps i p s \<longleftrightarrow> fs_inv s \<and> path_for (paths s) i = Some p"

named_theorems keeps_maps \<open>programs that keep a mapped inode\<close>

lemma maps_intern:
  assumes "maps i p s" and "pm_intern (paths s) q = (ino, m)"
  shows "maps i p (s\<lparr>paths := m\<rparr>)"
  using assms fs_inv_intern [of s q ino m] pm_intern_keeps_path [of "paths s" i p q]
  by (auto simp: maps_def)

lemma maps_attrs:
  "maps i p s \<Longrightarrow> ino < pm_next (paths s) \<Longrightarrow> maps i p (s\<lparr>attrs := AList.update ino a (attrs s)\<rparr>)"
  by (auto simp: maps_def intro: fs_inv_attr)

lemma quarantine_same [simp]:
  "paths (snd (quarantine es s)) = paths s" "attrs (snd (quarantine es s)) = attrs s"
  "open_handles (snd (quarantine es s)) = open_handles s" "next_fh (snd (quarantine es s)) = next_fh s"
  "next_handle_id (snd (quarantine es s)) = next_handle_id s" "ipc (snd (quarantine es s)) = ipc s"
  "disk (snd (quarantine es s)) = disk s" "cache_root (snd (quarantine es s)) = cache_root s"
  by (induction es s rule: quarantine.induct) (auto simp: case_prod_beta Let_def)

lemma intern_entries_same [simp]:
  "open_handles (snd (intern_entries es s)) = open_handles s" "next_fh (snd (intern_entries es s)) = next_fh s"
  "next_handle_id (snd (intern_entries es s)) = next_handle_id s" "ipc (snd (intern_entries es s)) = ipc s"
  "disk (snd (intern_entries es s)) = disk s" "cache_root (snd (intern_entries es s)) = cache_root s"
  by (induction es arbitrary: s) (auto simp: case_prod_beta Let_def)

lemma maps_intern_entries: "maps i p s \<Longrightarrow> maps i p (snd (intern_entries es s))"
proof (induction es arbitrary: s)
  case (Cons e es)
  obtain ino m where im: "pm_intern (paths s) (le_path e) = (ino, m)" by fastforce
  have "maps i p (s\<lparr>paths := m, attrs := AList.update ino (attr_of_entry e) (attrs s)\<rparr>)"
    using maps_attrs [OF maps_intern [OF Cons.prems im], of ino] fs_inv_intern(2) [of s _ ino m] im Cons.prems
    by (simp add: maps_def)
  from Cons.IH [OF this] im show ?case by (simp add: case_prod_beta Let_def)
qed simp

lemma maps_quarantine: "maps i p s \<Longrightarrow> maps i p (snd (quarantine es s))"
  by (simp add: maps_def quarantine_inv)

lemma keeps_maps_basic [keeps_maps]:
  "keeps (maps i p) (ipc_call m)" "keeps (maps i p) (on_disk f)" "keeps (maps i p) fresh_handle_number"
  by (auto simp: keeps_def ipc_call_def zoom_def on_disk_def fresh_handle_number_def maps_def Let_def
      split: Option.bind_splits prod.splits)

lemma keeps_maps_populate [keeps_maps]: "keeps (maps i p) (populate_from_list w q)"
proof -
  have "keeps (maps i p) (\<lambda>s. let (representable, s1) = quarantine es s; (out, s2) = intern_entries representable s1
      in Some (Inr out, s2))" for es
    by (intro keepsI) (auto simp: case_prod_beta Let_def intro!: maps_intern_entries maps_quarantine)
  then show ?thesis unfolding populate_from_list_def by (intro keeps_maps keeps_rules)
qed

lemma keeps_maps_refuse [keeps_maps]: "keeps (maps i p) (refuse_nfc_collision w q cp n)"
  unfolding refuse_nfc_collision_def by (intro keeps_maps keeps_rules)

section \<open>Names with equal normal forms\<close>

lemma refuse_known_collision:
  assumes "visible_name s cp \<noteq> name" and "inode_for (paths s) cp = Some ino" and "map_of (attrs s) ino \<noteq> None"
  shows "refuse_nfc_collision w pp cp name s = Some (Inl EEXIST, s)"
  using assms by (simp add: refuse_nfc_collision_def throw_def)

text \<open>C10. A name is never taken for another one with the same normal form. When an entry is known at the
  normalised path under a visible name with different code points, looking the name up finds nothing,
  and creating a file, a directory or renaming onto it is refused with EEXIST; no request reaches the
  daemon and the state is as before.\<close>

theorem nfc_collision_refused:
  assumes "valid_utf8 name" and "path_for (paths s) i = Some pp"
    and "visible_name s (child_path (lib w) pp name) \<noteq> name"
    and "inode_for (paths s) (child_path (lib w) pp name) = Some ino" and "map_of (attrs s) ino \<noteq> None"
    and "valid_utf8 n" and "path_for (paths s) j = Some q"
  shows "lookup w i name s = Some (Inl ENOENT, s) \<and> fuse_create w i name s = Some (Inl EEXIST, s) \<and>
    fuse_mkdir w i name s = Some (Inl EEXIST, s) \<and> fuse_rename w j n i name s = Some (Inl EEXIST, s)"
proof -
  let ?cp = "child_path (lib w) pp name"
  have name: "name_of name s = Some (Inr name, s)" "name_of n s = Some (Inr n, s)"
    and path: "path_of_inode i s = Some (Inr pp, s)" "path_of_inode j s = Some (Inr q, s)"
    using assms by (simp_all add: step_Some)
  have refuse: "refuse_nfc_collision w pp ?cp name s = Some (Inl EEXIST, s)"
    by (rule refuse_known_collision [OF assms(3-5)])
  note steps = name path refuse andthen_def Let_def
  have "lookup w i name s = Some (Inl ENOENT, s)"
    using assms(3) unfolding lookup_def by (simp add: steps gets_def throw_def)
  moreover have "create_internal w i name s = Some (Inl EEXIST, s)"
    unfolding create_internal_def by (simp add: steps)
  then have "fuse_create w i name s = Some (Inl EEXIST, s)"
    unfolding fuse_create_def by (simp add: steps)
  moreover have "fuse_mkdir w i name s = Some (Inl EEXIST, s)" "fuse_rename w j n i name s = Some (Inl EEXIST, s)"
    unfolding fuse_mkdir_def fuse_rename_def by (simp_all add: steps)
  ultimately show ?thesis by blast
qed

text \<open>The name q is there, so k is refused.\<close>

theorem nfc_collision_refused_witness:
  "\<exists>s. toy_has_q '''' s \<and> lookup toy_sys ROOT_INODE ''k'' s = Some (Inl ENOENT, s) \<and>
     fuse_create toy_sys ROOT_INODE ''k'' s = Some (Inl EEXIST, s)"
proof -
  obtain s where s: "toy_has_q '''' s" using toy_has_q_exists by blast
  then have "visible_name s ''/k'' \<noteq> ''k''" by (simp add: toy_has_q_def visible_name_def)
  with s nfc_collision_refused [of "''k''" s ROOT_INODE "''''" toy_sys 3 "''k''" ROOT_INODE "''''"] show ?thesis
    by (auto simp: toy_has_q_def)
qed

section \<open>A created entry is found\<close>

lemma install_file_Inr:
  assumes "install_file w cp name reply file s = Some (Inr (fh, attr, ino), s')"
  shows "fh = next_fh s \<and> inode_for (paths s') cp = Some ino \<and>
    attr = file_attr_from_cached w ino \<lparr>ca_size = 0, ca_mtime_ms = now_ms w s, ca_remote_mtime_ms = None,
      ca_is_folder = False, ca_is_hydrated = True, ca_pending_upload = True\<rparr> \<and>
    map_of (attrs s') ino = Some \<lparr>ca_size = 0, ca_mtime_ms = now_ms w s, ca_remote_mtime_ms = None,
      ca_is_folder = False, ca_is_hydrated = True, ca_pending_upload = True\<rparr> \<and>
    map_of (open_handles s') fh = Some \<lparr>oh_file = file, oh_handle_id = cr_handle_id reply, oh_remote_path = cp,
      oh_cache_path = cr_cache_path reply, oh_dirty = True\<rparr> \<and>
    visible_name s' cp = (if is_nfc_name (lib w) name then basename cp else name)"
  using assms pm_intern_inode_for [of "paths s" cp cp]
  by (auto simp: install_file_def Let_def now_ms_def visible_name_def record_raw_name_def split: prod.splits if_splits)

lemma maps_install_file: "keeps (maps i p) (install_file w cp name reply file)"
proof (rule keepsI)
  fix s r s'
  assume maps: "maps i p s" and run: "install_file w cp name reply file s = Some (r, s')"
  have "fs_inv s'"
    using keepsD [OF keeps_install(2) _ run] maps by (simp add: maps_def)
  moreover have "path_for (paths s') i = Some p"
    using maps_intern [OF maps, of cp] run
    by (auto simp: install_file_def Let_def maps_def split: prod.splits)
  ultimately show "maps i p s'" by (simp add: maps_def)
qed



end
