(* ===== verification/FuseData.thy ===== *)
theory FuseData
  imports FuseNamespace
begin

text \<open>
  The data path of the file system: what a rename does to open files, and what a write, an fsync and a
  release promise about the bytes that the daemon must get.
\<close>

section \<open>Open files follow a rename\<close>

lemma strip_prefix_iff: "strip_prefix s p = (if \<exists>r. s = p @ r then Some (drop (length p) s) else None)"
  by (auto simp: strip_prefix_def starts_with_iff)

lemma starts_with_slash: "starts_with r [slash] \<longleftrightarrow> r \<noteq> [] \<and> hd r = slash"
  by (cases r) (auto simp: starts_with_def)

lemma follow_rename_remote:
  "oh_remote_path (follow_rename old new h) = rebase old new (oh_remote_path h)"
  by (auto simp: follow_rename_def Let_def strip_prefix_iff starts_with_slash below_iff rebase_def
      split: option.splits)

lemma follow_rename_same [simp]:
  "oh_file (follow_rename old new h) = oh_file h" "oh_handle_id (follow_rename old new h) = oh_handle_id h"
  "oh_dirty (follow_rename old new h) = oh_dirty h"
  by (auto simp: follow_rename_def Let_def split: option.splits)

text \<open>A cache path that mirrors the remote path keeps doing so.\<close>

definition mirrors :: "path \<Rightarrow> 'f open_handle \<Rightarrow> bool" where
  "mirrors root h \<longleftrightarrow> oh_cache_path h = root @ trim_start_slash (oh_remote_path h) \<and> valid_utf8 (oh_cache_path h)"

lemma follow_rename_cache:
  assumes "mirrors root h" and "below old (oh_remote_path h)"
  shows "oh_cache_path (follow_rename old new h) = root @ trim_start_slash (rebase old new (oh_remote_path h))"
proof -
  let ?rel = "trim_start_slash (oh_remote_path h)"
  have "strip_suffix (oh_cache_path h) ?rel = Some root"
    using assms(1) by (simp add: mirrors_def strip_suffix_Some)
  moreover have "valid_utf8 (oh_cache_path h)"
    using assms(1) unfolding mirrors_def by (rule conjunct2)
  then have "os_to_str (oh_cache_path h) = Some (oh_cache_path h)"
    by (simp add: os_to_str_def)
  ultimately show ?thesis
    using assms(2) by (auto simp: follow_rename_def Let_def strip_prefix_iff starts_with_slash below_iff rebase_def)
qed

lemma rename_Inr:
  assumes "fuse_rename w i n j k s = Some (Inr (), s')"
  obtains op np s1 s2 where "valid_utf8 n" "valid_utf8 k" "path_for (paths s) i = Some op" "path_for (paths s) j = Some np"
    "refuse_nfc_collision w np (child_path (lib w) np k) k s = Some (Inr (), s1)"
    "ipc_call (rc_rename (lib w) (rc w) (child_path (lib w) op n) (child_path (lib w) np k)) s1 = Some (Inr (), s2)"
    "s' = record_raw_name w (child_path (lib w) np k) k (rename_raw_names (child_path (lib w) op n) (child_path (lib w) np k)
       (s2\<lparr>paths := pm_rename (paths s2) (child_path (lib w) op n) (child_path (lib w) np k),
         open_handles := map (\<lambda>(fh, h). (fh, follow_rename (child_path (lib w) op n) (child_path (lib w) np k) h))
           (open_handles s2)\<rparr>))"
  using assms unfolding fuse_rename_def Let_def
  by (auto simp: andthen_Inr step_Some)

lemma keeps_handles_simple:
  "keeps (\<lambda>s. open_handles s = hs) (ipc_call m)" "keeps (\<lambda>s. open_handles s = hs) (on_disk f)"
  by (auto simp: keeps_def ipc_call_def zoom_def on_disk_def Let_def split: Option.bind_splits prod.splits)

lemma keeps_handles_refuse: "keeps (\<lambda>s. open_handles s = hs) (refuse_nfc_collision w p cp n)"
proof -
  have "keeps (\<lambda>s. open_handles s = hs) (\<lambda>s. let (representable, s1) = quarantine es s;
      (out, s2) = intern_entries representable s1 in Some (Inr out, s2))" for es
    by (intro keepsI) (auto simp: case_prod_beta Let_def)
  then have "keeps (\<lambda>s. open_handles s = hs) (populate_from_list w q)" for q
    unfolding populate_from_list_def by (intro keeps_handles_simple keeps_rules)
  then show ?thesis unfolding refuse_nfc_collision_def by (intro keeps_rules)
qed

lemma rename_inode:
  assumes "fs_inv s" and "fuse_rename w i n j k s = Some (Inr (), s')" and "path_for (paths s) ino = Some p"
    and "path_for (paths s) i = Some op" and "path_for (paths s) j = Some np" and "below (child_path (lib w) op n) p"
  shows "path_for (paths s') ino = Some (rebase (child_path (lib w) op n) (child_path (lib w) np k) p)"
  using assms(2)
proof (cases rule: rename_Inr)
  case (1 op' np' s1 s2)
  let ?old = "child_path (lib w) op n" and ?new = "child_path (lib w) np k"
  have same: "op' = op" "np' = np" using 1(3,4) assms(4,5) by simp_all
  have maps: "maps ino p s2"
    using keepsD [OF keeps_maps_basic(1) keepsD [OF keeps_maps_refuse _ 1(5)] 1(6)] assms(1,3)
    by (simp add: maps_def)
  have "path_for (pm_rename (paths s2) ?old ?new) ino = renamed_path (path_for (paths s2)) ?old ?new ino"
    by (rule pm_rename_path_for [where ?p0.0 = p]) (use maps assms(6) in \<open>auto simp: maps_def simp flip: pm_inv_iff\<close>)
  then show ?thesis using maps 1(7) assms(6) unfolding same by (simp add: maps_def renamed_path_def)
qed


text \<open>The open file q becomes z.\<close>

lemma toy_rename:
  assumes "toy_has_q ''O'' s"
  shows "\<exists>s'. fuse_rename toy_sys ROOT_INODE ''q'' ROOT_INODE ''z'' s = Some (Inr (), s') \<and> disk s' = disk s"
proof -
  obtain c where up: "toy_up ''O'' c s" using assms by (auto simp: toy_has_q_def)
  obtain req where call: "ipc_call (rc_rename toy_ext toy_cfg ''/k'' ''/z'') s = Some (Inr (), s\<lparr>ipc := toy_rc (toy_next req c)\<rparr>)"
    using toy_fs_unit(1) [OF up, of "''/k''" "''/z''"] by blast
  have z: "valid_utf8 ''z''" "child_path toy_ext '''' ''z'' = ''/z''" "basename ''/z'' = ''z''"
    by (simp_all add: valid_utf8_ascii child_path_def toy_nfc_def slash_def basename_def)
  have "refuse_nfc_collision toy_sys '''' ''/z'' ''z'' s = Some (Inr (), s)"
    using assms z by (simp add: refuse_nfc_collision_def visible_name_def toy_has_q_def ret_def)
  with call assms z show ?thesis
    by (simp add: fuse_rename_def andthen_def name_of_def os_to_str_def ok_or_def ret_def path_of_inode_def gets_def
        toy_has_q_def map_err_def modify_def Let_def rename_raw_names_def)
qed


section \<open>What the data path sends\<close>

abbreviation sent :: "('d, 'f) fs \<Rightarrow> json list" where
  "sent s \<equiv> verbs_sent (ipc s)"

definition upload_request :: "'f open_handle \<Rightarrow> json" where
  "upload_request h = verb ''hydration.open_write'' [(''handle_id'', oh_handle_id h), (''path'', oh_remote_path h),
     (''cache_path'', from_utf8_lossy (oh_cache_path h))]"

definition close_request :: "string \<Rightarrow> json" where
  "close_request hid = verb ''hydration.close_handle'' [(''handle_id'', hid)]"

lemma ensure_connected_fresh: "ensure_connected x cfg s = Some (r, s') \<Longrightarrow> fresh_peers s \<Longrightarrow> fresh_peers s'"
  using ensure_connected_sends by blast

lemma no_retry_fresh:
  assumes "no_retry_on_io x cfg m s = Some (r, s')" and "fresh_peers s"
  shows "fresh_peers s'"
  using assms(1)
  by (cases rule: no_retry_on_io_cases) (auto dest: ensure_connected_fresh [OF _ assms(2)])

lemma retry_fresh: "retry_io_loop x cfg m s = Some (r, s') \<Longrightarrow> fresh_peers s \<Longrightarrow> fresh_peers s'"
  by (induction rule: retry_io_loop_induct) (auto dest: ensure_connected_fresh)

text \<open>An upload is sent at most once, and once when it succeeds; only the connection changes.\<close>

lemma upload_sends:
  assumes "upload_handle w (oh_handle_id h) (oh_remote_path h) (oh_cache_path h) s = Some (r, s')"
    and "fresh_peers (ipc s)"
  shows "(sent s' = sent s @ [upload_request h] \<or> sent s' = sent s \<and> (\<exists>e. r = Inl e)) \<and>
    fresh_peers (ipc s') \<and> (\<exists>c. s' = s\<lparr>ipc := c\<rparr>)"
proof -
  obtain c where c: "rc_open_write (lib w) (rc w) (oh_handle_id h) (oh_remote_path h) (from_utf8_lossy (oh_cache_path h)) (ipc s) = Some (r, c)"
    and s': "s' = s\<lparr>ipc := c\<rparr>"
    using assms(1) by (auto simp: upload_handle_def ipc_call_def zoom_def split: Option.bind_splits)
  show ?thesis
    using v_open_write.at_most_once [OF c [unfolded rc_open_write_def] assms(2)] s'
      no_retry_fresh [OF c [unfolded rc_open_write_def] assms(2)]
    by (auto simp: upload_request_def)
qed

text \<open>It is sent when the daemon can be reached and the request is within the length that it accepts.\<close>

definition deliverable :: "('d, 'f) sys \<Rightarrow> ('d, 'f) fs \<Rightarrow> json \<Rightarrow> bool" where
  "deliverable w s req \<longleftrightarrow> fits_cap (lib w) req \<and> (\<exists>c. ensure_connected (lib w) (rc w) (ipc s) = Some (Inr (), c))"

lemma upload_sent:
  assumes "upload_handle w (oh_handle_id h) (oh_remote_path h) (oh_cache_path h) s = Some (r, s')"
    and "fresh_peers (ipc s)"
  shows "sent s' = sent s @ (if deliverable w s (upload_request h) then [upload_request h] else [])"
proof -
  obtain c where c: "no_retry_on_io (lib w) (rc w)
        (open_write (lib w) (oh_handle_id h) (oh_remote_path h) (from_utf8_lossy (oh_cache_path h))) (ipc s) = Some (r, c)"
    and s': "s' = s\<lparr>ipc := c\<rparr>"
    using assms(1) by (auto simp: upload_handle_def rc_open_write_def ipc_call_def zoom_def split: Option.bind_splits)
  from c show ?thesis
  proof (cases rule: no_retry_on_io_cases)
    case (down e)
    then show ?thesis using ensure_connected_sends [OF _ assms(2)] s' by (auto simp: deliverable_def)
  next
    case (called s1 k k')
    have "issued k' = issued k @ (if fits_cap (lib w) (upload_request h) then [upload_request h] else [])"
      using checked_call_issued [OF called(3) [unfolded open_write_def] silent_field_str]
      by (simp add: upload_request_def)
    moreover have "verbs_sent c = verbs_sent (s1\<lparr>inner := Some k'\<rparr>)"
      using called(4) v_open_write.call_drops by auto
    moreover have "verbs_sent s1 = verbs_sent (ipc s)"
      using ensure_connected_sends [OF called(1) assms(2)] by blast
    ultimately show ?thesis
      using called(1,2) s' by (auto simp: deliverable_def verbs_sent_def upload_request_def)
  qed
qed

lemma close_sends:
  assumes "close_jvm_handle w hid s = Some (r, s')" and "fresh_peers (ipc s)"
  shows "\<exists>k. sent s' = sent s @ replicate k (close_request hid) \<and> (k = 0 \<longrightarrow> (\<exists>e. r = Inl e)) \<and>
    fresh_peers (ipc s') \<and> (\<exists>c. s' = s\<lparr>ipc := c\<rparr>)"
proof -
  obtain c where c: "rc_close_handle (lib w) (rc w) hid (ipc s) = Some (r, c)" and s': "s' = s\<lparr>ipc := c\<rparr>"
    using assms(1) by (auto simp: close_jvm_handle_def ipc_call_def zoom_def split: Option.bind_splits)
  show ?thesis
    using v_close_handle.resent [OF c [unfolded rc_close_handle_def] assms(2)] s'
      retry_fresh [OF c [unfolded rc_close_handle_def] assms(2)]
    by (auto simp: close_request_def)
qed

section \<open>Writing\<close>

lemma getattr_cached:
  assumes "map_of (attrs s) i = Some a" and "i \<noteq> ROOT_INODE"
  shows "getattr w i s = Some (Inr \<lparr>ra_ttl_secs = 1, ra_attr = file_attr_from_cached w i a\<rparr>, s)"
  using assms by (simp add: getattr_def get_or_fetch_attr_def andthen_def gets_def ret_def)

lemma write_file_Inr:
  assumes "write_file w i fh off data s = Some (Inr n, s')"
  obtains h k d where "map_of (open_handles s) fh = Some h" "os_write_at w (oh_file h) data off (disk s) = (Inr k, d)"
    "n = of_nat k"
    "s' = set_attr_of i (\<lambda>a. a\<lparr>ca_size := max (ca_size a) (off + of_nat k), ca_mtime_ms := os_now_ms w d,
       ca_remote_mtime_ms := None\<rparr>) (set_handle fh (\<lambda>h. h\<lparr>oh_dirty := True\<rparr>) (s\<lparr>disk := d\<rparr>))"
  using assms unfolding write_file_def Let_def
  by (auto simp: andthen_Inr step_Some now_ms_def set_handle_def)

text \<open>A write is visible at once and will be uploaded: when it succeeds the bytes are in the cache
  file, the handle is dirty, and the next stat of the file reports a size that reaches to the end of
  the bytes just written, without asking the daemon; the size never shrinks, and it is exact as long
  as the end of the write fits in 64 bits.\<close>

theorem write_then_stat:
  assumes "write_file w i fh off data s = Some (Inr n, s')" and "map_of (attrs s) i = Some a" and "i \<noteq> ROOT_INODE"
  shows "\<exists>h h' k d rep. map_of (open_handles s) fh = Some h \<and> os_write_at w (oh_file h) data off (disk s) = (Inr k, d) \<and>
    n = of_nat k \<and> disk s' = d \<and> map_of (open_handles s') fh = Some h' \<and> oh_dirty h' \<and>
    getattr w i s' = Some (Inr rep, s') \<and>
    (if unat off + k < 2 ^ 64 then unat (fa_size (ra_attr rep)) = max (unat (ca_size a)) (unat off + k) else True)"
  using assms(1)
proof (cases rule: write_file_Inr)
  case (1 h k d)
  let ?a = "a\<lparr>ca_size := max (ca_size a) (off + of_nat k), ca_mtime_ms := os_now_ms w d, ca_remote_mtime_ms := None\<rparr>"
  have "map_of (attrs s') i = Some ?a"
    using 1(4) assms(2) by (simp add: set_attr_of_def set_handle_def)
  note stat = getattr_cached [OF this assms(3), of w]
  have "unat (max (ca_size a) (off + of_nat k)) = max (unat (ca_size a)) (unat off + k)" if "unat off + k < 2 ^ 64"
  proof -
    have "unat (of_nat k :: u64) = k" using that by (simp add: unat_of_nat)
    then have "unat (off + of_nat k) = unat off + k" using that by (simp add: unat_word_ariths)
    then show ?thesis by (simp add: max_def word_le_nat_alt)
  qed
  with 1 stat show ?thesis
    by (auto simp: set_attr_of_def set_handle_def file_attr_from_cached_def Let_def)
qed

theorem write_then_stat_witness:
  "\<exists>s s' rep. write_file toy_sys 3 1 0 ''ab'' s = Some (Inr 2, s') \<and> getattr toy_sys 3 s' = Some (Inr rep, s') \<and>
     unat (fa_size (ra_attr rep)) = 2"
proof -
  obtain s where s: "toy_has_q '''' s" using toy_has_q_exists by blast
  then obtain s' where s': "write_file toy_sys 3 1 0 ''ab'' s = Some (Inr 2, s')"
    by (simp add: toy_has_q_def write_file_def handle_of_def andthen_def gets_def ok_or_def ret_def map_err_def
        on_disk_def toy_write_def toy_handle_def modify_def Let_def)
  have "map_of (attrs s) 3 = Some toy_attr" "(3 :: nat) \<noteq> ROOT_INODE"
    "open_handles s = [(1, toy_handle)]" "disk s = [(''/c/k'', '''')]"
    using s by (simp_all add: toy_has_q_def ROOT_INODE_def)
  with write_then_stat [OF s'] have "\<exists>rep. getattr toy_sys 3 s' = Some (Inr rep, s') \<and> unat (fa_size (ra_attr rep)) = 2"
    by (fastforce simp: toy_write_def toy_handle_def toy_attr_def)
  with s' show ?thesis by blast
qed

section \<open>Fsync and release\<close>

lemma set_handle_lookup [simp]:
  "map_of (open_handles (set_handle fh f s)) fh = map_option f (map_of (open_handles s) fh)"
  "ipc (set_handle fh f s) = ipc s"
  by (simp_all add: set_handle_def)

text \<open>C9. An fsync that succeeds means that the daemon has taken the bytes: the handle is clean, and when
  it was dirty its upload was sent, once, and acknowledged. An fsync that fails, at the local sync or at
  the upload, leaves the handle as it was, so a dirty one is uploaded again at release.\<close>

theorem fsync_outcome:
  assumes "fsync w fh ds s = Some (r, s')" and "map_of (open_handles s) fh = Some h" and "fresh_peers (ipc s)"
  shows "case r of
      Inr _ \<Rightarrow> map_of (open_handles s') fh = Some (h\<lparr>oh_dirty := False\<rparr>) \<and>
        sent s' = sent s @ (if oh_dirty h then [upload_request h] else [])
    | Inl _ \<Rightarrow> map_of (open_handles s') fh = Some h"
proof -
  obtain q d where "(if ds then os_sync_data w (oh_file h) else os_sync_all w (oh_file h)) (disk s) = (q, d)"
    by fastforce
  then have sync: "on_disk (if ds then os_sync_data w (oh_file h) else os_sync_all w (oh_file h)) s = Some (q, s\<lparr>disk := d\<rparr>)"
    by (simp add: on_disk_Some)
  have handle: "handle_of fh s = Some (Inr h, s)" using assms(2) by (simp add: step_Some)
  let ?s1 = "set_handle fh (\<lambda>h. h\<lparr>oh_dirty := False\<rparr>) (s\<lparr>disk := d\<rparr>)"
  let ?up = "upload_handle w (oh_handle_id h) (oh_remote_path h) (oh_cache_path h)"
  show ?thesis
  proof (cases q)
    case (Inl e)
    with sync handle assms(1,2) show ?thesis
      by (auto simp: fsync_def andthen_def map_err_def)
  next
    case (Inr u)
    show ?thesis
    proof (cases "oh_dirty h")
      case False
      with Inr sync handle assms(1,2) show ?thesis
        by (auto simp: fsync_def andthen_def map_err_def modify_def ret_def Let_def)
    next
      case True
      obtain q' s2 where up: "?up ?s1 = Some (q', s2)"
        using assms(1) Inr sync handle True
        by (auto simp: fsync_def andthen_def map_err_def modify_def attempt_def Let_def split: Option.bind_splits)
      have up': "sent s2 = sent s @ [upload_request h] \<or> sent s2 = sent s \<and> (\<exists>e. q' = Inl e)"
        and same: "\<exists>c. s2 = ?s1\<lparr>ipc := c\<rparr>"
        using upload_sends [OF up] assms(3) by simp_all
      from same have h2: "map_of (open_handles s2) fh = Some (h\<lparr>oh_dirty := False\<rparr>)"
        using assms(2) by auto
      have run: "fsync w fh ds s = (case q' of
          Inl e \<Rightarrow> Some (Inl (ipc_error_to_errno e), set_handle fh (\<lambda>h. h\<lparr>oh_dirty := True\<rparr>) s2)
        | Inr _ \<Rightarrow> Some (Inr (), s2))"
        using Inr sync handle True up
        by (simp add: fsync_def andthen_def map_err_def modify_def attempt_def Let_def throw_def ret_def split: sum.splits)
      show ?thesis
        using assms(1) run up' h2 True by (cases q') auto
    qed
  qed
qed

lemma toy_fresh: "toy_has_q ls s \<Longrightarrow> fresh_peers (ipc s)"
  by (auto simp: toy_has_q_def toy_up_def toy_rc_def fresh_peers_def toy_net_def toy_peer_def toy_conn_def)

lemma toy_handle_1: "toy_has_q ls s \<Longrightarrow> map_of (open_handles s) 1 = Some toy_handle"
  by (simp add: toy_has_q_def)

lemma toy_fsync:
  assumes "toy_has_q ''O'' s"
  shows "\<exists>s'. fsync toy_sys 1 False s = Some (Inr (), s')"
proof -
  obtain c where "toy_up ''O'' c s" using assms by (auto simp: toy_has_q_def)
  then have up: "toy_up ''O'' c (set_handle 1 f (s\<lparr>disk := d\<rparr>))" for f d
    by (simp add: toy_up_def set_handle_def)
  have "handle_of 1 s = Some (Inr toy_handle, s)" using toy_handle_1 [OF assms] by (simp add: step_Some)
  moreover obtain s2 where "upload_handle toy_sys (oh_handle_id toy_handle) (oh_remote_path toy_handle) (oh_cache_path toy_handle)
      (set_handle 1 (\<lambda>h. h\<lparr>oh_dirty := False\<rparr>) (s\<lparr>disk := disk s\<rparr>)) = Some (Inr ''/c/k'', s2)"
    using toy_fs_open_write [OF up] by blast
  moreover have "oh_dirty toy_handle" by (simp add: toy_handle_def)
  ultimately have "fsync toy_sys 1 False s = Some (Inr (), s2)"
    by (simp add: fsync_def andthen_def map_err_def on_disk_def modify_def attempt_def ret_def Let_def)
  then show ?thesis by blast
qed

theorem fsync_outcome_witness:
  "\<exists>s s'. fsync toy_sys 1 False s = Some (Inr (), s') \<and> sent s' = sent s @ [upload_request toy_handle]"
proof -
  obtain s where s: "toy_has_q ''O'' s" using toy_has_q_exists by blast
  obtain s' where run: "fsync toy_sys 1 False s = Some (Inr (), s')" using toy_fsync [OF s] by blast
  from fsync_outcome [OF run toy_handle_1 [OF s] toy_fresh [OF s]] run show ?thesis
    by (auto simp: toy_handle_def)
qed

lemma release_spec:
  assumes "release w fh s = Some (r, s')" and "fresh_peers (ipc s)"
  shows "r = Inr () \<and> map_of (open_handles s') fh = None \<and>
    (case map_of (open_handles s) fh of
       None \<Rightarrow> s' = s
     | Some h \<Rightarrow> \<exists>k. sent s' = sent s @ (if oh_dirty h \<and> deliverable w s (upload_request h) then [upload_request h] else []) @
         replicate k (close_request (oh_handle_id h)))"
proof (cases "map_of (open_handles s) fh")
  case None
  with assms(1) show ?thesis by (auto simp: release_def ret_def)
next
  case (Some h)
  let ?s1 = "s\<lparr>open_handles := AList.delete fh (open_handles s)\<rparr>"
  let ?up = "upload_handle w (oh_handle_id h) (oh_remote_path h) (oh_cache_path h)"
  have run: "andthen (if oh_dirty h then ignore_err ?up else ret ()) (\<lambda>_. ignore_err (close_jvm_handle w (oh_handle_id h))) ?s1
      = Some (r, s')"
    using assms(1) Some by (simp add: release_def)
  obtain s2 where s2: "(if oh_dirty h then ignore_err ?up else ret ()) ?s1 = Some (Inr (), s2)"
    and close: "ignore_err (close_jvm_handle w (oh_handle_id h)) s2 = Some (r, s')"
    using run by (auto simp: andthen_Some ignore_err_def attempt_Some simple_Some split: if_splits)
  let ?us = "if oh_dirty h \<and> deliverable w s (upload_request h) then [upload_request h] else []"
  have us: "(\<exists>c. s2 = ?s1\<lparr>ipc := c\<rparr>) \<and> sent s2 = sent s @ ?us \<and> fresh_peers (ipc s2)"
  proof (cases "oh_dirty h")
    case True
    then obtain q where "?up ?s1 = Some (q, s2)"
      using s2 by (auto simp: ignore_err_def attempt_def andthen_def ret_def split: Option.bind_splits)
    from upload_sends [OF this] upload_sent [OF this] True assms(2) show ?thesis by (simp add: deliverable_def)
  next
    case False
    with s2 assms(2) show ?thesis by (auto simp: ret_def intro!: exI [of _ "ipc s"])
  qed
  obtain q where q: "close_jvm_handle w (oh_handle_id h) s2 = Some (q, s')" "r = Inr ()"
    using close by (auto simp: ignore_err_def attempt_def andthen_def ret_def split: Option.bind_splits)
  obtain k c' where "sent s' = sent s2 @ replicate k (close_request (oh_handle_id h))" "s' = s2\<lparr>ipc := c'\<rparr>"
    using close_sends [OF q(1)] us by blast
  with us q(2) Some show ?thesis by auto
qed

lemma toy_release:
  assumes "toy_has_q ''OO'' s"
  shows "\<exists>s'. release toy_sys 1 s = Some (Inr (), s') \<and> open_handles s' = []"
proof -
  obtain c where "toy_up ''OO'' c s" using assms by (auto simp: toy_has_q_def)
  then have up: "toy_up ''OO'' c (s\<lparr>open_handles := hs\<rparr>)" for hs by (simp add: toy_up_def)
  obtain req where up1: "upload_handle toy_sys (oh_handle_id toy_handle) (oh_remote_path toy_handle) (oh_cache_path toy_handle)
      (s\<lparr>open_handles := []\<rparr>) = Some (Inr ''/c/k'', s\<lparr>open_handles := [], ipc := toy_rc (toy_next req c)\<rparr>)"
    using toy_fs_open_write [OF up] by blast
  obtain req2 where "close_jvm_handle toy_sys (oh_handle_id toy_handle) (s\<lparr>open_handles := [], ipc := toy_rc (toy_next req c)\<rparr>)
      = Some (Inr (), s\<lparr>open_handles := [], ipc := toy_rc (toy_next req2 (toy_next req c))\<rparr>)"
    using toy_fs_close [OF toy_up_next [OF up]] by fastforce
  moreover have "oh_dirty toy_handle" "open_handles s = [(1, toy_handle)]"
    using assms by (simp_all add: toy_handle_def toy_has_q_def)
  ultimately show ?thesis
    using up1 by (simp add: release_def ignore_err_def andthen_def attempt_def ret_def modify_def gets_def)
qed

text \<open>C8. Releasing a file sends the upload before the close, and the upload exactly when the file is dirty
  and the daemon can be given it (it is reachable, the request is not too long): what goes out is then the
  upload, once, and the close, repeated while connections break;
  the handle is gone and the kernel is told success in every case. An unknown handle changes nothing.\<close>

theorem release_order:
  assumes "release w fh s = Some (r, s')" and "fresh_peers (ipc s)"
  shows "r = Inr () \<and> map_of (open_handles s') fh = None \<and>
    (case map_of (open_handles s) fh of
       None \<Rightarrow> s' = s
     | Some h \<Rightarrow> \<exists>k. sent s' = sent s @ (if oh_dirty h \<and> deliverable w s (upload_request h) then [upload_request h] else []) @
         replicate k (close_request (oh_handle_id h)))"
  using assms by (rule release_spec)

theorem release_order_witness:
  "\<exists>s s' us k. release toy_sys 1 s = Some (Inr (), s') \<and> open_handles s' = [] \<and>
     sent s' = sent s @ us @ replicate k (close_request ''h'')"
proof -
  obtain s where s: "toy_has_q ''OO'' s" using toy_has_q_exists by blast
  then obtain s' where run: "release toy_sys 1 s = Some (Inr (), s')" and gone: "open_handles s' = []"
    using toy_release by blast
  from release_order [OF run toy_fresh [OF s]] toy_handle_1 [OF s]
  have "\<exists>us k. sent s' = sent s @ us @ replicate k (close_request ''h'')"
    by (auto simp: toy_handle_def)
  with run gone show ?thesis by blast
qed

end
