(* ===== verification/FuseHandles.thy ===== *)
theory FuseHandles
  imports FuseData
begin

text \<open>
  The handles that the daemon keeps for the mount: which requests open and close them. A truncation without
  an open file closes what it opened on every path; an open that fails late does not.
\<close>

definition read_request :: "string \<Rightarrow> path \<Rightarrow> json" where
  "read_request hid p = verb ''hydration.open_read'' [(''handle_id'', hid), (''path'', p)]"

lemma open_read_sends:
  assumes "ipc_call (rc_open_read (lib w) (rc w) hid p) s = Some (r, s')" and "fresh_peers (ipc s)"
  shows "\<exists>k. sent s' = sent s @ replicate k (read_request hid p) \<and> (k = 0 \<longrightarrow> (\<exists>e. r = Inl e)) \<and>
    fresh_peers (ipc s') \<and> (\<exists>c. s' = s\<lparr>ipc := c\<rparr>)"
proof -
  obtain c where c: "rc_open_read (lib w) (rc w) hid p (ipc s) = Some (r, c)" and s': "s' = s\<lparr>ipc := c\<rparr>"
    using assms(1) by (auto simp: ipc_call_def zoom_def split: Option.bind_splits)
  show ?thesis
    using v_open_read.resent [OF c [unfolded rc_open_read_def] assms(2)] s'
      retry_fresh [OF c [unfolded rc_open_read_def] assms(2)]
    by (auto simp: read_request_def)
qed

section \<open>Truncating a file that is not open\<close>

text \<open>The requests of a step: \<open>m\<close> sends, after what was sent before, a list of requests that satisfies
  \<open>Q\<close> together with its result.\<close>

definition sends :: "('a \<Rightarrow> json list \<Rightarrow> bool) \<Rightarrow> (('d, 'f) fs, 'e, 'a) prog \<Rightarrow> ('e \<Rightarrow> json list \<Rightarrow> bool) \<Rightarrow> bool" where
  "sends Q m E \<longleftrightarrow> (\<forall>s r s'. fresh_peers (ipc s) \<longrightarrow> m s = Some (r, s') \<longrightarrow> fresh_peers (ipc s') \<and>
     (\<exists>js. sent s' = sent s @ js \<and> (case r of Inr v \<Rightarrow> Q v js | Inl e \<Rightarrow> E e js)))"

lemma sendsD:
  assumes "sends Q m E" and "m s = Some (r, s')" and "fresh_peers (ipc s)"
  obtains js where "sent s' = sent s @ js" "case r of Inr v \<Rightarrow> Q v js | Inl e \<Rightarrow> E e js" "fresh_peers (ipc s')"
  using assms unfolding sends_def by blast

lemma sends_andthen:
  assumes "sends Q m E" and "\<And>v. sends (R v) (k v) (F v)"
    and "\<And>e js. E e js \<Longrightarrow> E' e js" and "\<And>v u js js'. Q v js \<Longrightarrow> R v u js' \<Longrightarrow> Q' u (js @ js')"
    and "\<And>v e js js'. Q v js \<Longrightarrow> F v e js' \<Longrightarrow> E' e (js @ js')"
  shows "sends Q' (andthen m k) E'"
  unfolding sends_def
proof (intro allI impI)
  fix s r s'
  assume fresh: "fresh_peers (ipc s)" and "andthen m k s = Some (r, s')"
  then consider (stop) e where "m s = Some (Inl e, s')" "r = Inl e"
    | (go) v t where "m s = Some (Inr v, t)" "k v t = Some (r, s')"
    unfolding andthen_Some by blast
  then show "fresh_peers (ipc s') \<and> (\<exists>js. sent s' = sent s @ js \<and> (case r of Inr v \<Rightarrow> Q' v js | Inl e \<Rightarrow> E' e js))"
  proof cases
    case stop
    then show ?thesis using sendsD [OF assms(1) _ fresh] assms(3) by fastforce
  next
    case go
    obtain js where js: "sent t = sent s @ js" "Q v js" "fresh_peers (ipc t)"
      using sendsD [OF assms(1) go(1) fresh] by auto
    obtain js' where "sent s' = sent t @ js'" "case r of Inr u \<Rightarrow> R v u js' | Inl e \<Rightarrow> F v e js'" "fresh_peers (ipc s')"
      using sendsD [OF assms(2) go(2) js(3)] by blast
    with js assms(4,5) show ?thesis by (auto split: sum.splits)
  qed
qed

lemma sends_nothing:
  "sends (\<lambda>u js. js = [] \<and> u = v) (ret v) E" "sends Q (throw e) (\<lambda>e' js. e' = e \<and> js = [])"
  "sends (\<lambda>_ js. js = []) (on_disk f) (\<lambda>_ js. js = [])" "sends (\<lambda>_ js. js = []) fresh_handle_number (\<lambda>_ _. False)"
  by (auto simp: sends_def ret_def throw_def on_disk_Some fresh_handle_number_Some split: sum.splits)

lemma sends_attempt: "sends Q m E \<Longrightarrow> sends (\<lambda>r js. case r of Inr v \<Rightarrow> Q v js | Inl e \<Rightarrow> E e js) (attempt m) (\<lambda>_ _. False)"
  unfolding sends_def attempt_Some by (fastforce split: sum.splits)

lemma sends_mono:
  "sends Q m E \<Longrightarrow> (\<And>v js. Q v js \<Longrightarrow> Q' v js) \<Longrightarrow> (\<And>e js. E e js \<Longrightarrow> E' e js) \<Longrightarrow> sends Q' m E'"
  unfolding sends_def by (metis (no_types, lifting) sum.case_eq_if)

lemma sends_map_err: "sends Q m E \<Longrightarrow> (\<And>e js. E e js \<Longrightarrow> E' (f e) js) \<Longrightarrow> sends Q (map_err f m) E'"
  unfolding sends_def map_err_def by (fastforce split: Option.bind_splits sum.splits)

lemma sends_close: "sends (\<lambda>_ js. \<exists>b. js = replicate b (close_request hid)) (ignore_err (close_jvm_handle w hid)) (\<lambda>_ _. False)"
  unfolding sends_def ignore_err_def
  by (auto simp: andthen_Some attempt_Some simple_Some dest!: close_sends)

definition upload_of :: "string \<Rightarrow> path \<Rightarrow> path \<Rightarrow> json" where
  "upload_of hid p cp = upload_request \<lparr>oh_file = (), oh_handle_id = hid, oh_remote_path = p, oh_cache_path = cp, oh_dirty = True\<rparr>"

lemma upload_of_handle: "upload_request h = upload_of (oh_handle_id h) (oh_remote_path h) (oh_cache_path h)"
  by (simp add: upload_of_def upload_request_def)

lemma sends_upload:
  fixes w :: "('d, 'f) sys"
  shows "sends (\<lambda>_ js. js = [upload_of hid p cp]) (upload_handle w hid p cp) (\<lambda>_ js. js = [] \<or> js = [upload_of hid p cp])"
  unfolding sends_def
proof (intro allI impI)
  fix s :: "('d, 'f) fs" and r s'
  let ?h = "\<lparr>oh_file = (), oh_handle_id = hid, oh_remote_path = p, oh_cache_path = cp, oh_dirty = True\<rparr>"
  assume "fresh_peers (ipc s)" and "upload_handle w hid p cp s = Some (r, s')"
  then show "fresh_peers (ipc s') \<and> (\<exists>js. sent s' = sent s @ js \<and>
      (case r of Inr v \<Rightarrow> js = [upload_of hid p cp] | Inl e \<Rightarrow> js = [] \<or> js = [upload_of hid p cp]))"
    using upload_sends [of w ?h s r s'] by (auto simp: upload_of_handle split: sum.splits)
qed

lemma sends_open_read:
  "sends (\<lambda>_ js. \<exists>a. 0 < a \<and> js = replicate a (read_request hid p)) (ipc_call (rc_open_read (lib w) (rc w) hid p))
     (\<lambda>_ js. \<exists>a. js = replicate a (read_request hid p))"
  unfolding sends_def by (fastforce dest!: open_read_sends split: sum.splits)

text \<open>The end of the bare truncation: upload and close.\<close>

lemma sends_commit:
  "sends (\<lambda>_ js. \<exists>b. js = [upload_of hid p cp] @ replicate b (close_request hid)) (commit_and_close w hid p cp)
     (\<lambda>_ js. \<exists>us b. js = us @ replicate b (close_request hid) \<and> (us = [] \<or> us = [upload_of hid p cp]))"
  unfolding commit_and_close_def
proof (rule sends_andthen [OF sends_attempt [OF sends_upload]])
  fix v
  show "sends (\<lambda>_ js. (\<exists>b. js = replicate b (close_request hid)) \<and> (\<exists>x. v = Inr x))
     (andthen (ignore_err (close_jvm_handle w hid)) (\<lambda>_. case v of Inl e \<Rightarrow> throw (ipc_error_to_errno e) | Inr _ \<Rightarrow> ret ()))
     (\<lambda>_ js. (\<exists>b. js = replicate b (close_request hid)) \<and> (\<exists>e. v = Inl e))"
  proof (rule sends_andthen [OF sends_close])
    show "sends (\<lambda>u js. js = [] \<and> (\<exists>x. v = Inr x)) (case v of Inl e \<Rightarrow> throw (ipc_error_to_errno e) | Inr _ \<Rightarrow> ret ())
        (\<lambda>_ js. js = [] \<and> (\<exists>e. v = Inl e))" for u
      by (auto simp: sends_def throw_def ret_def split: sum.splits)
  qed auto
qed (auto split: sum.splits)

lemma sends_close_and_fail:
  "sends (\<lambda>_ _. False) (close_and_fail w hid) (\<lambda>_ js. \<exists>b. js = replicate b (close_request hid))"
  unfolding close_and_fail_def
  by (rule sends_andthen [OF sends_close sends_nothing(2)]) auto

text \<open>What is sent once the daemon has opened the file: at most one upload, and only if a file could be
  resized, then closes.\<close>

definition resizable :: "('d, 'f) sys \<Rightarrow> u64 \<Rightarrow> bool" where
  "resizable w n \<longleftrightarrow> (\<exists>f d d'. os_set_len w f n d = (Inr (), d'))"

definition wound_up :: "('d, 'f) sys \<Rightarrow> u64 \<Rightarrow> string \<Rightarrow> path \<Rightarrow> path \<Rightarrow> json list \<Rightarrow> bool" where
  "wound_up w n hid p cp js \<longleftrightarrow> (\<exists>us b. js = us @ replicate b (close_request hid) \<and>
     (us = [] \<or> us = [upload_of hid p cp] \<and> resizable w n))"

definition committed :: "string \<Rightarrow> path \<Rightarrow> path \<Rightarrow> json list \<Rightarrow> bool" where
  "committed hid p cp js \<longleftrightarrow> (\<exists>b. js = [upload_of hid p cp] @ replicate b (close_request hid))"

lemma wound_up_closes: "wound_up w n hid p cp (replicate b (close_request hid))"
  unfolding wound_up_def by (intro exI [of _ "[]"]) auto

lemma sends_resize:
  "sends (\<lambda>_ js. committed hid p cp js)
     (andthen (attempt (on_disk (os_set_len w f n))) (\<lambda>q.
        case q of Inl _ \<Rightarrow> close_and_fail w hid | Inr _ \<Rightarrow> commit_and_close w hid p cp))
     (\<lambda>_ js. wound_up w n hid p cp js)"
proof (rule sends_andthen)
  show "sends (\<lambda>q js. js = [] \<and> (\<forall>u. q = Inr u \<longrightarrow> resizable w n)) (attempt (on_disk (os_set_len w f n))) (\<lambda>_ _. False)"
    by (fastforce simp: sends_def attempt_Some on_disk_Some resizable_def)
  show "sends (\<lambda>_ js. committed hid p cp js)
      (case q of Inl _ \<Rightarrow> close_and_fail w hid | Inr _ \<Rightarrow> commit_and_close w hid p cp)
      (\<lambda>_ js. (\<exists>u. q = Inr u) \<and> \<not> resizable w n \<or> wound_up w n hid p cp js)" for q
  proof (cases q)
    case (Inl e)
    then show ?thesis
      by (auto intro: sends_mono [OF sends_close_and_fail] simp: wound_up_closes)
  next
    case (Inr u)
    then show ?thesis
      by (auto intro!: sends_mono [OF sends_commit] simp: committed_def wound_up_def)
  qed
qed auto

lemma sends_after_open:
  "sends (\<lambda>_ js. committed hid p cp js)
    (andthen (attempt (on_disk (os_open_w w cp))) (\<lambda>open_result. case open_result of Inl _ \<Rightarrow> close_and_fail w hid
      | Inr file \<Rightarrow> andthen (attempt (on_disk (os_set_len w file n))) (\<lambda>set_len.
          case set_len of Inl _ \<Rightarrow> close_and_fail w hid | Inr _ \<Rightarrow> commit_and_close w hid p cp)))
    (\<lambda>_ js. wound_up w n hid p cp js)"
proof (rule sends_andthen)
  show "sends (\<lambda>_ js. js = []) (attempt (on_disk (os_open_w w cp))) (\<lambda>_ _. False)"
    by (fastforce simp: sends_def attempt_Some on_disk_Some)
  show "sends (\<lambda>_ js. committed hid p cp js)
      (case q of Inl _ \<Rightarrow> close_and_fail w hid
      | Inr f \<Rightarrow> andthen (attempt (on_disk (os_set_len w f n))) (\<lambda>q.
          case q of Inl _ \<Rightarrow> close_and_fail w hid | Inr _ \<Rightarrow> commit_and_close w hid p cp))
      (\<lambda>_ js. wound_up w n hid p cp js)" for q
    using sends_resize
    by (cases q) (auto intro: sends_mono [OF sends_close_and_fail] simp: wound_up_closes)
qed auto

text \<open>Truncating a file that is not open either commits or leaves the content alone, and always gives
  its handle back: whatever fails, the requests are the opening one (repeated while connections break),
  at most one upload, and then the close of that same handle. The upload is sent only when the cache
  file could be resized, and success means that it was.\<close>

theorem bare_truncate_requests:
  assumes "bare_truncate_size w hid p n s = Some (r, s')" and "fresh_peers (ipc s)"
  shows "\<exists>a js cp. sent s' = sent s @ replicate a (read_request hid p) @ js \<and>
    (case r of Inr _ \<Rightarrow> 0 < a \<and> committed hid p cp js | Inl _ \<Rightarrow> wound_up w n hid p cp js)"
proof -
  have opened: "sends (\<lambda>_ js. \<exists>a. 0 < a \<and> js = replicate a (read_request hid p))
      (map_err ipc_error_to_errno (ipc_call (rc_open_read (lib w) (rc w) hid p)))
      (\<lambda>_ js. \<exists>a. js = replicate a (read_request hid p))"
    by (rule sends_map_err [OF sends_open_read])
  have "sends (\<lambda>_ js. \<exists>a cp ks. 0 < a \<and> js = replicate a (read_request hid p) @ ks \<and> committed hid p cp ks)
      (bare_truncate_size w hid p n)
      (\<lambda>_ js. \<exists>a cp ks. js = replicate a (read_request hid p) @ ks \<and> wound_up w n hid p cp ks)"
    unfolding bare_truncate_size_def
    using wound_up_closes [of w n hid p _ 0]
    by (intro sends_andthen [OF opened sends_after_open]) (auto, metis append_Nil2)
  then obtain js where "sent s' = sent s @ js"
    "case r of Inr _ \<Rightarrow> \<exists>a cp ks. 0 < a \<and> js = replicate a (read_request hid p) @ ks \<and> committed hid p cp ks
       | Inl _ \<Rightarrow> \<exists>a cp ks. js = replicate a (read_request hid p) @ ks \<and> wound_up w n hid p cp ks"
    using sendsD assms by blast
  then show ?thesis by (auto split: sum.splits)
qed

text \<open>Truncating the file k of the example world to one byte: open, upload and close are answered.\<close>

lemma toy_fs_open_read:
  assumes "toy_up (CHR ''O'' # ls) c s"
  shows "ipc_call (rc_open_read toy_ext toy_cfg h p) s =
    Some (Inr ''/c/k'', s\<lparr>ipc := toy_rc (toy_next (read_request h p) c)\<rparr>)"
  unfolding rc_open_read_def open_read_def read_request_def
  by (rule toy_once(2) [OF assms]) (simp_all add: toy_cache_path_call [OF toy_upD(1) [OF assms]])

lemma toy_bare_truncate:
  assumes "toy_has_q ''OOO'' s"
  shows "\<exists>s'. bare_truncate_size toy_sys ''h'' ''/k'' 1 s = Some (Inr (), s')"
proof -
  obtain c where up: "toy_up ''OOO'' c s" using assms by (auto simp: toy_has_q_def)
  let ?r1 = "read_request ''h'' ''/k''"
  let ?s1 = "s\<lparr>ipc := toy_rc (toy_next ?r1 c)\<rparr>"
  have opened: "ipc_call (rc_open_read toy_ext toy_cfg ''h'' ''/k'') s = Some (Inr ''/c/k'', ?s1)"
    by (rule toy_fs_open_read [OF up])
  let ?s2 = "?s1\<lparr>disk := toy_put ''/c/k'' '''' (disk s)\<rparr>"
  have up1: "toy_up ''OO'' (toy_next ?r1 c) ?s2"
    by (rule toy_up_cong [OF toy_up_next [OF up]]) simp
  obtain r2 where upload: "upload_handle toy_sys ''h'' ''/k'' ''/c/k'' ?s2 =
      Some (Inr ''/c/k'', ?s2\<lparr>ipc := toy_rc (toy_next r2 (toy_next ?r1 c))\<rparr>)"
    using toy_fs_open_write [OF up1] by blast
  obtain r3 where close: "close_jvm_handle toy_sys ''h'' (?s2\<lparr>ipc := toy_rc (toy_next r2 (toy_next ?r1 c))\<rparr>) =
      Some (Inr (), ?s2\<lparr>ipc := toy_rc (toy_next r3 (toy_next r2 (toy_next ?r1 c)))\<rparr>)"
    using toy_fs_close [OF toy_up_next [OF up1], of "''h''"] by auto
  have "disk s = [(''/c/k'', '''')]" using assms by (simp add: toy_has_q_def)
  then show ?thesis
    using opened upload close
    by (simp add: bare_truncate_size_def commit_and_close_def andthen_def map_err_def attempt_def on_disk_def
        toy_open_def toy_sys_def ret_def ignore_err_def)
qed

theorem bare_truncate_requests_witness:
  "\<exists>s s' a js cp. bare_truncate_size toy_sys ''h'' ''/k'' 1 s = Some (Inr (), s') \<and>
     sent s' = sent s @ replicate a (read_request ''h'' ''/k'') @ js \<and> 0 < a \<and> committed ''h'' ''/k'' cp js"
proof -
  obtain s where s: "toy_has_q ''OOO'' s" using toy_create by blast
  obtain s' where run: "bare_truncate_size toy_sys ''h'' ''/k'' 1 s = Some (Inr (), s')"
    using toy_bare_truncate [OF s] by blast
  from bare_truncate_requests [OF run] toy_fresh [of "''OOO''" s] s run show ?thesis by (fastforce simp: toy_has_q_def)
qed

section \<open>Opening when the cache file is gone\<close>

text \<open>The call of \<^verbatim>\<open>open\<close> that makes the daemon register a handle, and the opening of the cache file.\<close>

definition wants_write :: "u32 \<Rightarrow> bool" where
  "wants_write flags \<longleftrightarrow> flags AND O_ACCMODE = O_WRONLY \<or> flags AND O_ACCMODE = O_RDWR"

definition register_open :: "('d, 'f) sys \<Rightarrow> u32 \<Rightarrow> path \<Rightarrow> string \<Rightarrow> ('d, 'f, path) handler" where
  "register_open w flags p hid =
     (if wants_write flags \<and> flags AND O_TRUNC \<noteq> 0
      then map_err namespace_err_to_errno (ipc_call (rc_open_write_begin (lib w) (rc w) p (Some hid)))
      else map_err ipc_error_to_errno (ipc_call (rc_open_read (lib w) (rc w) hid p)))"

definition open_cache :: "('d, 'f) sys \<Rightarrow> u32 \<Rightarrow> path \<Rightarrow> 'd \<Rightarrow> (io_err + 'f) \<times> 'd" where
  "open_cache w flags cp = (if wants_write flags then os_open_rw w cp else os_open_rd w cp)"

definition opening_id :: "u32 \<Rightarrow> ('d, 'f) fs \<Rightarrow> string" where
  "opening_id flags s = handle_name (if wants_write flags then ''wh-'' else ''rh-'') (next_handle_id s)"

text \<open>C39. An open whose cache file cannot be opened leaves the daemon holding a handle that nobody closes:
  once the daemon has registered the handle, a failure to open the cache file returns EIO with the table
  of open files as it was and no further request sent, so no later release can name that handle.\<close>

theorem open_leaks_handle:
  assumes "path_for (paths s) i = Some p" and "p \<noteq> ''''"
    and "register_open w flags p (opening_id flags s) (s\<lparr>next_handle_id := next_handle_id s + 1\<rparr>) = Some (Inr cp, s1)"
    and "open_cache w flags cp (disk s1) = (Inl e, d)"
  shows "\<exists>s'. open_file w i flags s = Some (Inl EIO, s') \<and> sent s' = sent s1 \<and> open_handles s' = open_handles s"
proof -
  have path: "path_of_inode i s = Some (Inr p, s)" using assms(1) by (simp add: step_Some)
  have "keeps (\<lambda>s. open_handles s = hs) (register_open w flags p hid)" for hs hid
    unfolding register_open_def by (auto intro: keeps_handles_simple keeps_rules)
  from keepsD [OF this _ assms(3)] have same: "open_handles s1 = open_handles s" by simp
  have "on_disk (open_cache w flags cp) t = Some (Inl e, t\<lparr>disk := d\<rparr>)" if "disk t = disk s1" for t :: "('a, 'b) fs"
    using assms(4) that by (simp add: on_disk_Some)
  with path assms(2,3) same show ?thesis
    unfolding open_file_def register_open_def open_cache_def opening_id_def wants_write_def
    by (simp add: andthen_def fresh_handle_number_def modify_def map_err_def Let_def set_attr_of_def)
qed

text \<open>A read-only open of \<^verbatim>\<open>/k\<close>: the daemon answers with a cache path at which there is no file.\<close>

theorem open_leaks_handle_witness:
  "\<exists>s s' hid. path_for (paths s) 2 = Some ''/k'' \<and> open_file toy_sys 2 0 s = Some (Inl EIO, s') \<and>
     sent s' = [read_request hid ''/k''] \<and> open_handles s' = []"
proof -
  let ?c = "toy_conn [''O'']"
  define s where "s = (toy_lines ''O'')\<lparr>paths := snd (pm_intern pm_new ''/k'')\<rparr>"
  have up: "toy_up ''O'' ?c (s\<lparr>next_handle_id := n\<rparr>)" for n
    using toy_up_fs [of "''O''"] by (simp add: toy_up_def s_def toy_lines_def)
  have p: "path_for (paths s) 2 = Some ''/k''" "open_handles s = []" "disk s = []"
    by (simp_all add: s_def pm_intern_def pm_new_def inode_for_def path_for_def ROOT_INODE_def toy_lines_def toy_fs_def
        fs_new_def)
  have "ipc_call (rc_open_read toy_ext toy_cfg h ''/k'') (s\<lparr>next_handle_id := n\<rparr>) =
      Some (Inr ''/c/k'', s\<lparr>next_handle_id := n, ipc := toy_rc (toy_next (read_request h ''/k'') ?c)\<rparr>)" for h n
    using toy_fs_open_read [OF up] by simp
  then have reg: "register_open toy_sys 0 ''/k'' (opening_id 0 s) (s\<lparr>next_handle_id := next_handle_id s + 1\<rparr>) =
      Some (Inr ''/c/k'', s\<lparr>next_handle_id := next_handle_id s + 1,
        ipc := toy_rc (toy_next (read_request (opening_id 0 s) ''/k'') ?c)\<rparr>)" (is "_ = Some (_, ?s1)")
    by (simp add: register_open_def wants_write_def O_WRONLY_def O_RDWR_def map_err_def)
  have "open_cache toy_sys 0 ''/c/k'' (disk ?s1) = (Inl NotFound, [])"
    by (simp add: open_cache_def wants_write_def O_WRONLY_def O_RDWR_def toy_open_def p)
  moreover have "sent ?s1 = [read_request (opening_id 0 s) ''/k'']"
    by (simp add: verbs_sent_def toy_rc_def toy_next_def toy_conn_def toy_net_def read_request_def)
  ultimately show ?thesis using open_leaks_handle [OF p(1) _ reg] p by fastforce
qed

end
