(* ===== verification/FuseView.thy ===== *)
theory FuseView
  imports FuseHandles
begin

text \<open>
  Keeping the cached view in step with the daemon: exactly what a change event drops
  (\<^verbatim>\<open>ViewCache::apply\<close> in \<^verbatim>\<open>mount/src/fuse_fs.rs\<close>), and \<^verbatim>\<open>keep_view_fresh\<close> of
  \<^verbatim>\<open>mount/src/view_refresh.rs\<close>, the task that feeds the event stream to the view through a queue while
  the kernel's requests go on.
\<close>

section \<open>What a change drops\<close>

text \<open>An inode with unsent writes, and what a change is about.\<close>

definition being_written :: "('d, 'f) fs \<Rightarrow> nat \<Rightarrow> bool" where
  "being_written s i \<longleftrightarrow> (\<exists>fh h. map_of (open_handles s) fh = Some h \<and> oh_dirty h \<and>
     inode_for (paths s) (oh_remote_path h) = Some i)"

definition concerns :: "invalidation \<Rightarrow> path \<Rightarrow> bool" where
  "concerns change p \<longleftrightarrow> (case change of
     All \<Rightarrow> True
   | Paths roots \<Rightarrow> \<exists>r \<in> set roots. p = r \<or> (r \<noteq> '''' \<and> starts_with p (r @ [slash])))"

lemma kept_inodes_mem:
  assumes "distinct (map fst (open_handles s))"
  shows "i \<in> set (kept_inodes s) \<longleftrightarrow> being_written s i"
  using assms
  by (auto simp: kept_inodes_def unsent_def being_written_def map_filter_def image_iff) (force dest: map_of_SomeD)+

lemma view_apply_spec:
  assumes "fs_inv s" and "path_for (paths s) i = Some p"
  shows "map_of (attrs (view_apply change s)) i =
      (if concerns change p \<and> \<not> being_written s i then None else map_of (attrs s) i) \<and>
    (view_apply change s)\<lparr>attrs := attrs s\<rparr> = s"
proof (cases change)
  case All
  then show ?thesis
    using assms by (simp add: view_apply_def Let_def concerns_def kept_inodes_mem fs_inv_def)
next
  case (Paths roots)
  have "i \<in> set (inodes_at_or_below (paths s) (set roots)) \<longleftrightarrow> concerns change p"
    using assms Paths by (simp add: inodes_at_or_below_mem fs_inv_def is_at_or_below_iff concerns_def)
  moreover have "i \<in> set (kept_inodes s) \<longleftrightarrow> being_written s i"
    using assms(1) by (simp add: kept_inodes_mem fs_inv_def)
  ultimately show ?thesis
    using Paths assms by (simp add: view_apply_def Let_def fold_delete_unkept fs_inv_def)
qed

text \<open>C11. A change event drops the cached attributes of exactly the entries it is about, except those with
  unsent local writes; inodes, paths, open files and everything else stay as they are. With the full
  invalidation every entry is concerned, otherwise those at or below one of the listed paths.\<close>

theorem view_apply_exact:
  assumes "fs_inv s" and "path_for (paths s) i = Some p"
  shows "map_of (attrs (view_apply change s)) i =
      (if concerns change p \<and> \<not> being_written s i then None else map_of (attrs s) i) \<and>
    (view_apply change s)\<lparr>attrs := attrs s\<rparr> = s"
  using assms by (rule view_apply_spec)

text \<open>The file k, while it is open and dirty and after it was closed.\<close>

theorem view_apply_exact_witness:
  "\<exists>s :: (toy_disk, path) fs. map_of (attrs (view_apply All s)) 3 = Some toy_attr \<and>
     map_of (attrs (view_apply (Paths [''/k'']) (s\<lparr>open_handles := []\<rparr>))) 3 = None"
proof -
  obtain s where s: "toy_has_q '''' s" "fs_inv s" using toy_has_q_exists by blast
  then have "pm_inv (paths s)" "inode_for (paths s) ''/k'' = Some 3"
    unfolding toy_has_q_def fs_inv_def by blast+
  then have p: "path_for (paths s) 3 = Some ''/k''" by (rule pm_inv_iff [THEN iffD1])
  have "being_written s 3"
    using s(1) by (auto simp: being_written_def toy_has_q_def toy_handle_def)
  then have "map_of (attrs (view_apply All s)) 3 = Some toy_attr"
    using view_apply_exact [OF s(2) p, of All] s(1) by (simp add: toy_has_q_def)
  moreover have "fs_inv (s\<lparr>open_handles := []\<rparr>)" using s(2) by (simp add: fs_inv_def)
  then have "map_of (attrs (view_apply (Paths [''/k'']) (s\<lparr>open_handles := []\<rparr>))) 3 = None"
    using view_apply_exact [of "s\<lparr>open_handles := []\<rparr>" 3 "''/k''" "Paths [''/k'']"] p
    by (simp add: concerns_def being_written_def)
  ultimately show ?thesis by blast
qed

section \<open>The refresh task\<close>

text \<open>The callback of \<^verbatim>\<open>keep_view_fresh\<close>, whose state is the queue of invalidations; it never asks the
  subscription to stop.\<close>

definition on_change :: "ext \<Rightarrow> invalidation list on_event" where
  "on_change x ev q = (True, case invalidation_of x ev of Some change \<Rightarrow> q @ [change] | None \<Rightarrow> q)"

text \<open>One round of the applier task; \<open>applied\<close> records what it has handed to the view.\<close>

record ('d, 'f) refresh =
  subscription :: "invalidation list sub_state"
  view :: "('d, 'f) fs"
  applied :: "invalidation list"

definition apply_next :: "('d, 'f) refresh \<Rightarrow> ('d, 'f) refresh option" where
  "apply_next r = (case callback (subscription r) of
     [] \<Rightarrow> None
   | change # q \<Rightarrow> Some (r\<lparr>subscription := (subscription r)\<lparr>callback := q\<rparr>,
       view := view_apply change (view r), applied := applied r @ [change]\<rparr>))"

text \<open>The subscription, the applier and the kernel take turns in any order.\<close>

inductive keep_view_fresh :: "('d, 'f) sys \<Rightarrow> ipc_auth \<Rightarrow> nat \<Rightarrow> ('d, 'f) refresh \<Rightarrow> bool" for w auth ival where
  spawned: "reachable w (\<lambda>_. True) s \<Longrightarrow>
    keep_view_fresh w auth ival \<lparr>subscription = sub_start n [], view = s, applied = []\<rparr>"
| subscribed: "keep_view_fresh w auth ival r \<Longrightarrow>
    sub_step (lib w) auth ival (on_change (lib w)) (subscription r) = Some b \<Longrightarrow>
    keep_view_fresh w auth ival (r\<lparr>subscription := b\<rparr>)"
| applying: "keep_view_fresh w auth ival r \<Longrightarrow> apply_next r = Some r' \<Longrightarrow> keep_view_fresh w auth ival r'"
| serving: "keep_view_fresh w auth ival r \<Longrightarrow> serve w q (view r) = Some s \<Longrightarrow>
    keep_view_fresh w auth ival (r\<lparr>view := s\<rparr>)"

lemma on_change_step:
  assumes "sub_step x auth ival (on_change x) b = Some b'"
  shows "\<exists>evs. emitted b' = emitted b @ evs \<and>
    callback b' = callback b @ List.map_filter (invalidation_of x) evs"
  using assms unfolding sub_step_def establish_def read_stream_def hand_over_def on_change_def
  by (auto simp: Let_def map_filter_simps split: if_splits option.splits Option.bind_splits sum.splits prod.splits)

lemma keep_view_fresh_inv:
  assumes "keep_view_fresh w auth ival r"
  shows "applied r @ callback (subscription r) = List.map_filter (invalidation_of (lib w)) (emitted (subscription r)) \<and>
    sub_inv (subscription r) \<and> reachable w (\<lambda>_. True) (view r)"
  using assms
proof (induction rule: keep_view_fresh.induct)
  case (spawned s n)
  then show ?case by (simp add: sub_start_def sub_inv_def map_filter_simps)
next
  case (subscribed r b)
  then show ?case
    using on_change_step [OF subscribed(2)] sub_step_inv [OF subscribed(2)]
    by (auto simp: map_filter_def)
next
  case (applying r r')
  moreover have "reachable w (\<lambda>_. True) (view_apply c (view r))" for c
    using applying.IH reachable.served [of w "\<lambda>_. True" "view r" "Change c"] by simp
  ultimately show ?case
    by (auto simp: apply_next_def sub_inv_def split: list.splits)
next
  case (serving r q s)
  then show ?case using reachable.served [of w "\<lambda>_. True"] by fastforce
qed

text \<open>C12. No change is lost and none is applied twice: in whatever order the subscription, the applier and
  the kernel's requests take turns, what was handed to the view followed by what is still queued is exactly
  the invalidations of the lines of all streams, with a full one for every gap between two streams, in the
  order in which they arrived; and the view stays well-formed.\<close>

theorem changes_applied_in_order:
  assumes "keep_view_fresh w auth ival r"
  shows "applied r @ callback (subscription r) =
      List.map_filter (invalidation_of (lib w)) (transcript (streams (subscription r))) \<and> fs_inv (view r)"
  using keep_view_fresh_inv [OF assms] fsi.always by (auto simp: sub_inv_def)

text \<open>A daemon without authentication that accepts the subscription and sends one event.\<close>

abbreviation toy_auth :: ipc_auth where
  "toy_auth \<equiv> \<lparr>token_file = None, profile = ''p''\<rparr>"

definition toy_event_net :: net where
  "toy_event_net = toy_net (\<lambda>_. toy_peer None [''O'', ''O'', ''I''])"

lemma toy_connect:
  assumes "toy_ready (CHR ''O'' # ls) c" and "p_conn (peers n (n_conn n)) = Inr c"
  shows "\<exists>req n'. connect_auth toy_ext toy_auth n = Some (Inr (toy_next req c), n')"
proof -
  have "fallback_check toy_ext toy_auth c = Some (Inr (), toy_next (verb ''daemon.status'' []) c)"
    using toy_answer [OF assms(1), of "toy_reply CHR ''O''"]
    by (simp add: fallback_check_def andthen_def ret_def Let_def toy_reply_def toy_parse_def protocol_version_def
        jindex_def jget_def PROTOCOL_def word_le_nat_alt)
  then show ?thesis
    using assms(2)
    by (simp add: connect_auth_def andthen_def connect_def token_of_def on_conn_def warn_fallback_once_def
        modify_def ret_def Let_def) blast
qed

lemma toy_establish:
  "\<exists>n c. sub_step toy_ext toy_auth 5 (on_change toy_ext) (sub_start toy_event_net []) =
     Some ((sub_start n [])\<lparr>had_stream := True, stream := Some c, streams := [[]]\<rparr>) \<and> toy_ready ''I'' c"
proof -
  let ?c = "toy_conn [''O'', ''O'', ''I'']"
  have r: "toy_ready ''OOI'' ?c" using toy_ready_conn [of "''OOI''"] by simp
  obtain req n where conn: "connect_auth toy_ext toy_auth toy_event_net = Some (Inr (toy_next req ?c), n)"
    using toy_connect [OF r, of toy_event_net] by (auto simp: toy_event_net_def toy_net_def toy_peer_def)
  note r1 = toy_ready_next [OF r, of req]
  have "subscribe toy_ext (toy_next req ?c) =
      Some (Inr (), toy_next (verb ''hydration.subscribe'' []) (toy_next req ?c))"
    unfolding subscribe_def by (rule toy_ok_unit_call [OF r1])
  with conn toy_ready_next [OF r1, of "verb ''hydration.subscribe'' []"] show ?thesis
    by (auto simp: sub_step_def sub_start_def establish_def Let_def)
qed

lemma toy_event_line:
  assumes "toy_ready ''I'' c"
  shows "\<exists>c'. read_event_line c = Some (Inr ''I'', c')"
proof -
  have "rd c = \<lparr>rbuf = '''', rsrc = [Inr (''I'' @ [newline])]\<rparr>"
    using assms by (cases "rd c") (simp add: toy_ready_def)
  then have "\<exists>c'. read_op c = Some (Inr (Line (''I'' @ [newline])), c')"
    using read_op_chunk [of c "''I''" "[]"] by (auto simp: newline_def)
  moreover have "from_utf8_lossy ''I'' = ''I''"
    by (rule valid_utf8_lossy) (simp add: valid_utf8_ascii)
  ultimately show ?thesis
    using strip_newline_line [of "''I''"] by (auto simp: read_event_line_def andthen_def ret_def)
qed

theorem changes_applied_in_order_witness:
  "\<exists>r. keep_view_fresh toy_sys toy_auth 5 r \<and> applied r = [Paths [''/f'']] \<and> streams (subscription r) = [[''I'']] \<and>
     callback (subscription r) = []"
proof -
  obtain n c where step1: "sub_step toy_ext toy_auth 5 (on_change toy_ext) (sub_start toy_event_net []) =
      Some ((sub_start n [])\<lparr>had_stream := True, stream := Some c, streams := [[]]\<rparr>)" and c: "toy_ready ''I'' c"
    using toy_establish by blast
  let ?b1 = "(sub_start n [])\<lparr>had_stream := True, stream := Some c, streams := [[]]\<rparr>"
  obtain c' where line: "read_event_line c = Some (Inr ''I'', c')" using toy_event_line [OF c] by blast
  have ev: "invalidation_of toy_ext (EventLine ''I'') = Some (Paths [''/f''])"
    by (simp add: invalidation_of_def toy_parse_def jindex_def jget_def slash_def)
  obtain b2 where step2: "sub_step toy_ext toy_auth 5 (on_change toy_ext) ?b1 = Some b2"
    and b2: "callback b2 = [Paths [''/f'']]" "streams b2 = [[''I'']]"
    using line by (auto simp: sub_step_def sub_start_def read_stream_def hand_over_def on_change_def ev add_line_def Let_def)
  let ?r0 = "\<lparr>subscription = sub_start toy_event_net [], view = toy_lines [], applied = []\<rparr>"
  have "reachable toy_sys (\<lambda>_. True) (toy_lines [])"
    unfolding toy_lines_def toy_fs_def by (rule reachable.mounted)
  then have "keep_view_fresh toy_sys toy_auth 5 ?r0" by (rule keep_view_fresh.spawned)
  from keep_view_fresh.subscribed [OF this, of ?b1] step1
  have "keep_view_fresh toy_sys toy_auth 5 (?r0\<lparr>subscription := ?b1\<rparr>)" by simp
  from keep_view_fresh.subscribed [OF this, of b2] step2
  have "keep_view_fresh toy_sys toy_auth 5 (?r0\<lparr>subscription := b2\<rparr>)" by simp
  from keep_view_fresh.applying [OF this] obtain r where r: "keep_view_fresh toy_sys toy_auth 5 r"
    "callback (subscription r) = []" "streams (subscription r) = [[''I'']]"
    using b2 by (auto simp: apply_next_def)
  from changes_applied_in_order [OF r(1)] r ev show ?thesis by (auto simp: map_filter_simps)
qed

section \<open>Reading a directory in pieces\<close>

lemma nth_offsets:
  assumes "k < length (x # y # map (\<lambda>(i, v). f i v) (enumerate 0 vs))" and "g x = 1" and "g y = 2"
    and "\<And>i v. g (f i v) = int i + 3"
  shows "g ((x # y # map (\<lambda>(i, v). f i v) (enumerate 0 vs)) ! k) = int k + 1"
proof (cases k)
  case (Suc j)
  then show ?thesis
    using assms by (cases j) (auto simp: nth_enumerate_eq)
qed (use assms in simp)

lemma readdir_pieces: "readdir w parent off = andthen (readdir w parent 0) (\<lambda>all. ret (drop (nat (max off 0)) all))"
  by (auto simp: readdir_def andthen_def ret_def Let_def fun_eq_iff split: option.splits Option.bind_splits sum.splits)

lemma readdirplus_pieces: "readdirplus w parent off = andthen (readdirplus w parent 0) (\<lambda>all. ret (drop (unat off) all))"
  by (auto simp: readdirplus_def andthen_def ret_def Let_def fun_eq_iff split: option.splits Option.bind_splits sum.splits)

lemma readdir_offsets:
  assumes "readdir w parent 0 s = Some (Inr all, s')" and "k < length all"
  shows "de_offset (all ! k) = int k + 1"
  using assms unfolding readdir_def Let_def
  by (auto simp: andthen_Inr step_Some intro!: nth_offsets)

lemma readdirplus_offsets:
  assumes "readdirplus w parent 0 s = Some (Inr all, s')" and "k < length all"
  shows "de_offset (all ! k) = int k + 1"
  using assms unfolding readdirplus_def Let_def
  by (auto simp: andthen_Inr step_Some intro!: nth_offsets)

text \<open>A directory read in pieces neither skips nor repeats an entry: when the kernel comes back with the
  offset of the last entry it took, and the listing is the same, it gets the entries after that one, both
  from \<^verbatim>\<open>readdir\<close> and from \<^verbatim>\<open>readdirplus\<close>, whose offset is an unsigned 64-bit number.\<close>

theorem readdir_resumes:
  assumes "readdir w i 0 s = Some (Inr all, s')" and "k < length all"
    and "readdirplus w j 0 t = Some (Inr allp, t')" and "l < length allp" and "length allp < 2 ^ 64"
  shows "readdir w i (de_offset (all ! k)) s = Some (Inr (drop (Suc k) all), s') \<and>
    readdirplus w j (word_of_int (de_offset (allp ! l))) t = Some (Inr (drop (Suc l) allp), t')"
proof
  have "nat (de_offset (all ! k)) = Suc k"
    using readdir_offsets [OF assms(1,2)] by simp
  then show "readdir w i (de_offset (all ! k)) s = Some (Inr (drop (Suc k) all), s')"
    unfolding readdir_pieces [of w i "de_offset (all ! k)"] using assms(1) by (simp add: andthen_def ret_def)
  let ?off = "word_of_int (de_offset (allp ! l)) :: u64"
  have "int l + 1 < 2 ^ 64" using assms(4,5) by simp
  then have "uint ?off = int l + 1"
    unfolding readdirplus_offsets [OF assms(3,4)] uint_word_of_int_eq by (intro take_bit_int_eq_self) simp_all
  then have "unat ?off = Suc l" by (simp add: unat_eq_nat_uint)
  then show "readdirplus w j ?off t = Some (Inr (drop (Suc l) allp), t')"
    unfolding readdirplus_pieces [of w j ?off] using assms(3) by (simp add: andthen_def ret_def)
qed

text \<open>The root directory with one file, after the second of its three entries.\<close>

theorem readdir_resumes_witness:
  "\<exists>s s' t' all allp. readdir toy_sys ROOT_INODE 0 s = Some (Inr all, s') \<and> length all = 3 \<and>
     readdir toy_sys ROOT_INODE 2 s = Some (Inr (drop 2 all), s') \<and>
     readdirplus toy_sys ROOT_INODE 2 s = Some (Inr (drop 2 allp), t')"
proof -
  define s where "s = toy_lines ''L''"
  obtain m where m: "pm_intern (paths s) ''/f'' = (2, m)"
    by (simp add: s_def toy_lines_def toy_fs_def fs_new_def pm_intern_def pm_new_def inode_for_def ROOT_INODE_def)
  have "toy_up ''L'' (toy_conn [''L'']) s"
    using toy_up_fs [of "''L''"] by (simp add: s_def toy_lines_def)
  from toy_populate [OF this m] obtain s1 where pop: "populate_from_list toy_sys '''' s = Some (Inr [(2, toy_entry)], s1)"
    by blast
  have root: "path_of_inode ROOT_INODE s = Some (Inr '''', s)"
    by (simp add: s_def toy_lines_def toy_fs_def fs_new_def pm_new_def path_for_def step_Some)
  obtain all where all: "readdir toy_sys ROOT_INODE 0 s = Some (Inr all, s1)" "length all = 3"
    using pop root by (simp add: readdir_def andthen_def map_err_def dotdot_inode_def ret_def gets_def Let_def)
  obtain allp where allp: "readdirplus toy_sys ROOT_INODE 0 s = Some (Inr allp, s1)" "length allp = 3"
    using pop root
    by (simp add: readdirplus_def get_or_fetch_attr_def andthen_def map_err_def dotdot_inode_def ret_def gets_def Let_def)
  have "de_offset (all ! 1) = 2" "de_offset (allp ! 1) = 2"
    using readdir_offsets [OF all(1), of 1] readdirplus_offsets [OF allp(1), of 1] all(2) allp(2) by simp_all
  then have "readdir toy_sys ROOT_INODE 2 s = Some (Inr (drop 2 all), s1) \<and>
      readdirplus toy_sys ROOT_INODE 2 s = Some (Inr (drop 2 allp), s1)"
    using readdir_resumes [OF all(1) _ allp(1), of 1 1] all(2) allp(2) by (simp add: numeral_2_eq_2 [symmetric])
  with all show ?thesis by blast
qed

end
