(* ===== verification/FuseListing.thy ===== *)
theory FuseListing
  imports FuseView
begin

text \<open>
  What a listing of the daemon leaves in the caches, and how far the cached view can be trusted. The listing
  is taken in two critical sections (\<^verbatim>\<open>populate_from_list\<close> in \<^verbatim>\<open>mount/src/fuse_fs.rs\<close>): the reply is read
  under the lock of the client, and installed under the locks of the path map and the attributes.
\<close>

section \<open>Installing a listing\<close>

definition install_listing ::
    "list_entry list \<Rightarrow> ('d, 'f) fs \<Rightarrow> (nat \<times> list_entry) list \<times> ('d, 'f) fs" where
  "install_listing entries s = (let (representable, s1) = quarantine entries s in intern_entries representable s1)"

lemma populate_sections:
  "populate_from_list w p = andthen (ipc_call (rc_list (lib w) (rc w) p)) (\<lambda>entries s.
     let (got, s') = install_listing entries s in Some (Inr got, s'))"
  by (simp add: populate_from_list_def install_listing_def case_prod_beta Let_def)

lemma populate_Inr:
  "populate_from_list w p s = Some (Inr got, s') \<longleftrightarrow>
     (\<exists>entries s1. ipc_call (rc_list (lib w) (rc w) p) s = Some (Inr entries, s1) \<and> install_listing entries s1 = (got, s'))"
  unfolding populate_sections by (auto simp: andthen_Inr case_prod_beta Let_def)

lemma quarantine_keeps: "fst (quarantine es s) = filter (\<lambda>e. is_representable_component (basename (le_path e))) es"
  by (induction es s rule: quarantine.induct) (auto simp: case_prod_beta Let_def)

lemma intern_entries_attrs:
  "map_of (attrs (snd (intern_entries es s))) =
     map_of (attrs s) ++ map_of (rev (map (map_prod id attr_of_entry) (fst (intern_entries es s))))"
  by (induction es arbitrary: s) (auto simp: case_prod_beta Let_def map_add_assoc [symmetric])

lemma intern_entries_inodes:
  assumes "fs_inv s"
  shows "map snd (fst (intern_entries es s)) = es \<and>
    (\<forall>(j, e) \<in> set (fst (intern_entries es s)). inode_for (paths (snd (intern_entries es s))) (le_path e) = Some j)"
  using assms
proof (induction es arbitrary: s)
  case (Cons e es)
  obtain ino m where im: "pm_intern (paths s) (le_path e) = (ino, m)" by fastforce
  let ?s = "s\<lparr>paths := m, attrs := AList.update ino (attr_of_entry e) (attrs s)\<rparr>"
  have inv: "fs_inv ?s"
    using fs_inv_intern [OF Cons.prems im] fs_inv_attr [of "s\<lparr>paths := m\<rparr>" ino] by simp
  have "inode_for m (le_path e) = Some ino"
    using pm_intern_inode_for [of "paths s" "le_path e" "le_path e"] im by simp
  then have "maps ino (le_path e) ?s"
    using inv pm_inv_iff [OF fs_inv_paths [OF inv], of "le_path e" ino] by (simp add: maps_def)
  then have "maps ino (le_path e) (snd (intern_entries es ?s))" by (rule maps_intern_entries)
  then have "inode_for (paths (snd (intern_entries es ?s))) (le_path e) = Some ino"
    using pm_inv_iff [OF fs_inv_paths] by (auto simp: maps_def)
  with Cons.IH [OF inv] im show ?case by (auto simp: case_prod_beta Let_def)
qed simp

lemma install_listing_spec:
  assumes "fs_inv s" and "install_listing entries s = (got, s')"
  shows "fs_inv s'" and "map snd got = filter (\<lambda>e. is_representable_component (basename (le_path e))) entries"
    and "(j, e) \<in> set got \<Longrightarrow> inode_for (paths s') (le_path e) = Some j"
    and "map_of (attrs s') = map_of (attrs s) ++ map_of (rev (map (map_prod id attr_of_entry) got))"
    and "raw_names s' = raw_names s" and "ipc s' = ipc s" and "open_handles s' = open_handles s"
proof -
  let ?q = "snd (quarantine entries s)"
  have run: "intern_entries (fst (quarantine entries s)) ?q = (got, s')"
    using assms(2) by (simp add: install_listing_def case_prod_beta)
  have q: "fs_inv ?q" using quarantine_inv [OF assms(1)] .
  show "fs_inv s'" using intern_entries_inv [OF q] run by (metis snd_conv)
  note ino = intern_entries_inodes [OF q, of "fst (quarantine entries s)", unfolded run]
  show "map snd got = filter (\<lambda>e. is_representable_component (basename (le_path e))) entries"
    using ino by (simp add: quarantine_keeps)
  show "(j, e) \<in> set got \<Longrightarrow> inode_for (paths s') (le_path e) = Some j" using ino by auto
  show "map_of (attrs s') = map_of (attrs s) ++ map_of (rev (map (map_prod id attr_of_entry) got))"
    using intern_entries_attrs [of "fst (quarantine entries s)" ?q, unfolded run] by simp
  show "raw_names s' = raw_names s" "ipc s' = ipc s" "open_handles s' = open_handles s"
    using intern_entries_same(1,4) [of "fst (quarantine entries s)" ?q]
      raw_steps(4) [of "fst (quarantine entries s)" ?q] unfolding run by simp_all
qed

lemma map_of_unique: "(k, v) \<in> set xs \<Longrightarrow> (\<And>v'. (k, v') \<in> set xs \<Longrightarrow> v' = v) \<Longrightarrow> map_of xs k = Some v"
  by (metis map_of_SomeD weak_map_of_SomeI)

text \<open>An entry that the listing names once has its attributes in the cache afterwards.\<close>

lemma install_listing_cached:
  assumes "fs_inv s" and "install_listing entries s = (got, s')" and "distinct (map le_path entries)" and "(j, e) \<in> set got"
  shows "map_of (attrs s') j = Some (attr_of_entry e)"
proof -
  note spec = install_listing_spec [OF assms(1,2)]
  have d: "distinct (map (le_path \<circ> snd) got)"
    using assms(3) spec(2) by (metis distinct_map_filter map_map)
  have "e = e'" if "(j, e') \<in> set got" for e'
  proof -
    have "le_path e = le_path e'"
      using pm_inv_inj [OF fs_inv_paths [OF spec(1)] spec(3) [OF assms(4)] spec(3) [OF that]] .
    with d assms(4) that show ?thesis unfolding distinct_map inj_on_def comp_def by (metis snd_conv)
  qed
  note once = this
  have "map_of (rev (map (map_prod id attr_of_entry) got)) j = Some (attr_of_entry e)"
  proof (rule map_of_unique)
    show "(j, attr_of_entry e) \<in> set (rev (map (map_prod id attr_of_entry) got))"
      using assms(4) by (auto simp: image_iff intro!: bexI [of _ "(j, e)"])
    show "v' = attr_of_entry e" if "(j, v') \<in> set (rev (map (map_prod id attr_of_entry) got))" for v'
      using that once by (auto)
  qed
  then show ?thesis using spec(4) by (simp add: map_add_def)
qed

section \<open>The names of a directory are found\<close>

lemma visible_of_entry: "shown_name (raw_names s) e = visible_name s (le_path e)"
  by (simp add: shown_name_def visible_name_def)

lemma raw_ok_visible: "raw_ok x raw \<Longrightarrow> map_of raw cp = Some r \<Longrightarrow> nfc x r = basename cp"
  by (fastforce simp: raw_ok_def dest: map_of_SomeD)

lemma child_path_visible:
  assumes "names_inv w s" and "cp = child_path (lib w) p b" and "nfc (lib w) b = b" and "slash \<notin> set b"
  shows "child_path (lib w) p (visible_name s cp) = cp"
proof -
  have "basename cp = b" using assms(2-4) basename_child [of "lib w" b p] by simp
  then have "nfc (lib w) (visible_name s cp) = b"
    using raw_ok_visible [OF assms(1), of cp] assms(3) by (auto simp: visible_name_def split: option.splits)
  then show ?thesis using assms(2,3) by (simp add: child_path_def)
qed

lemma dotdot_maps: "keeps (maps i p) (dotdot_inode j q)"
proof -
  have "keeps (maps i p) (\<lambda>s. let (ino, m) = pm_intern (paths s) q' in Some (Inr ino, s\<lparr>paths := m\<rparr>))" for q'
    by (intro keepsI) (auto intro: maps_intern split: prod.splits)
  then show ?thesis unfolding dotdot_inode_def by (intro keeps_rules)
qed

lemma dotdot_returns:
  obtains ino s' where "dotdot_inode j q s = Some (Inr ino, s')" "attrs s' = attrs s" "raw_names s' = raw_names s"
proof (cases "j = ROOT_INODE")
  case True
  then show ?thesis using that [of ROOT_INODE s] by (simp add: dotdot_inode_def ret_def)
next
  case False
  then show ?thesis
    using that [of "fst (pm_intern (paths s) (parent_prefix q))" "s\<lparr>paths := snd (pm_intern (paths s) (parent_prefix q))\<rparr>"]
    by (simp add: dotdot_inode_def case_prod_beta)
qed

text \<open>C36. What \<^verbatim>\<open>readdir\<close> shows, \<^verbatim>\<open>lookup\<close> finds: after a directory was read, looking up the name that it
  shows for an entry yields the inode it shows, with the attributes of the listing, from the cache, without
  another request. This holds for entries under a name in another normal form as well, provided that the
  daemon lists children of the directory, each once, by their normalised names.\<close>

theorem listed_names_found:
  assumes "fs_inv s" and "names_inv w s" and "path_for (paths s) i = Some p"
    and "ipc_call (rc_list (lib w) (rc w) p) s = Some (Inr entries, s1)" and "distinct (map le_path entries)"
    and "install_listing entries s1 = (got, s2)" and "(ino, e) \<in> set got"
    and "le_path e = child_path (lib w) p b" and "nfc (lib w) b = b" and "slash \<notin> set b"
    and "valid_utf8 (visible_name s2 (le_path e))"
  shows "\<exists>all s' d. readdir w i 0 s = Some (Inr all, s') \<and> d \<in> set all \<and> de_inode d = ino \<and>
    de_name d = visible_name s2 (le_path e) \<and> de_kind d = kind_of e \<and>
    lookup w i (de_name d) s' = Some (Inr (entry_reply w ino (attr_of_entry e)), s')"
proof -
  let ?n = "visible_name s2 (le_path e)"
  have pop: "populate_from_list w p s = Some (Inr got, s2)"
    using assms(4,6) by (auto simp: populate_Inr)
  have inv1: "fs_inv s1" by (rule keepsD [OF keeps_ipc_call assms(1,4)])
  note spec = install_listing_spec [OF inv1 assms(6)]
  have att: "map_of (attrs s2) ino = Some (attr_of_entry e)"
    by (rule install_listing_cached [OF inv1 assms(6,5,7)])
  obtain dd s' where dd: "dotdot_inode i p s2 = Some (Inr dd, s')" "attrs s' = attrs s2" "raw_names s' = raw_names s2"
    by (rule dotdot_returns)
  have "maps i p s2" by (rule keepsD [OF keeps_maps_populate _ pop]) (use assms(1,3) in \<open>simp add: maps_def\<close>)
  moreover have "maps ino (le_path e) s2"
    using spec(1) spec(3) [OF assms(7)] pm_inv_iff [OF fs_inv_paths [OF spec(1)]] by (auto simp: maps_def)
  ultimately have m: "maps i p s'" "maps ino (le_path e) s'" using keepsD [OF dotdot_maps _ dd(1)] by blast+
  have "raw_names s1 = raw_names s"
    by (rule keepsD [OF keeps_raw_basic(1) [where J = "\<lambda>r. r = raw_names s"] _ assms(4)]) simp
  then have "names_inv w s2" using assms(2) spec(5) by simp
  from child_path_visible [OF this assms(8-10)] have cp: "child_path (lib w) p ?n = le_path e" .
  obtain k where k: "k < length got" "got ! k = (ino, e)" using assms(7) by (auto simp: in_set_conv_nth)
  let ?all = "[\<lparr>de_inode = i, de_kind = Directory, de_name = ''.'', de_offset = 1\<rparr>,
      \<lparr>de_inode = dd, de_kind = Directory, de_name = ''..'', de_offset = 2\<rparr>] @
      map (\<lambda>(i, (ino, e)). \<lparr>de_inode = ino, de_kind = kind_of e, de_name = shown_name (raw_names s2) e,
        de_offset = int i + 3\<rparr>) (enumerate 0 got)"
  have "readdir w i 0 s = Some (Inr ?all, s')"
    using pop dd assms(3)
    by (simp add: readdir_def andthen_def path_of_inode_def gets_def ok_or_def ret_def map_err_def Let_def)
  moreover have "\<lparr>de_inode = ino, de_kind = kind_of e, de_name = ?n, de_offset = int k + 3\<rparr> \<in> set ?all"
    using k by (auto simp: visible_of_entry in_set_enumerate_eq image_iff intro!: bexI [of _ "(k, ino, e)"])
  moreover have "lookup w i ?n s' = Some (Inr (entry_reply w ino (attr_of_entry e)), s')"
  proof -
    have "visible_name s' (le_path e) = ?n" using dd(3) by (simp add: visible_name_def)
    moreover have "inode_for (paths s') (le_path e) = Some ino"
      using m(2) pm_inv_iff [OF fs_inv_paths] by (auto simp: maps_def)
    ultimately show ?thesis
      using m(1) assms(11) att dd(2) cp
      by (simp add: lookup_def name_of_def os_to_str_def path_of_inode_def andthen_def gets_def ok_or_def ret_def Let_def maps_def)
  qed
  ultimately show ?thesis
    by (intro exI [of _ ?all] exI [of _ s'] exI [of _ "\<lparr>de_inode = ino, de_kind = kind_of e, de_name = ?n, de_offset = int k + 3\<rparr>"]) simp
qed

text \<open>A fresh mount whose daemon lists one file.\<close>

lemma toy_list_root:
  obtains s s1 s2 where "s = toy_lines ''L''" "fs_inv s" "names_inv toy_sys s" "path_for (paths s) ROOT_INODE = Some ''''"
    "ipc_call (rc_list (lib toy_sys) (rc toy_sys) '''') s = Some (Inr [toy_entry], s1)"
    "install_listing [toy_entry] s1 = ([(2, toy_entry)], s2)" "raw_names s2 = []" "open_handles s1 = []"
    "fresh_peers (ipc s)"
proof -
  define s where "s = toy_lines ''L''"
  have up: "toy_up ''L'' (toy_conn [''L'']) s"
    using toy_up_fs [of "''L''"] by (simp add: s_def toy_lines_def)
  obtain s1 where s1: "ipc_call (rc_list toy_ext toy_cfg '''') s = Some (Inr [toy_entry], s1)"
    "paths s1 = pm_new" "raw_names s1 = []" "open_handles s1 = []"
    using toy_fs_list [OF up, of "''''"] by (auto simp: s_def toy_lines_def toy_fs_def fs_new_def)
  have "fst (pm_intern pm_new ''/f'') = 2"
    by (simp add: pm_intern_def pm_new_def inode_for_def ROOT_INODE_def)
  then obtain s2 where "install_listing [toy_entry] s1 = ([(2, toy_entry)], s2)" "raw_names s2 = []"
    using s1 by (cases "pm_intern pm_new ''/f''") (simp add: install_listing_def toy_entry_def Let_def)
  moreover have "fs_inv s" "names_inv toy_sys s" "path_for (paths s) ROOT_INODE = Some ''''" "fresh_peers (ipc s)"
    unfolding s_def toy_lines_def toy_fs_def
    by (rule fs_new_inv) (auto simp: fs_new_def raw_ok_def pm_new_def path_for_def toy_rc_def fresh_peers_def
        toy_net_def toy_peer_def toy_conn_def)
  ultimately show thesis using that [OF s_def] s1 by simp
qed

lemma toy_f [simp]: "le_path toy_entry = ''/f''" "child_path toy_ext '''' ''f'' = ''/f''" "nfc toy_ext ''f'' = ''f''"
  "slash \<notin> set ''f''" "valid_utf8 ''f''"
  by (simp_all add: toy_entry_def child_path_def toy_nfc_def slash_def valid_utf8_ascii)

theorem listed_names_found_witness:
  "\<exists>s all s'. readdir toy_sys ROOT_INODE 0 s = Some (Inr all, s') \<and> all \<noteq> [] \<and>
     lookup toy_sys ROOT_INODE ''f'' s' = Some (Inr (entry_reply toy_sys 2 (attr_of_entry toy_entry)), s')"
proof -
  obtain s s1 s2 where s: "fs_inv s" "names_inv toy_sys s" "path_for (paths s) ROOT_INODE = Some ''''"
    "ipc_call (rc_list (lib toy_sys) (rc toy_sys) '''') s = Some (Inr [toy_entry], s1)"
    "install_listing [toy_entry] s1 = ([(2, toy_entry)], s2)" "raw_names s2 = []"
    by (rule toy_list_root)
  have vis: "visible_name s2 (le_path toy_entry) = ''f''" using s(6) by (simp add: visible_name_def)
  have "\<exists>all s' d. readdir toy_sys ROOT_INODE 0 s = Some (Inr all, s') \<and> d \<in> set all \<and> de_inode d = 2 \<and>
    de_name d = ''f'' \<and> de_kind d = kind_of toy_entry \<and>
    lookup toy_sys ROOT_INODE (de_name d) s' = Some (Inr (entry_reply toy_sys 2 (attr_of_entry toy_entry)), s')"
    by (rule listed_names_found [OF s(1-4) _ s(5), of 2 toy_entry "''f''", unfolded vis])
      (simp_all add: slash_def toy_nfc_def)
  then show ?thesis by (metis list.set_cases list.distinct(1))
qed

section \<open>After a change event\<close>

definition list_request :: "path \<Rightarrow> json" where
  "list_request p = verb ''hydration.list'' [(''prefix'', p)]"

lemma list_sends:
  assumes "ipc_call (rc_list (lib w) (rc w) p) s = Some (Inr entries, s')" and "fresh_peers (ipc s)"
  shows "\<exists>k. sent s' = sent s @ replicate (Suc k) (list_request p)"
proof -
  obtain c where c: "rc_list (lib w) (rc w) p (ipc s) = Some (Inr entries, c)" and s': "s' = s\<lparr>ipc := c\<rparr>"
    using assms(1) by (auto simp: ipc_call_def zoom_def split: Option.bind_splits)
  obtain k where "verbs_sent c = verbs_sent (ipc s) @ replicate k (list_request p)" "k \<noteq> 0"
    using v_list.resent [OF c [unfolded rc_list_def] assms(2)] by (auto simp: list_request_def)
  with s' show ?thesis by (cases k) auto
qed

text \<open>C37. A change event makes the next stat ask the daemon: after the event is applied, a stat of an entry
  it is about that has no unsent writes sends a listing of the parent, and when it succeeds it answers with
  the attributes of that listing, whatever was cached before.\<close>

theorem invalidated_attr_refetched:
  assumes "fs_inv s" and "path_for (paths s) i = Some p" and "i \<noteq> ROOT_INODE"
    and "concerns change p" and "\<not> being_written s i" and "fresh_peers (ipc s)"
    and "getattr w i (view_apply change s) = Some (Inr rep, s')"
  shows "\<exists>entries s1 e k. ipc_call (rc_list (lib w) (rc w) (parent_prefix p)) (view_apply change s) = Some (Inr entries, s1) \<and>
    e \<in> set entries \<and> le_path e = p \<and> ra_attr rep = file_attr_from_cached w i (attr_of_entry e) \<and>
    sent s' = sent s @ replicate (Suc k) (list_request (parent_prefix p))"
proof -
  let ?s = "view_apply change s"
  have view: "map_of (attrs ?s) i = None" "?s\<lparr>attrs := attrs s\<rparr> = s"
    using view_apply_spec [OF assms(1,2), of change] assms(4,5) by auto
  then have same: "paths ?s = paths s" "ipc ?s = ipc s"
    by (metis fs.select_convs(2) fs.update_convs(3) fs.surjective, metis fs.select_convs(1) fs.update_convs(3) fs.surjective)
  obtain got a where pop: "populate_from_list w (parent_prefix p) ?s = Some (Inr got, s')"
    and a: "map_of (attrs s') i = Some a" and rep: "rep = \<lparr>ra_ttl_secs = 1, ra_attr = file_attr_from_cached w i a\<rparr>"
    using assms(2,3,7) view(1) same
    by (auto simp: getattr_def get_or_fetch_attr_def andthen_Inr simple_Some ok_or_Some)
  obtain entries s1 where list: "ipc_call (rc_list (lib w) (rc w) (parent_prefix p)) ?s = Some (Inr entries, s1)"
    and inst: "install_listing entries s1 = (got, s')"
    using pop unfolding populate_Inr by blast
  have inv: "fs_inv ?s" using view_apply_inv [OF assms(1)] .
  have inv1: "fs_inv s1" by (rule keepsD [OF keeps_ipc_call inv list])
  note spec = install_listing_spec [OF inv1 inst]
  have "attrs s1 = attrs ?s" using list by (auto simp: ipc_call_def zoom_def split: Option.bind_splits)
  then have "map_of (rev (map (map_prod id attr_of_entry) got)) i = Some a"
    using a spec(4) view(1) by (auto simp: map_add_Some_iff)
  then obtain e where e: "(i, e) \<in> set got" "a = attr_of_entry e"
    by (auto dest!: map_of_SomeD)
  have "maps i p s'"
    by (rule keepsD [OF keeps_maps_populate _ pop]) (use inv same assms(2) in \<open>simp add: maps_def\<close>)
  then have "le_path e = p"
    using spec(3) [OF e(1)] pm_inv_iff [OF fs_inv_paths [OF spec(1)], of "le_path e" i] by (simp add: maps_def)
  moreover have "e \<in> set entries"
    using e(1) spec(2) by (metis filter_is_subset image_eqI list.set_map snd_conv subsetD)
  moreover obtain k where "sent s1 = sent s @ replicate (Suc k) (list_request (parent_prefix p))"
    using list_sends [OF list] assms(6) same by auto
  ultimately show ?thesis using list e(2) rep spec(6) by auto
qed

text \<open>The file f was listed, then changed.\<close>

lemma toy_listed_f:
  obtains s where "fs_inv s" "path_for (paths s) 2 = Some ''/f''" "open_handles s = []" "fresh_peers (ipc s)"
    "\<exists>c. toy_up ''L'' c s"
proof -
  define s0 where "s0 = toy_lines ''LL''"
  define m where "m = snd (pm_intern pm_new ''/f'')"
  have up: "toy_up ''LL'' (toy_conn [''L'', ''L'']) s0"
    using toy_up_fs [of "''LL''"] by (simp add: s0_def toy_lines_def)
  have m: "pm_intern (paths s0) ''/f'' = (2, m)" "inode_for m ''/f'' = Some 2"
    by (simp_all add: s0_def toy_lines_def toy_fs_def fs_new_def m_def pm_intern_def pm_new_def ROOT_INODE_def inode_for_def)
  obtain s c where pop: "populate_from_list toy_sys '''' s0 = Some (Inr [(2, toy_entry)], s)" and s: "paths s = m" "open_handles s = []"
    "ipc s = toy_rc (toy_next (verb ''hydration.list'' [(''prefix'', '''')]) (toy_conn [''L'', ''L'']))"
    using toy_populate [OF up m(1), of "''''"] by (auto simp: s0_def toy_lines_def toy_fs_def fs_new_def)
  have inv0: "fs_inv s0" by (simp add: s0_def toy_lines_def toy_fs_def fs_new_inv)
  have inv: "fs_inv s" by (rule keepsD [OF keeps_populate inv0 pop])
  have "toy_up ''L'' (toy_next (verb ''hydration.list'' [(''prefix'', '''')]) (toy_conn [''L'', ''L''])) s"
    using s(3) toy_ready_next [OF toy_upD(1) [OF up]] by (simp add: toy_up_def)
  moreover have "path_for (paths s) 2 = Some ''/f''"
    using m(2) s(1) pm_inv_iff [OF fs_inv_paths [OF inv], of "''/f''" 2] by simp
  moreover have "fresh_peers (ipc s)"
    using s(3) by (simp add: toy_rc_def fresh_peers_def toy_net_def toy_peer_def toy_conn_def)
  ultimately show thesis using that inv s(2) by blast
qed

lemma toy_populate_f:
  assumes "fs_inv s" and "path_for (paths s) 2 = Some ''/f''" and "toy_up ''L'' c s"
  shows "\<exists>s'. populate_from_list toy_sys p s = Some (Inr [(2, toy_entry)], s') \<and>
    map_of (attrs s') 2 = Some (attr_of_entry toy_entry)"
proof -
  have "inode_for (paths s) ''/f'' = Some 2" using assms(1,2) pm_inv_iff [OF fs_inv_paths [OF assms(1)], of "''/f''" 2] by simp
  from toy_populate [OF assms(3) pm_intern_known [OF this], of p] show ?thesis by simp
qed

theorem invalidated_attr_refetched_witness:
  "\<exists>s rep s' k. getattr toy_sys 2 (view_apply (Paths [''/f'']) s) = Some (Inr rep, s') \<and>
     sent s' = sent s @ replicate (Suc k) (list_request '''') \<and> fa_size (ra_attr rep) = 5"
proof -
  obtain s c where s: "fs_inv s" "path_for (paths s) 2 = Some ''/f''" "open_handles s = []" "fresh_peers (ipc s)"
    "toy_up ''L'' c s"
    by (rule toy_listed_f) blast
  let ?s = "view_apply (Paths [''/f'']) s"
  have c: "concerns (Paths [''/f'']) ''/f''" "\<not> being_written s 2" "(2 :: nat) \<noteq> ROOT_INODE"
    using s(3) by (auto simp: concerns_def being_written_def ROOT_INODE_def)
  have inv: "fs_inv ?s" by (rule view_apply_inv [OF s(1)])
  have v: "map_of (attrs ?s) 2 = None" using view_apply_spec [OF s(1,2), of "Paths [''/f'']"] c by simp
  have v2: "path_for (paths ?s) 2 = Some ''/f''" "ipc ?s = ipc s" using s(2) by (simp_all add: view_apply_def Let_def)
  obtain s' where pop: "populate_from_list toy_sys '''' ?s = Some (Inr [(2, toy_entry)], s')"
    "map_of (attrs s') 2 = Some (attr_of_entry toy_entry)"
    using toy_populate_f [OF inv v2(1) toy_up_cong [OF s(5) v2(2)]] by blast
  have "parent_prefix ''/f'' = ''''" by (simp add: parent_prefix_def slash_def)
  then have run: "getattr toy_sys 2 ?s = Some (Inr \<lparr>ra_ttl_secs = 1,
      ra_attr = file_attr_from_cached toy_sys 2 (attr_of_entry toy_entry)\<rparr>, s')"
    using v v2 c(3) pop
    by (simp add: getattr_def get_or_fetch_attr_def andthen_def gets_def ok_or_def ret_def map_err_def)
  have "fa_size (file_attr_from_cached toy_sys 2 (attr_of_entry toy_entry)) = 5"
    by (simp add: file_attr_from_cached_def attr_of_entry_def toy_entry_def Let_def)
  moreover obtain k where "sent s' = sent s @ replicate (Suc k) (list_request '''')"
    using invalidated_attr_refetched [OF s(1,2) c(3,1,2) s(4) run] \<open>parent_prefix ''/f'' = ''''\<close> by auto
  ultimately show ?thesis using run by (metis reply_attr.select_convs(2))
qed



end
