(* ===== verification/FuseTypes.thy ===== *)
theory FuseTypes
  imports FuseListing
begin

text \<open>
  The types of the replies: every attribute record that a request handler of \<^verbatim>\<open>mount/src/fuse_fs.rs\<close> sends to
  the kernel is well-formed, and its inode is one that later requests can name.
\<close>

section \<open>Well-formed attributes\<close>

definition attr_ok :: "file_attr \<Rightarrow> bool" where
  "attr_ok a \<longleftrightarrow> unat (fa_nsec a) < 1000000000 \<and> unat (fa_blocks a) = (unat (fa_size a) + 511) div 512 \<and>
     (case fa_kind a of
        Directory \<Rightarrow> fa_perm a = 493 \<and> fa_nlink a = 2
      | RegularFile \<Rightarrow> fa_perm a = 420 \<and> fa_nlink a = 1) \<and>
     fa_rdev a = 0 \<and> fa_blksize a = 4096"

definition known :: "('d, 'f) fs \<Rightarrow> file_attr \<Rightarrow> bool" where
  "known s a \<longleftrightarrow> path_for (paths s) (fa_ino a) \<noteq> None"

lemma nat_ceil_512:
  "n mod 512 = 0 \<Longrightarrow> (n + 511) div 512 = n div (512 :: nat)"
  "n mod 512 \<noteq> 0 \<Longrightarrow> (n + 511) div 512 = n div (512 :: nat) + 1"
proof -
  define q r where qr: "q = n div 512" "r = n mod 512"
  then have n: "n = 512 * q + r" "r < 512" by simp_all
  show "(n + 511) div 512 = n div 512" if "n mod 512 = 0"
    unfolding qr(1) [symmetric] by (rule div_nat_eqI) (use n that [folded qr(2)] in simp)+
  show "(n + 511) div 512 = n div 512 + 1" if "n mod 512 \<noteq> 0"
    unfolding qr(1) [symmetric] by (rule div_nat_eqI) (use n that [folded qr(2)] in simp)+
qed

lemma div_ceil_512: "unat (div_ceil a 512) = (unat a + 511) div 512"
proof -
  have a: "unat a < 2 ^ 64" using unsigned_less [of a] by simp
  have d: "unat (a div 512) = unat a div 512" "unat (a mod 512) = unat a mod 512"
    by (simp_all add: unat_div unat_mod)
  have z: "a mod 512 = 0 \<longleftrightarrow> unat a mod 512 = 0" using d(2) by (metis unat_eq_0)
  have "unat (a div 512 + 1) = unat a div 512 + 1"
    using a d(1) by (simp add: unat_word_ariths)
  then show ?thesis
    by (cases "unat a mod 512 = 0")
      (simp_all only: div_ceil_def Let_def z d(1) nat_ceil_512 if_True if_False refl not_False_eq_True)
qed

text \<open>The time that is shown, and its part below a second, which fits in 32 bits.\<close>

definition shown_ms :: "cached_attr \<Rightarrow> int" where
  "shown_ms c = (case ca_remote_mtime_ms c of Some r \<Rightarrow> r | None \<Rightarrow> ca_mtime_ms c)"

lemma attr_from_cached_time:
  "int (unat (fa_nsec (file_attr_from_cached w ino c))) = shown_ms c mod 1000 * 1000000"
  "fa_secs (file_attr_from_cached w ino c) = shown_ms c div 1000"
proof -
  have "fa_nsec (file_attr_from_cached w ino c) = word_of_int (shown_ms c mod 1000 * 1000000)"
    by (simp only: file_attr_from_cached_def Let_def file_attr.select_convs shown_ms_def)
  moreover have "take_bit 32 (shown_ms c mod 1000 * 1000000) = shown_ms c mod 1000 * 1000000"
    by (rule take_bit_int_eq_self) simp_all
  ultimately have "uint (fa_nsec (file_attr_from_cached w ino c)) = shown_ms c mod 1000 * 1000000"
    by (simp only: uint_word_of_int_eq len_num1 len_bit0 len_num0) simp
  then show "int (unat (fa_nsec (file_attr_from_cached w ino c))) = shown_ms c mod 1000 * 1000000"
    by simp
  show "fa_secs (file_attr_from_cached w ino c) = shown_ms c div 1000"
    by (simp add: file_attr_from_cached_def Let_def shown_ms_def)
qed

lemma attr_from_cached_ok: "attr_ok (file_attr_from_cached w ino c)"
proof -
  have "int (unat (fa_nsec (file_attr_from_cached w ino c))) < 1000000000"
    unfolding attr_from_cached_time by simp
  then have "unat (fa_nsec (file_attr_from_cached w ino c)) < 1000000000" by linarith
  moreover have "fa_blocks (file_attr_from_cached w ino c) = div_ceil (fa_size (file_attr_from_cached w ino c)) 512"
    by (simp add: file_attr_from_cached_def Let_def)
  moreover have "case fa_kind (file_attr_from_cached w ino c) of
      Directory \<Rightarrow> fa_perm (file_attr_from_cached w ino c) = 493 \<and> fa_nlink (file_attr_from_cached w ino c) = 2
    | RegularFile \<Rightarrow> fa_perm (file_attr_from_cached w ino c) = 420 \<and> fa_nlink (file_attr_from_cached w ino c) = 1"
    and "fa_rdev (file_attr_from_cached w ino c) = 0" "fa_blksize (file_attr_from_cached w ino c) = 4096"
    by (simp_all add: file_attr_from_cached_def Let_def)
  ultimately show ?thesis by (simp only: attr_ok_def div_ceil_512)
qed

lemma attr_from_cached_ino [simp]: "fa_ino (file_attr_from_cached w ino c) = ino"
  by (simp add: file_attr_from_cached_def Let_def)


section \<open>Replies\<close>

lemma maps_drop_handle:
  "keeps (maps i p) (modify (\<lambda>s. s\<lparr>open_handles := AList.delete fh (open_handles s)\<rparr>))"
  by (auto simp: keeps_def modify_def maps_def fs_inv_drop_handle)

lemma maps_closing [keeps_maps]:
  "keeps (maps i p) (upload_handle w hid q c)" "keeps (maps i p) (close_jvm_handle w hid)"
  unfolding upload_handle_def close_jvm_handle_def by (intro keeps_maps)+

lemma maps_fetch [keeps_maps]: "keeps (maps i p) (get_or_fetch_attr w j)"
  unfolding get_or_fetch_attr_def by (intro keeps_maps keeps_rules)

lemma known_if_maps: "maps i p s \<Longrightarrow> fa_ino a = i \<Longrightarrow> known s a"
  by (simp add: maps_def known_def)

lemma intern_maps:
  assumes "fs_inv s" and "pm_intern (paths s) q = (ino, m)"
  shows "maps ino q (s\<lparr>paths := m\<rparr>)"
proof -
  have inv: "fs_inv (s\<lparr>paths := m\<rparr>)" by (rule fs_inv_intern(1) [OF assms])
  moreover have "inode_for m q = Some ino" using pm_intern_inode_for [of "paths s" q q] assms(2) by simp
  ultimately show ?thesis using pm_inv_iff [OF fs_inv_paths [OF inv], of q ino] by (simp add: maps_def)
qed

lemma known_of_inode: "inode_for (paths s) q = Some i \<Longrightarrow> fs_inv s \<Longrightarrow> maps i q s"
  using pm_inv_iff [of "paths s" q i] by (simp add: maps_def)

lemma listed_maps:
  assumes "fs_inv s" and "populate_from_list w p s = Some (Inr listed, s')" and "(ino, e) \<in> set listed"
  shows "maps ino (le_path e) s'"
proof -
  obtain entries s1 where s1: "ipc_call (rc_list (lib w) (rc w) p) s = Some (Inr entries, s1)" "install_listing entries s1 = (listed, s')"
    using assms(2) unfolding populate_Inr by blast
  note spec = install_listing_spec [OF keepsD [OF keeps_ipc_call assms(1) s1(1)] s1(2)]
  show ?thesis by (rule known_of_inode [OF spec(3) [OF assms(3)] spec(1)])
qed

lemma entry_reply_typed:
  assumes "maps ino p s"
  shows "attr_ok (re_attr (entry_reply w ino a)) \<and> known s (re_attr (entry_reply w ino a))"
  using known_if_maps [OF assms] by (simp add: entry_reply_def attr_from_cached_ok)

lemma find_mem: "find P xs = Some x \<Longrightarrow> P x \<and> x \<in> set xs"
  by (auto simp: find_Some_iff)

lemma enumerate_mem: "(k, x) \<in> set (enumerate n xs) \<Longrightarrow> x \<in> set xs"
  by (auto simp: enumerate_eq_zip dest: set_zip_rightD)

lemma lookup_Inr:
  assumes "lookup w i n s = Some (Inr r, s')"
  obtains (cached) cp ino a where "inode_for (paths s) cp = Some ino" "s' = s" "r = entry_reply w ino a"
  | (listed) p ls ino e where "populate_from_list w p s = Some (Inr ls, s')" "(ino, e) \<in> set ls"
      "r = entry_reply w ino (attr_of_entry e)"
proof -
  obtain p where p: "path_for (paths s) i = Some p"
    and run: "(case Option.bind (inode_for (paths s) (child_path (lib w) p n)) (\<lambda>ino. map_option (\<lambda>a. (ino, a)) (map_of (attrs s) ino)) of
        Some (ino, a) \<Rightarrow> ret (entry_reply w ino a)
      | None \<Rightarrow> andthen (map_err ipc_error_to_errno (populate_from_list w p)) (\<lambda>listed.
          case find (\<lambda>(_, e). le_path e = child_path (lib w) p n) listed of
            Some (ino, e) \<Rightarrow> ret (entry_reply w ino (attr_of_entry e))
          | None \<Rightarrow> throw ENOENT)) s = Some (Inr r, s')"
    using assms unfolding lookup_def Let_def by (auto simp: andthen_Inr step_Some split: if_splits)
  show thesis
  proof (cases "Option.bind (inode_for (paths s) (child_path (lib w) p n)) (\<lambda>ino. map_option (\<lambda>a. (ino, a)) (map_of (attrs s) ino))")
    case None
    with run obtain ls where "populate_from_list w p s = Some (Inr ls, s')"
      "(case find (\<lambda>(_, e). le_path e = child_path (lib w) p n) ls of
          Some (ino, e) \<Rightarrow> r = entry_reply w ino (attr_of_entry e) | None \<Rightarrow> False)"
      by (auto simp: andthen_Inr simple_Some split: option.splits)
    then show thesis
      by (auto dest!: find_mem split: option.splits intro: listed)
  next
    case (Some hit)
    with run show thesis by (cases hit) (auto simp: simple_Some bind_eq_Some_conv intro: cached)
  qed
qed

lemma lookup_typed:
  assumes "fs_inv s" and "lookup w i n s = Some (Inr r, s')"
  shows "attr_ok (re_attr r) \<and> known s' (re_attr r)"
  using assms(2)
proof (cases rule: lookup_Inr)
  case (cached cp ino a)
  then show ?thesis using entry_reply_typed known_of_inode [OF cached(1) assms(1)] by simp
next
  case (listed p ls ino e)
  from entry_reply_typed [OF listed_maps [OF assms(1) listed(1,2)]] listed(3) show ?thesis by simp
qed

lemma getattr_typed:
  assumes "getattr w i s = Some (Inr r, s')"
  shows "attr_ok (ra_attr r) \<and> fa_ino (ra_attr r) = i"
  using assms by (auto simp: getattr_def andthen_Inr simple_Some attr_from_cached_ok)

lemma setattr_typed:
  assumes "setattr w i fh sz s = Some (Inr r, s')"
  shows "attr_ok (ra_attr r) \<and> fa_ino (ra_attr r) = i"
  using assms by (auto simp: setattr_def andthen_Inr dest: getattr_typed)

lemma mkdir_typed:
  assumes "fs_inv s" and "fuse_mkdir w i n s = Some (Inr r, s')"
  shows "attr_ok (re_attr r) \<and> known s' (re_attr r)"
proof -
  obtain cp t where t: "install_dir w cp n t = Some (Inr r, s')"
    using assms(2) unfolding fuse_mkdir_def Let_def by (auto simp: andthen_Inr step_Some)
  have inv: "fs_inv s'" by (rule keepsD [OF keeps_mkdir assms])
  from t obtain ino a where "inode_for (paths s') cp = Some ino" "r = entry_reply w ino a"
    using pm_intern_inode_for [of "paths t" cp cp] by (auto simp: install_dir_def Let_def split: prod.splits)
  with entry_reply_typed known_of_inode [OF _ inv] show ?thesis by blast
qed

lemma create_typed:
  assumes "fs_inv s" and "create_internal w i n s = Some (Inr (fh, attr, ino), s')"
  shows "attr_ok attr \<and> fa_ino attr = ino \<and> (\<exists>p. maps ino p s')"
proof -
  obtain cp reply f t where t: "install_file w cp n reply f t = Some (Inr (fh, attr, ino), s')"
    using assms(2) unfolding create_internal_Inr by blast
  have "fs_inv s'" by (rule keepsD [OF keeps_create_internal assms])
  with install_file_Inr [OF t] known_of_inode show ?thesis by (auto simp: attr_from_cached_ok)
qed

lemma mknod_typed:
  assumes "fs_inv s" and "mknod w i n mode s = Some (Inr r, s')"
  shows "attr_ok (re_attr r) \<and> known s' (re_attr r)"
proof -
  let ?tail = "\<lambda>removed. case removed of
        None \<Rightarrow> ret ()
      | Some h \<Rightarrow>
          andthen (ignore_err (upload_handle w (oh_handle_id h) (oh_remote_path h) (oh_cache_path h))) (\<lambda>_.
            ignore_err (close_jvm_handle w (oh_handle_id h)))"
  obtain fh a ino t where c: "create_internal w i n s = Some (Inr (fh, a, ino), t)" and r: "re_attr r = a"
    and t: "?tail (map_of (open_handles t) fh) (t\<lparr>open_handles := AList.delete fh (open_handles t)\<rparr>) = Some (Inr () :: errno + unit, s')"
    using assms(2) unfolding mknod_def Let_def by (auto simp: andthen_Inr simple_Some split: if_splits)
  obtain p where p: "attr_ok a" "fa_ino a = ino" "maps ino p t" using create_typed [OF assms(1) c] by blast
  have tail: "keeps (maps ino p) (?tail rm)" for rm
    unfolding ignore_err_def by (intro keeps_maps keeps_rules)
  have "maps ino p (t\<lparr>open_handles := AList.delete fh (open_handles t)\<rparr>)"
    using p(3) by (simp add: maps_def fs_inv_drop_handle)
  from known_if_maps [OF keepsD [OF tail this t] p(2)] p(1) r show ?thesis by simp
qed

text \<open>Reading a directory with attributes: each attribute record is about the inode of its entry.\<close>

definition plus_ok :: "('d, 'f) fs \<Rightarrow> dir_entry_plus \<Rightarrow> bool" where
  "plus_ok s d \<longleftrightarrow> attr_ok (dp_attr d) \<and> fa_ino (dp_attr d) = de_inode d \<and> known s (dp_attr d)"

lemma dotdot_mapped:
  assumes "fs_inv s" and "dotdot_inode i p s = Some (Inr dd, s')"
  shows "\<exists>q. maps dd q s'"
proof (cases "i = ROOT_INODE")
  case True
  then show ?thesis
    using assms pm_inv_root [OF fs_inv_paths [OF assms(1)]] by (auto simp: dotdot_inode_def ret_def maps_def)
next
  case False
  then show ?thesis
    using assms(2) intern_maps [OF assms(1)]
    by (cases "pm_intern (paths s) (parent_prefix p)") (auto simp: dotdot_inode_def)
qed

lemma readdirplus_typed:
  assumes "fs_inv s" and "readdirplus w i off s = Some (Inr ds, s')"
  shows "list_all (plus_ok s') ds"
proof -
  obtain p ls s1 pa s2 dd where steps: "path_for (paths s) i = Some p"
    "populate_from_list w p s = Some (Inr ls, s1)" "get_or_fetch_attr w i s1 = Some (Inr pa, s2)"
    "dotdot_inode i p s2 = Some (Inr dd, s')"
    and ds: "ds = drop (unat off) ([\<lparr>de_inode = i, de_kind = Directory, de_name = ''.'', de_offset = 1,
         dp_attr = file_attr_from_cached w i pa\<rparr>,
       \<lparr>de_inode = dd, de_kind = Directory, de_name = ''..'', de_offset = 2,
         dp_attr = file_attr_from_cached w dd pa\<rparr>] @
      map (\<lambda>(k, (ino, e)). \<lparr>de_inode = ino, de_kind = kind_of e, de_name = shown_name (raw_names s') e,
         de_offset = int k + 3, dp_attr = file_attr_from_cached w ino (attr_of_entry e)\<rparr>) (enumerate 0 ls))"
    using assms(2) unfolding readdirplus_def Let_def by (auto simp: andthen_Inr step_Some)
  have "maps i p s" using assms(1) steps(1) by (simp add: maps_def)
  then have i: "maps i p s'"
    using keepsD [OF keeps_maps_populate _ steps(2)] keepsD [OF maps_fetch _ steps(3)] keepsD [OF dotdot_maps _ steps(4)]
    by blast
  have inv: "fs_inv s2"
    using keepsD [OF keeps_fetch keepsD [OF keeps_populate assms(1) steps(2)] steps(3)] .
  obtain q where dd: "maps dd q s'" using dotdot_mapped [OF inv steps(4)] by blast
  have ls: "maps ino (le_path e) s'" if "(ino, e) \<in> set ls" for ino e
    using listed_maps [OF assms(1) steps(2) that] keepsD [OF maps_fetch _ steps(3)] keepsD [OF dotdot_maps _ steps(4)]
    by blast
  show ?thesis
    unfolding list_all_iff ds
  proof
    fix d
    assume "d \<in> set (drop (unat off) ([\<lparr>de_inode = i, de_kind = Directory, de_name = ''.'', de_offset = 1,
         dp_attr = file_attr_from_cached w i pa\<rparr>,
       \<lparr>de_inode = dd, de_kind = Directory, de_name = ''..'', de_offset = 2,
         dp_attr = file_attr_from_cached w dd pa\<rparr>] @
      map (\<lambda>(k, (ino, e)). \<lparr>de_inode = ino, de_kind = kind_of e, de_name = shown_name (raw_names s') e,
         de_offset = int k + 3, dp_attr = file_attr_from_cached w ino (attr_of_entry e)\<rparr>) (enumerate 0 ls)))"
    then consider "de_inode d = i" "dp_attr d = file_attr_from_cached w i pa"
      | "de_inode d = dd" "dp_attr d = file_attr_from_cached w dd pa"
      | ino e where "(ino, e) \<in> set ls" "de_inode d = ino" "dp_attr d = file_attr_from_cached w ino (attr_of_entry e)"
      by (auto dest!: in_set_dropD enumerate_mem)
    then show "plus_ok s' d"
      by cases (auto simp: plus_ok_def attr_from_cached_ok intro: known_if_maps [OF i] known_if_maps [OF dd] known_if_maps [OF ls])
  qed
qed

section \<open>Every reply is well-typed\<close>

definition typed_entry :: "((errno + reply_entry) \<times> ('d, 'f) fs) option \<Rightarrow> bool" where
  "typed_entry res = (case res of Some (Inr r, s') \<Rightarrow> attr_ok (re_attr r) \<and> known s' (re_attr r) | _ \<Rightarrow> True)"

definition typed_attr :: "nat \<Rightarrow> ((errno + reply_attr) \<times> ('d, 'f) fs) option \<Rightarrow> bool" where
  "typed_attr i res = (case res of Some (Inr r, s') \<Rightarrow> attr_ok (ra_attr r) \<and> fa_ino (ra_attr r) = i | _ \<Rightarrow> True)"



end
