(* ===== verification/Durability.thy ===== *)
theory Durability
  imports Prelude
begin

text \<open>
  Concurrent use of one open file. The handlers of the file system run interleaved: they give up the
  table of open files while they wait for the daemon. Here \<^verbatim>\<open>write\<close>, any number of \<^verbatim>\<open>fsync\<close> calls and
  \<^verbatim>\<open>release\<close> of one handle (\<^verbatim>\<open>mount/src/fuse_fs.rs\<close>) are cut into their critical sections, which take
  turns in any order. Writes are numbered; \<open>content\<close> is the last one that is in the cache file and
  \<open>cloud\<close> the one up to which the daemon has taken the file. While a call holds the lock of the client
  it waits for the daemon, which reads the cache file at some moment of that time.
\<close>

section \<open>Critical sections\<close>

text \<open>A call of \<^verbatim>\<open>fsync\<close>: before its first section; after it claimed the dirty bit at a write; waiting
  for the daemon (since a later write); after a failed upload, before the dirty bit is restored; returned,
  with its result, the write it was called at and whether it had claimed the bit.\<close>

datatype call =
    Unused
  | Claimed (claim_of: nat)
  | Uploading (claim_of: nat) nat
  | Refused (claim_of: nat)
  | Returned bool nat bool

datatype closing = Live | Taken bool | Committing nat | Gone bool

datatype holder = ByFsync nat | ByRelease

record handle_state =
  content :: nat
  dirty :: bool
  cloud :: nat
  calls :: "nat \<Rightarrow> call"
  closing :: closing
  ipc_lock :: "holder option"

definition handle_opened :: "bool \<Rightarrow> handle_state" where
  "handle_opened truncating = \<lparr>content = (if truncating then 1 else 0), dirty = truncating, cloud = 0,
     calls = (\<lambda>_. Unused), closing = Live, ipc_lock = None\<rparr>"

definition write_section :: "handle_state \<Rightarrow> handle_state option" where
  "write_section s =
     (if closing s = Live then Some (s\<lparr>content := content s + 1, dirty := True\<rparr>) else None)"

definition fsync_claim :: "bool \<Rightarrow> nat \<Rightarrow> handle_state \<Rightarrow> handle_state option" where
  "fsync_claim synced i s =
     (if calls s i \<noteq> Unused \<or> closing s \<noteq> Live then None
      else if \<not> synced then Some (s\<lparr>calls := (calls s)(i := Returned False (content s) False)\<rparr>)
      else Some (s\<lparr>dirty := False,
             calls := (calls s)(i := if dirty s then Claimed (content s) else Returned True (content s) False)\<rparr>))"

definition fsync_upload :: "nat \<Rightarrow> handle_state \<Rightarrow> handle_state option" where
  "fsync_upload i s =
     (case (calls s i, ipc_lock s) of
        (Claimed v, None) \<Rightarrow>
          Some (s\<lparr>calls := (calls s)(i := Uploading v (content s)), ipc_lock := Some (ByFsync i)\<rparr>)
      | _ \<Rightarrow> None)"

text \<open>The daemon answers, having read the file as of write \<open>r\<close>; when the upload fails it may have been
  taken all the same.\<close>

definition fsync_answer :: "bool \<Rightarrow> nat \<Rightarrow> nat \<Rightarrow> handle_state \<Rightarrow> handle_state option" where
  "fsync_answer ok r i s =
     (case calls s i of
        Uploading v since \<Rightarrow>
          if r < since \<or> content s < r then None
          else Some (s\<lparr>cloud := r, ipc_lock := None,
                 calls := (calls s)(i := if ok then Returned True v True else Refused v)\<rparr>)
      | _ \<Rightarrow> None)"

definition fsync_unreachable :: "nat \<Rightarrow> handle_state \<Rightarrow> handle_state option" where
  "fsync_unreachable i s =
     (case calls s i of
        Uploading v since \<Rightarrow> Some (s\<lparr>ipc_lock := None, calls := (calls s)(i := Refused v)\<rparr>)
      | _ \<Rightarrow> None)"

definition fsync_restore :: "nat \<Rightarrow> handle_state \<Rightarrow> handle_state option" where
  "fsync_restore i s =
     (case calls s i of
        Refused v \<Rightarrow> Some (s\<lparr>dirty := (closing s = Live \<or> dirty s), calls := (calls s)(i := Returned False v True)\<rparr>)
      | _ \<Rightarrow> None)"

definition release_take :: "handle_state \<Rightarrow> handle_state option" where
  "release_take s =
     (if closing s = Live then Some (s\<lparr>closing := if dirty s then Taken True else Gone True\<rparr>) else None)"

definition release_upload :: "handle_state \<Rightarrow> handle_state option" where
  "release_upload s =
     (if closing s = Taken True \<and> ipc_lock s = None
      then Some (s\<lparr>closing := Committing (content s), ipc_lock := Some ByRelease\<rparr>) else None)"

definition release_answer :: "bool \<Rightarrow> nat \<Rightarrow> handle_state \<Rightarrow> handle_state option" where
  "release_answer ok r s =
     (case closing s of
        Committing since \<Rightarrow>
          if r < since \<or> content s < r then None
          else Some (s\<lparr>cloud := r, ipc_lock := None, closing := Gone ok\<rparr>)
      | _ \<Rightarrow> None)"

definition release_unreachable :: "handle_state \<Rightarrow> handle_state option" where
  "release_unreachable s =
     (case closing s of
        Committing since \<Rightarrow> Some (s\<lparr>ipc_lock := None, closing := Gone False\<rparr>)
      | _ \<Rightarrow> None)"

datatype turn =
    TWrite | TClaim bool nat | TUpload nat | TAnswer bool nat nat | TUnreachable nat | TRestore nat
  | TTake | TCommit | TCommitted bool nat | TCommitUnreachable

fun take_turn :: "turn \<Rightarrow> handle_state \<Rightarrow> handle_state option" where
  "take_turn TWrite = write_section"
| "take_turn (TClaim synced i) = fsync_claim synced i"
| "take_turn (TUpload i) = fsync_upload i"
| "take_turn (TAnswer ok r i) = fsync_answer ok r i"
| "take_turn (TUnreachable i) = fsync_unreachable i"
| "take_turn (TRestore i) = fsync_restore i"
| "take_turn TTake = release_take"
| "take_turn TCommit = release_upload"
| "take_turn (TCommitted ok r) = release_answer ok r"
| "take_turn TCommitUnreachable = release_unreachable"

inductive shared_handle :: "handle_state \<Rightarrow> bool" where
  opened: "shared_handle (handle_opened truncating)"
| turned: "shared_handle s \<Longrightarrow> take_turn c s = Some s' \<Longrightarrow> shared_handle s'"

section \<open>Who answers for the bytes the daemon has not got\<close>

text \<open>A call in flight answers for all writes up to its claim: it will upload them or make the handle dirty
  again. A call that failed after the handle was released has reported the loss.\<close>

definition answers_for :: "nat \<Rightarrow> call \<Rightarrow> bool" where
  "answers_for n c \<longleftrightarrow> c = Claimed n \<or> (\<exists>since. c = Uploading n since) \<or> c = Refused n"

definition reported :: "nat \<Rightarrow> call \<Rightarrow> bool" where
  "reported n c \<longleftrightarrow> c = Returned False n True"

definition accounted :: "handle_state \<Rightarrow> bool" where
  "accounted s \<longleftrightarrow> cloud s = content s \<or>
     (case closing s of
        Live \<Rightarrow> dirty s \<or> (\<exists>i. answers_for (content s) (calls s i))
      | Taken d \<Rightarrow> d
      | Committing since \<Rightarrow> since = content s
      | Gone ok \<Rightarrow> \<not> ok \<or> (\<exists>i. answers_for (content s) (calls s i) \<or> reported (content s) (calls s i)))"

text \<open>One call at a time waits for the daemon, and it sees every write the daemon had taken before.\<close>

definition orderly :: "handle_state \<Rightarrow> bool" where
  "orderly s \<longleftrightarrow> cloud s \<le> content s \<and>
     (\<forall>i v since. calls s i = Uploading v since \<longrightarrow>
        ipc_lock s = Some (ByFsync i) \<and> v \<le> since \<and> cloud s \<le> since \<and> since \<le> content s) \<and>
     (\<forall>since. closing s = Committing since \<longrightarrow> ipc_lock s = Some ByRelease \<and> cloud s \<le> since \<and> since \<le> content s) \<and>
     (\<forall>i v. calls s i = Claimed v \<longrightarrow> v \<le> content s) \<and>
     (\<forall>i v. calls s i = Returned True v True \<longrightarrow> v \<le> cloud s)"

lemmas section_defs = write_section_def fsync_claim_def fsync_upload_def fsync_answer_def fsync_unreachable_def
  fsync_restore_def release_take_def release_upload_def release_answer_def release_unreachable_def

lemma orderly_opened: "orderly (handle_opened t)" "accounted (handle_opened t)"
  by (auto simp: orderly_def accounted_def handle_opened_def)

named_theorems orderly_turns \<open>the sections keep the order\<close>

lemma orderly_writes [orderly_turns]: "write_section s = Some s' \<Longrightarrow> orderly s \<Longrightarrow> orderly s'"
  unfolding orderly_def write_section_def by (fastforce split: if_splits intro: le_SucI)

lemma orderly_claim [orderly_turns]: "fsync_claim ok i s = Some s' \<Longrightarrow> orderly s \<Longrightarrow> orderly s'"
  unfolding orderly_def fsync_claim_def by (auto split: if_splits)

lemma orderly_upload [orderly_turns]: "fsync_upload i s = Some s' \<Longrightarrow> orderly s \<Longrightarrow> orderly s'"
  unfolding orderly_def fsync_upload_def by (auto split: call.splits option.splits if_splits)

lemma orderly_answer [orderly_turns]: "fsync_answer ok r i s = Some s' \<Longrightarrow> orderly s \<Longrightarrow> orderly s'"
  unfolding orderly_def fsync_answer_def
  by (auto split: call.splits if_splits) (metis holder.inject option.inject le_trans linorder_not_less)+

lemma orderly_unreachable [orderly_turns]: "fsync_unreachable i s = Some s' \<Longrightarrow> orderly s \<Longrightarrow> orderly s'"
  unfolding orderly_def fsync_unreachable_def
  by (auto split: call.splits if_splits) (metis holder.inject option.inject)

lemma orderly_restore [orderly_turns]: "fsync_restore i s = Some s' \<Longrightarrow> orderly s \<Longrightarrow> orderly s'"
  unfolding orderly_def fsync_restore_def by (auto split: call.splits if_splits)

lemma orderly_release [orderly_turns]:
  "release_take s = Some s' \<Longrightarrow> orderly s \<Longrightarrow> orderly s'"
  "release_upload s = Some s' \<Longrightarrow> orderly s \<Longrightarrow> orderly s'"
  "release_answer ok r s = Some s' \<Longrightarrow> orderly s \<Longrightarrow> orderly s'"
  "release_unreachable s = Some s' \<Longrightarrow> orderly s \<Longrightarrow> orderly s'"
  unfolding orderly_def release_take_def release_upload_def release_answer_def release_unreachable_def
  by (auto split: if_splits closing.splits) (meson le_trans linorder_not_less)

lemma orderly_step: "take_turn c s = Some s' \<Longrightarrow> orderly s \<Longrightarrow> orderly s'"
  by (cases c) (auto intro: orderly_turns)

text \<open>A call that is not finished keeps answering for the same write.\<close>

lemma answers_for_simps [simp]:
  "answers_for n (Claimed v) \<longleftrightarrow> v = n" "answers_for n (Uploading v since) \<longleftrightarrow> v = n" "answers_for n (Refused v) \<longleftrightarrow> v = n"
  "\<not> answers_for n Unused" "\<not> answers_for n (Returned ok v took)"
  "reported n (Returned ok v took) \<longleftrightarrow> \<not> ok \<and> v = n \<and> took" "\<not> reported n Unused" "\<not> reported n (Claimed v)"
  "\<not> reported n (Uploading v since)" "\<not> reported n (Refused v)"
  by (auto simp: answers_for_def reported_def)

lemma ex_call_upd:
  "(\<exists>j. P (((f :: nat \<Rightarrow> call)(i := c)) j)) \<longleftrightarrow> P c \<or> (\<exists>j. j \<noteq> i \<and> P (f j))"
  by auto

named_theorems accounted_turns \<open>the sections keep the account\<close>

lemma accounted_write [accounted_turns]: "write_section s = Some s' \<Longrightarrow> accounted s'"
  unfolding accounted_def write_section_def by (auto split: if_splits)

lemma accounted_claim [accounted_turns]: "fsync_claim ok i s = Some s' \<Longrightarrow> accounted s \<Longrightarrow> accounted s'"
  unfolding accounted_def fsync_claim_def
  by (auto simp: ex_call_upd split: if_splits) (metis answers_for_simps(4))+

lemma accounted_upload [accounted_turns]: "fsync_upload i s = Some s' \<Longrightarrow> accounted s \<Longrightarrow> accounted s'"
  unfolding accounted_def fsync_upload_def
  by (auto simp: ex_call_upd split: if_splits call.splits option.splits closing.splits)
    (metis answers_for_simps(1) answers_for_simps(8))+

lemma accounted_unreachable [accounted_turns]: "fsync_unreachable i s = Some s' \<Longrightarrow> accounted s \<Longrightarrow> accounted s'"
  unfolding accounted_def fsync_unreachable_def
  by (auto simp: ex_call_upd split: if_splits call.splits option.splits closing.splits)
    (metis answers_for_simps(2) answers_for_simps(9))+

lemma accounted_restore [accounted_turns]: "fsync_restore i s = Some s' \<Longrightarrow> accounted s \<Longrightarrow> accounted s'"
  unfolding accounted_def fsync_restore_def
  by (auto simp: ex_call_upd split: if_splits call.splits option.splits closing.splits)
    (metis answers_for_simps(3) answers_for_simps(10))+

text \<open>When the daemon answers a call that answered for the last write, it has taken everything.\<close>

lemma accounted_answer [accounted_turns]:
  assumes "fsync_answer ok r i s = Some s'" and "orderly s" and "accounted s"
  shows "accounted s'"
proof -
  obtain v since where c: "calls s i = Uploading v since" "since \<le> r" "r \<le> content s"
    and s': "s' = s\<lparr>cloud := r, ipc_lock := None, calls := (calls s)(i := if ok then Returned True v True else Refused v)\<rparr>"
    using assms(1) by (auto simp: fsync_answer_def not_less split: call.splits if_splits)
  have o: "v \<le> since" "cloud s \<le> since" "\<forall>since. closing s \<noteq> Committing since"
    using assms(2) c(1) by (auto simp: orderly_def)
  show ?thesis
  proof (cases "cloud s = content s \<or> v = content s")
    case True
    then have "r = content s" using o c by auto
    then show ?thesis by (simp add: accounted_def s')
  next
    case False
    then have other: "j \<noteq> i" if "answers_for (content s) (calls s j) \<or> reported (content s) (calls s j)" for j
      using that c(1) by auto
    with assms(3) False o(3) show ?thesis
      unfolding accounted_def s' by (auto split: closing.splits)
  qed
qed

lemma accounted_release [accounted_turns]:
  "release_take s = Some s' \<Longrightarrow> accounted s \<Longrightarrow> accounted s'"
  "release_upload s = Some s' \<Longrightarrow> accounted s \<Longrightarrow> accounted s'"
  "release_answer ok r s = Some s' \<Longrightarrow> orderly s \<Longrightarrow> accounted s \<Longrightarrow> accounted s'"
  "release_unreachable s = Some s' \<Longrightarrow> accounted s \<Longrightarrow> accounted s'"
  unfolding accounted_def release_take_def release_upload_def release_answer_def release_unreachable_def orderly_def
  by (auto split: if_splits closing.splits)

lemma accounted_step: "take_turn c s = Some s' \<Longrightarrow> orderly s \<Longrightarrow> accounted s \<Longrightarrow> accounted s'"
  by (cases c) (auto intro: accounted_turns)

lemma shared_handle_inv: "shared_handle s \<Longrightarrow> orderly s \<and> accounted s"
  by (induction rule: shared_handle.induct) (auto intro: orderly_opened orderly_step accounted_step)

section \<open>Durability\<close>

fun take_turns :: "turn list \<Rightarrow> handle_state \<Rightarrow> handle_state option" where
  "take_turns [] s = Some s"
| "take_turns (c # cs) s = Option.bind (take_turn c s) (take_turns cs)"

lemma take_turns_shared: "take_turns cs s = Some s' \<Longrightarrow> shared_handle s \<Longrightarrow> shared_handle s'"
  by (induction cs arbitrary: s) (auto split: Option.bind_splits intro: shared_handle.turned)

text \<open>C5. No write is forgotten, however writes, fsyncs and the release of a handle interleave: as long as
  the daemon lacks a write, the open handle is dirty or an fsync in flight answers for that write; once the
  handle is released, its dirty bit was taken along, or the upload at release is under way with that write
  or has failed, or an fsync answers for it or has returned the error. And an fsync that claimed the dirty bit
  and returned success left the daemon with every write up to its claim.\<close>

theorem no_write_forgotten:
  assumes "shared_handle s"
  shows "(cloud s = content s \<or>
     (case closing s of
        Live \<Rightarrow> dirty s \<or> (\<exists>i. answers_for (content s) (calls s i))
      | Taken d \<Rightarrow> d
      | Committing since \<Rightarrow> since = content s
      | Gone ok \<Rightarrow> ok = False \<or> (\<exists>i. answers_for (content s) (calls s i) \<or> reported (content s) (calls s i)))) \<and>
    cloud s \<le> content s \<and>
    (case calls s j of Returned ok v took \<Rightarrow> if ok \<and> took then v \<le> cloud s else True | _ \<Rightarrow> True)"
  using shared_handle_inv [OF assms]
  by (auto simp: accounted_def orderly_def split: closing.splits call.splits)

text \<open>A write during the upload makes the handle dirty again, and the release uploads it.\<close>

theorem no_write_forgotten_witness:
  "\<exists>s. take_turns [TWrite, TClaim True 0, TUpload 0, TWrite, TAnswer True 1 0] (handle_opened False) = Some s \<and>
     dirty s \<and> cloud s = 1 \<and> content s = 2 \<and> calls s 0 = Returned True 1 True"
proof -
  obtain s where s: "take_turns [TWrite, TClaim True 0, TUpload 0, TWrite, TAnswer True 1 0] (handle_opened False) = Some s"
    "cloud s = 1" "content s = 2" "calls s 0 = Returned True 1 True" "closing s = Live" "\<forall>i \<noteq> 0. calls s i = Unused"
    by (simp add: section_defs handle_opened_def)
  have "\<not> answers_for (content s) (calls s i)" for i using s by (cases "i = 0") auto
  with no_write_forgotten [OF take_turns_shared [OF s(1) shared_handle.opened]] s show ?thesis by auto
qed


end
