(* ===== verification/FuseTurns.thy ===== *)
theory FuseTurns
  imports FuseData Durability
begin

text \<open>
  The request handlers against the critical sections of \<open>Durability\<close>: a request that is served as one
  step does to each open file what a run of the sections does to its abstract state, so the handlers of
  \<^verbatim>\<open>mount/src/fuse_fs.rs\<close> implement that specification. \<open>turns_of\<close> says which sections a request runs
  through for a given handle; requests about other handles, and all others, run through none.
\<close>

section \<open>Requests that leave a handle alone\<close>

text \<open>Programs that touch neither the table of open files nor the counter of file handles.\<close>

named_theorems keeps_files \<open>programs that leave the open files alone\<close>

abbreviation leaves_files :: "(('d, 'f) fs, 'e, 'a) prog \<Rightarrow> ((nat, 'f open_handle) hashmap \<Rightarrow> nat \<Rightarrow> bool) \<Rightarrow> bool" where
  "leaves_files m J \<equiv> keeps (\<lambda>s. J (open_handles s) (next_fh s)) m"

lemma file_steps [simp]:
  "next_fh (set_attr_of i f s) = next_fh s" "next_fh (set_handle fh g s) = next_fh s"
  "open_handles (set_attr_of i f s) = open_handles s"
  "next_fh (refresh_quota_if_due s) = next_fh s" "open_handles (refresh_quota_if_due s) = open_handles s"
  "next_fh (view_apply c s) = next_fh s" "open_handles (view_apply c s) = open_handles s"
  "next_fh (drop_entry cp s) = next_fh s" "open_handles (drop_entry cp s) = open_handles s"
  "next_fh (rename_raw_names p q s) = next_fh s"
  by (auto simp: set_attr_of_def set_handle_def refresh_quota_if_due_def view_apply_def drop_entry_def Let_def
      forget_raw_names_def rename_raw_names_def split: prod.splits invalidation.splits option.splits)

lemma files_basic [keeps_files]:
  "leaves_files (ipc_call m) J" "leaves_files (on_disk f) J" "leaves_files fresh_handle_number J"
  by (auto simp: keeps_def ipc_call_def zoom_def on_disk_def fresh_handle_number_def Let_def
      split: Option.bind_splits prod.splits)

lemma files_modify: "(\<And>s. open_handles (f s) = open_handles s \<and> next_fh (f s) = next_fh s) \<Longrightarrow> leaves_files (modify f) J"
  by (auto simp: keeps_def modify_def)

lemma files_helpers [keeps_files]:
  "leaves_files (name_of n) J" "leaves_files (path_of_inode i) J" "leaves_files (handle_of fh) J"
  "leaves_files (upload_handle w h p c) J" "leaves_files (close_jvm_handle w h) J"
  unfolding name_of_def path_of_inode_def handle_of_def upload_handle_def close_jvm_handle_def
  by (intro keeps_files keeps_rules)+

lemma files_populate [keeps_files]: "leaves_files (populate_from_list w p) J"
proof -
  have "leaves_files (\<lambda>s. let (representable, s1) = quarantine es s;
      (out, s2) = intern_entries representable s1 in Some (Inr out, s2)) J" for es
    by (intro keepsI) (auto simp: case_prod_beta Let_def)
  then show ?thesis unfolding populate_from_list_def by (intro keeps_files keeps_rules)
qed

lemma files_fetch [keeps_files]:
  "leaves_files (get_or_fetch_attr w i) J" "leaves_files (dotdot_inode i p) J"
  "leaves_files (refuse_nfc_collision w p cp n) J" "leaves_files (evict r cp) J"
proof -
  have "leaves_files (\<lambda>s. let (ino, m) = pm_intern (paths s) q in Some (Inr ino, s\<lparr>paths := m\<rparr>)) J" for q
    by (intro keepsI) (auto split: prod.splits)
  then show "leaves_files (dotdot_inode i p) J"
    unfolding dotdot_inode_def by (intro keeps_rules)
qed (unfold get_or_fetch_attr_def refuse_nfc_collision_def evict_def, (intro keeps_files keeps_rules)+)

lemma files_readers [keeps_files]:
  "leaves_files (lookup w i n) J" "leaves_files (getattr w i) J" "leaves_files (read_file w fh off sz) J"
  "leaves_files (readdir w i o1) J" "leaves_files (readdirplus w i o2) J" "leaves_files (getxattr i n x) J"
  "leaves_files (listxattr x) J" "leaves_files statfs J" "leaves_files fuse_init J" "leaves_files (quota_task w) J"
  unfolding lookup_def getattr_def read_file_def readdir_def readdirplus_def getxattr_def listxattr_def statfs_def
    fuse_init_def quota_task_def Let_def
  by (intro keeps_files keeps_rules files_modify; simp)+

lemma files_install_dir [keeps_files]: "leaves_files (install_dir w cp n) J"
  by (auto simp: keeps_def install_dir_def Let_def record_raw_name_def split: prod.splits)

lemma files_namespace [keeps_files]:
  "leaves_files (fuse_mkdir w i n) J" "leaves_files (fuse_unlink w i n) J" "leaves_files (fuse_rmdir w i n) J"
  unfolding fuse_mkdir_def fuse_unlink_def fuse_rmdir_def Let_def
  by (intro keeps_files keeps_rules files_modify; simp)+

lemma files_bare_truncate [keeps_files]:
  "leaves_files (bare_truncate_zero w p) J" "leaves_files (bare_truncate_size w hid p sz) J"
  unfolding bare_truncate_zero_def bare_truncate_size_def commit_and_close_def close_and_fail_def
  by (intro keeps_files keeps_rules)+

text \<open>The state of one handle: whether it is open, and dirty. Requests about other handles, and those that
  open, create or rename files, leave it as it is.\<close>

definition steady :: "nat \<Rightarrow> bool option \<Rightarrow> (nat, 'f open_handle) hashmap \<Rightarrow> nat \<Rightarrow> bool" where
  "steady fh d hs n \<longleftrightarrow> map_option oh_dirty (map_of hs fh) = d \<and> fh < n"

lemma steady_set_handle:
  "fh' \<noteq> fh \<Longrightarrow> leaves_files (modify (set_handle fh' f)) (steady fh d)"
  by (auto simp: keeps_def modify_def steady_def set_handle_def)

lemma steady_drop_handle:
  "fh' \<noteq> fh \<Longrightarrow> leaves_files (modify (\<lambda>s. s\<lparr>open_handles := AList.delete fh' (open_handles s)\<rparr>)) (steady fh d)"
  by (auto simp: keeps_def modify_def steady_def)

lemma steady_others:
  assumes "fh' \<noteq> fh"
  shows "leaves_files (write_file w i fh' off b) (steady fh d)" "leaves_files (fsync w fh' ds) (steady fh d)"
    "leaves_files (release w fh') (steady fh d)" "leaves_files (truncate_handle w fh' sz) (steady fh d)"
  unfolding write_file_def fsync_def release_def truncate_handle_def ignore_err_def Let_def
  by (intro keeps_files keeps_rules files_modify steady_set_handle steady_drop_handle assms; simp)+

lemma steady_truncates:
  assumes "fh' \<noteq> Some fh"
  shows "leaves_files (truncate_to_zero w i p fh') (steady fh d)" "leaves_files (truncate_to_size w i p fh' sz) (steady fh d)"
  unfolding truncate_to_zero_def truncate_to_size_def Let_def
  by (intro keeps_files keeps_rules files_modify steady_others; (use assms in simp))+

lemma steady_setattr: "fh' \<noteq> Some fh \<Longrightarrow> leaves_files (setattr w i fh' sz) (steady fh d)"
  unfolding setattr_def by (intro keeps_files keeps_rules steady_truncates)

lemma steady_open: "leaves_files (open_file w i flags) (steady fh d)"
proof -
  have finish: "leaves_files (andthen fresh_fh (\<lambda>fh. andthen (modify (\<lambda>s. s\<lparr>open_handles :=
      AList.update fh h (open_handles s)\<rparr>)) (\<lambda>_. ret \<lparr>ro_fh = fh, ro_flags = g\<rparr>))) (steady fh d)" for h :: "'b open_handle" and g
    by (intro keepsI) (auto simp: andthen_Some fresh_fh_def modify_def ret_def steady_def)
  have stat: "leaves_files (\<lambda>s. case meta of
       Inl _ \<Rightarrow> Some (Inr False, s)
     | Inr len \<Rightarrow> Some (Inr (case map_of (attrs s) i of Some a \<Rightarrow> ca_size a \<noteq> len | None \<Rightarrow> False),
                       set_attr_of i (\<lambda>a. a\<lparr>ca_size := len\<rparr>) s)) (steady fh d)" for meta :: "io_err + u64"
    by (intro keepsI) (auto split: sum.splits)
  show ?thesis
    unfolding open_file_def Let_def
    by (intro finish stat keeps_files keeps_rules files_modify; simp)
qed

lemma steady_create: "leaves_files (create_internal w i n) (steady fh d)"
proof -
  have "leaves_files (install_file w cp name reply f) (steady fh d)" for cp name reply and f :: 'b
    by (auto simp: keeps_def install_file_def Let_def steady_def record_raw_name_def split: prod.splits)
  then show ?thesis unfolding create_internal_def Let_def by (intro keeps_files keeps_rules)
qed

lemma steady_create_file: "leaves_files (fuse_create w i n) (steady fh d)"
  unfolding fuse_create_def by (intro steady_create keeps_rules)

text \<open>The file handle that a create hands out is a new one.\<close>

lemma create_fresh:
  assumes "create_internal w i n s = Some (Inr (fh', v), s')" and "fh < next_fh s"
  shows "fh' \<noteq> fh"
proof -
  obtain p s1 reply s2 f d where c: "refuse_nfc_collision w p (child_path (lib w) p n) n s = Some (Inr (), s1)"
    "ipc_call (rc_create (lib w) (rc w) (handle_name ''create-'' (next_handle_id s1)) (child_path (lib w) p n))
       (s1\<lparr>next_handle_id := next_handle_id s1 + 1\<rparr>) = Some (Inr reply, s2)"
    "install_file w (child_path (lib w) p n) n reply f (s2\<lparr>disk := d\<rparr>) = Some (Inr (fh', v), s')"
    using assms(1) unfolding create_internal_Inr by blast
  have "next_fh s1 = next_fh s"
    by (rule keepsD [OF files_fetch(3) [where J = "\<lambda>_ k. k = next_fh s"] _ c(1)]) simp
  then have "next_fh s2 = next_fh s"
    using keepsD [OF files_basic(1) [where J = "\<lambda>_ k. k = next_fh s"] _ c(2)] by simp
  then show ?thesis
    using c(3) assms(2) by (auto simp: install_file_def Let_def record_raw_name_def split: prod.splits if_splits)
qed

lemma steady_mknod: "leaves_files (mknod w i n mode) (steady fh d)"
  unfolding mknod_def Let_def ignore_err_def
proof (intro keeps_if keeps_simple keeps_andthen_result [OF steady_create], clarify, goal_cases)
  case (1 s fh' a ino s')
  then have "fh' \<noteq> fh" using create_fresh [OF 1(3)] 1(2) by (simp add: steady_def)
  then show ?case by (intro keeps_files keeps_rules steady_drop_handle)
qed

lemma steady_rename: "leaves_files (fuse_rename w i n j k) (steady fh d)"
proof -
  have "leaves_files (modify (\<lambda>s. record_raw_name w q m (rename_raw_names p q
      (s\<lparr>paths := pm_rename (paths s) p q, open_handles := map (\<lambda>(fh, h). (fh, follow_rename p q h)) (open_handles s)\<rparr>))))
      (steady fh d)" for p q m
    by (auto simp: keeps_def modify_def steady_def map_of_map_snd record_raw_name_def option.map_comp comp_def)
  then show ?thesis
    unfolding fuse_rename_def Let_def by (intro keeps_files keeps_rules) simp
qed

section \<open>The sections a request runs through\<close>

definition succeeds :: "('s, 'e, 'a) prog \<Rightarrow> 's \<Rightarrow> bool" where
  "succeeds m s = (case m s of Some (Inr _, _) \<Rightarrow> True | _ \<Rightarrow> False)"

definition write_turns :: "bool \<Rightarrow> turn list" where
  "write_turns done = (if done then [TWrite] else [])"

text \<open>For an fsync on an open handle: whether the local sync succeeds, whether the handle is dirty, whether the
  upload succeeds. The call has number \<open>i\<close>, and the cache file holds write \<open>n\<close>.\<close>

definition fsync_turns :: "nat \<Rightarrow> nat \<Rightarrow> bool \<Rightarrow> bool \<Rightarrow> bool \<Rightarrow> turn list" where
  "fsync_turns i n synced was_dirty uploaded =
     TClaim synced i # (if synced \<and> was_dirty
       then TUpload i # (if uploaded then [TAnswer True n i] else [TUnreachable i, TRestore i]) else [])"

definition release_turns :: "nat \<Rightarrow> bool \<Rightarrow> bool \<Rightarrow> turn list" where
  "release_turns n was_dirty uploaded =
     TTake # (if was_dirty then [TCommit, if uploaded then TCommitted True n else TCommitUnreachable] else [])"

definition uploads :: "('d, 'f) sys \<Rightarrow> 'f open_handle \<Rightarrow> ('d, 'f) fs \<Rightarrow> bool" where
  "uploads w h = succeeds (upload_handle w (oh_handle_id h) (oh_remote_path h) (oh_cache_path h))"

definition local_sync :: "('d, 'f) sys \<Rightarrow> bool \<Rightarrow> 'f open_handle \<Rightarrow> (('d, 'f) fs, io_err, unit) prog" where
  "local_sync w datasync h = on_disk (if datasync then os_sync_data w (oh_file h) else os_sync_all w (oh_file h))"

fun turns_of :: "('d, 'f) sys \<Rightarrow> nat \<Rightarrow> nat \<Rightarrow> nat \<Rightarrow> request \<Rightarrow> ('d, 'f) fs \<Rightarrow> turn list" where
  "turns_of w fh i n (Write ino f off b) s = write_turns (f = fh \<and> succeeds (write_file w ino f off b) s)"
| "turns_of w fh i n (Setattr ino (Some f) (Some sz)) s =
     write_turns (f = fh \<and> path_for (paths s) ino \<noteq> None \<and> succeeds (truncate_handle w f sz) s)"
| "turns_of w fh i n (Fsync f ds) s =
     (case map_of (open_handles s) f of
        Some h \<Rightarrow> if f = fh then fsync_turns i n (succeeds (local_sync w ds h) s) (oh_dirty h) (succeeds (fsync w f ds) s) else []
      | None \<Rightarrow> [])"
| "turns_of w fh i n (Release f) s =
     (case map_of (open_handles s) f of
        Some h \<Rightarrow> if f = fh then release_turns n (oh_dirty h) (uploads w h (s\<lparr>open_handles := AList.delete f (open_handles s)\<rparr>)) else []
      | None \<Rightarrow> [])"
| "turns_of w fh i n _ s = []"

text \<open>The abstract state of the handle, between two requests: no call is in flight, the handle is open and as
  dirty as its entry in the table, and a clean handle and a successful commit at release have left the
  daemon with every write.\<close>

definition finished :: "call \<Rightarrow> bool" where
  "finished c \<longleftrightarrow> (case c of Unused \<Rightarrow> True | Returned _ _ _ \<Rightarrow> True | _ \<Rightarrow> False)"

definition between :: "bool option \<Rightarrow> nat \<Rightarrow> handle_state \<Rightarrow> bool" where
  "between d i a \<longleftrightarrow> ipc_lock a = None \<and> (\<forall>j. finished (calls a j)) \<and> (\<forall>j \<ge> i. calls a j = Unused) \<and>
     (case d of
        Some d \<Rightarrow> closing a = Live \<and> dirty a = d \<and> (d \<or> cloud a = content a)
      | None \<Rightarrow> closing a = Gone False \<or> closing a = Gone True \<and> cloud a = content a)"

lemma between_Suc: "between d i a \<Longrightarrow> between d (Suc i) a"
  by (auto simp: between_def)

lemma between_opened: "between (Some t) 0 (handle_opened t)"
  by (simp add: between_def handle_opened_def finished_def)

lemma between_write:
  assumes "between (Some d) i a"
  shows "\<exists>a'. take_turns (write_turns b) a = Some a' \<and> between (Some (b \<or> d)) (Suc i) a'"
  using assms by (auto simp: between_def write_turns_def write_section_def)

lemma finished_simps [simp]: "finished Unused" "finished (Returned ok v took)"
  by (simp_all add: finished_def)

lemma between_fsync:
  assumes "between (Some d) i a"
  shows "\<exists>a'. take_turns (fsync_turns i (content a) synced d uploaded) a = Some a' \<and>
    between (Some (if synced \<and> uploaded then False else d)) (Suc i) a'"
  using assms
  by (auto simp: between_def fsync_turns_def section_defs)

lemma between_release:
  assumes "between (Some d) i a"
  shows "\<exists>a'. take_turns (release_turns (content a) d uploaded) a = Some a' \<and> between None (Suc i) a'"
  using assms by (auto simp: between_def release_turns_def section_defs)

section \<open>What the handlers do to the handle they are called with\<close>

lemma map_of_set_handle [simp]:
  "map_of (open_handles (set_handle fh f s)) fh' =
     (if fh' = fh then map_option f (map_of (open_handles s) fh) else map_of (open_handles s) fh')"
  by (simp add: set_handle_def)

abbreviation dirty_at :: "nat \<Rightarrow> ('d, 'f) fs \<Rightarrow> bool option" where
  "dirty_at fh s \<equiv> map_option oh_dirty (map_of (open_handles s) fh)"

lemma map_sum_isl [simp]: "isl (map_sum f g q) = isl q" "map_sum f g q = Inl e \<longleftrightarrow> (\<exists>e'. q = Inl e' \<and> e = f e')"
  "Inl e = map_sum f g q \<longleftrightarrow> (\<exists>e'. q = Inl e' \<and> e = f e')"
  "map_sum f id q = Inr v \<longleftrightarrow> q = Inr v" "Inr v = map_sum f id q \<longleftrightarrow> q = Inr v"
  by (cases q; auto)+

lemma not_found_Some [simp]:
  "handle_of fh s = Some (Inl e, s') \<longleftrightarrow> map_of (open_handles s) fh = None \<and> s' = s \<and> e = EBADF"
  "path_of_inode i s = Some (Inl e, s') \<longleftrightarrow> path_for (paths s) i = None \<and> s' = s \<and> e = ENOENT"
  by (auto simp: handle_of_def path_of_inode_def ok_or_Some res_or_def split: option.splits)

lemma write_file_dirty:
  assumes "write_file w ino fh off b s = Some (r, s')"
  shows "dirty_at fh s' = (if isl r then dirty_at fh s else Some True) \<and> next_fh s' = next_fh s \<and>
    (isl r \<or> dirty_at fh s \<noteq> None)"
  using assms unfolding write_file_def Let_def
  by (auto simp: andthen_Some step_Some map_err_Some)

lemma truncate_dirty:
  assumes "truncate_handle w fh sz s = Some (r, s')"
  shows "dirty_at fh s' = (if isl r then dirty_at fh s else Some True) \<and> next_fh s' = next_fh s \<and>
    (isl r \<or> dirty_at fh s \<noteq> None)"
  using assms unfolding truncate_handle_def Let_def
  by (auto simp: andthen_Some step_Some map_err_Some)

text \<open>Truncating through a handle: the rest of the request leaves the open files alone.\<close>

lemma leaves_same:
  assumes "leaves_files m (\<lambda>hs k. hs = open_handles s \<and> k = next_fh s)" and "m s = Some (r, s')"
  shows "open_handles s' = open_handles s \<and> next_fh s' = next_fh s"
  using keepsD [OF assms(1) _ assms(2)] by simp

lemma setattr_dirty:
  assumes "setattr w ino (Some fh) (Some sz) s = Some (r, s')"
  shows "let done = path_for (paths s) ino \<noteq> None \<and> succeeds (truncate_handle w fh sz) s in
    dirty_at fh s' = (if done then Some True else dirty_at fh s) \<and> next_fh s' = next_fh s \<and> (done \<longrightarrow> dirty_at fh s \<noteq> None)"
proof (cases "path_for (paths s) ino")
  case None
  then show ?thesis using assms by (auto simp: setattr_def andthen_Some step_Some)
next
  case (Some p)
  let ?trunc = "if sz = 0 then truncate_to_zero w ino p (Some fh) else truncate_to_size w ino p (Some fh) sz"
  obtain q t where q: "?trunc s = Some (q, t)" and rest: "case q of Inl e \<Rightarrow> s' = t | Inr _ \<Rightarrow> getattr w ino t = Some (r, s')"
    using assms Some unfolding setattr_def by (auto simp: andthen_Some step_Some split: if_splits)
  have "open_handles s' = open_handles t \<and> next_fh s' = next_fh t"
    using rest by (cases q) (auto dest: leaves_same [OF files_readers(2)])
  moreover obtain q' t' where "truncate_handle w fh sz s = Some (q', t')" "isl q' = isl q"
    "open_handles t = open_handles t'" "next_fh t = next_fh t'"
    using q unfolding truncate_to_zero_def truncate_to_size_def by (auto simp: andthen_Some simple_Some split: if_splits)
  ultimately show ?thesis
    using truncate_dirty [of w fh sz s q' t'] Some by (cases q') (auto simp: succeeds_def)
qed

lemma upload_leaves:
  "upload_handle w hid p c s = Some (q, s') \<Longrightarrow> open_handles s' = open_handles s \<and> next_fh s' = next_fh s"
  by (rule leaves_same [OF files_helpers(4)])

lemma fsync_dirty:
  assumes "fsync w fh ds s = Some (r, s')" and "map_of (open_handles s) fh = Some h"
  shows "dirty_at fh s' = Some (if succeeds (local_sync w ds h) s \<and> \<not> isl r then False else oh_dirty h) \<and>
    next_fh s' = next_fh s"
proof -
  obtain q d where sync: "local_sync w ds h s = Some (q, s\<lparr>disk := d\<rparr>)"
    by (cases "(if ds then os_sync_data w (oh_file h) else os_sync_all w (oh_file h)) (disk s)")
      (auto simp: local_sync_def on_disk_Some)
  have handle: "handle_of fh s = Some (Inr h, s)" using assms(2) by (simp add: step_Some)
  have run: "andthen (map_err (\<lambda>_. EIO) (local_sync w ds h)) (\<lambda>_.
      andthen (modify (set_handle fh (\<lambda>h. h\<lparr>oh_dirty := False\<rparr>))) (\<lambda>_.
        if \<not> oh_dirty h then ret ()
        else andthen (attempt (upload_handle w (oh_handle_id h) (oh_remote_path h) (oh_cache_path h))) (\<lambda>upload.
          case upload of
            Inl e \<Rightarrow> andthen (modify (set_handle fh (\<lambda>h. h\<lparr>oh_dirty := True\<rparr>))) (\<lambda>_. throw (ipc_error_to_errno e))
          | Inr _ \<Rightarrow> ret ()))) s = Some (r, s')"
    using assms(1) unfolding fsync_def andthen_step [of "handle_of fh" s h s, OF handle] Let_def local_sync_def .
  show ?thesis
  proof (cases q)
    case (Inl e)
    then show ?thesis using run sync assms(2) by (auto simp: andthen_Some map_err_Some succeeds_def)
  next
    case (Inr u)
    have "map_err (\<lambda>_. EIO) (local_sync w ds h) s = Some (Inr u, s\<lparr>disk := d\<rparr>)" using sync Inr by (simp add: map_err_Some)
    note run' = run [unfolded andthen_step [of "map_err (\<lambda>_. EIO) (local_sync w ds h)" s u "s\<lparr>disk := d\<rparr>", OF this]]
    have synced: "succeeds (local_sync w ds h) s" using sync Inr by (simp add: succeeds_def)
    show ?thesis
    proof (cases "oh_dirty h")
      case True
      let ?up = "upload_handle w (oh_handle_id h) (oh_remote_path h) (oh_cache_path h)"
      let ?then = "case_sum (\<lambda>e s. throw (ipc_error_to_errno e) (set_handle fh (\<lambda>h. h\<lparr>oh_dirty := True\<rparr>) s)) (\<lambda>_. ret ())"
      have "andthen (attempt ?up) ?then (set_handle fh (\<lambda>h. h\<lparr>oh_dirty := False\<rparr>) (s\<lparr>disk := d\<rparr>)) = Some (r, s')"
        using run' True by simp
      then obtain q' t where t: "?up (set_handle fh (\<lambda>h. h\<lparr>oh_dirty := False\<rparr>) (s\<lparr>disk := d\<rparr>)) = Some (q', t)"
        and "?then q' t = Some (r, s')"
        unfolding andthen_Some attempt_Some by (metis sum.distinct(1) sum.inject(2))
      with True synced upload_leaves [OF t] assms(2) show ?thesis by (cases q') (auto simp: simple_Some)
    next
      case False
      with run' synced assms(2) show ?thesis by (auto simp: simple_Some)
    qed
  qed
qed

lemma release_dirty:
  assumes "release w fh s = Some (r, s')"
  shows "dirty_at fh s' = None \<and> next_fh s' = next_fh s"
  using assms unfolding release_def ignore_err_def
  by (auto simp: andthen_Some simple_Some attempt_Some dest!: upload_leaves leaves_same [OF files_helpers(5)] split: if_splits option.splits)

section \<open>The handlers implement the sections\<close>

lemma serve_between:
  assumes serve: "serve w q s = Some s'" and st: "steady fh d (open_handles s) (next_fh s)" and bt: "between d i a"
  shows "\<exists>a' d'. take_turns (turns_of w fh i (content a) q s) a = Some a' \<and> between d' (Suc i) a' \<and>
    steady fh d' (open_handles s') (next_fh s')"
proof -
  have d: "dirty_at fh s = d" "fh < next_fh s" using st by (auto simp: steady_def)
  have idle: ?thesis if "turns_of w fh i (content a) q s = []" "steady fh d (open_handles s') (next_fh s')"
    using that between_Suc [OF bt] by auto
  have wrote: ?thesis if "turns_of w fh i (content a) q s = write_turns done" "dirty_at fh s' = (if done then Some True else d)"
      "next_fh s' = next_fh s" "done \<longrightarrow> d \<noteq> None" for "done"
  proof (cases d)
    case None
    then show ?thesis using that idle d by (simp add: write_turns_def steady_def)
  next
    case (Some d0)
    then show ?thesis
      using between_write [OF bt [unfolded Some], of "done"] that d by (cases "done") (auto simp: steady_def)
  qed
  show ?thesis
  proof (cases q)
    case (Write ino f off b)
    obtain r where r: "write_file w ino f off b s = Some (r, s')" using serve Write by (auto simp: after_def)
    show ?thesis
    proof (cases "f = fh")
      case True
      show ?thesis
        by (rule wrote [of "\<not> isl r"])
          (use write_file_dirty [OF r] r d True Write in \<open>auto simp: succeeds_def split: sum.splits\<close>)
    next
      case False
      show ?thesis
        by (rule idle) (use keepsD [OF steady_others(1) [OF False] st r] False Write in \<open>auto simp: write_turns_def\<close>)
    qed
  next
    case (Fsync f ds)
    obtain r where r: "fsync w f ds s = Some (r, s')" using serve Fsync by (auto simp: after_def)
    then have up: "succeeds (fsync w f ds) s = (\<not> isl r)" by (cases r) (simp_all add: succeeds_def)
    show ?thesis
    proof (cases "f = fh \<and> d \<noteq> None")
      case True
      then obtain h where h: "map_of (open_handles s) fh = Some h" using d by (cases "map_of (open_handles s) fh") auto
      let ?synced = "succeeds (local_sync w ds h) s"
      have "between (Some (oh_dirty h)) i a" using bt d h by simp
      from between_fsync [OF this, of ?synced "\<not> isl r"] show ?thesis
        using fsync_dirty [of w fh ds s r s', OF _ h] r True Fsync h d up
        by (fastforce simp: steady_def)
    next
      case False
      then have "map_of (open_handles s) fh = None" if "f = fh" using that d by auto
      moreover have "steady fh d (open_handles s') (next_fh s')"
      proof (cases "f = fh")
        case True
        then have "s' = s" using r False d by (auto simp: fsync_def andthen_Some step_Some)
        with st show ?thesis by simp
      qed (use keepsD [OF steady_others(2) st r] in simp)
      ultimately show ?thesis by (intro idle) (auto simp: Fsync split: option.splits)
    qed
  next
    case (Release f)
    obtain r where r: "release w f s = Some (r, s')" using serve Release by (auto simp: after_def)
    show ?thesis
    proof (cases "f = fh \<and> d \<noteq> None")
      case True
      then obtain h where h: "map_of (open_handles s) fh = Some h" using d by (cases "map_of (open_handles s) fh") auto
      have "between (Some (oh_dirty h)) i a" using bt d h by simp
      from between_release [OF this] show ?thesis
        using release_dirty r True Release h d by (fastforce simp: steady_def)
    next
      case False
      then have "map_of (open_handles s) fh = None" if "f = fh" using that d by auto
      moreover have "steady fh d (open_handles s') (next_fh s')"
      proof (cases "f = fh")
        case True
        then have "s' = s" using r False d by (auto simp: release_def ret_def)
        with st show ?thesis by simp
      qed (use keepsD [OF steady_others(3) st r] in simp)
      ultimately show ?thesis by (intro idle) (auto simp: Release split: option.splits)
    qed
  next
    case (Setattr ino f sz)
    obtain r where r: "setattr w ino f sz s = Some (r, s')" using serve Setattr by (auto simp: after_def)
    consider "f \<noteq> Some fh" | "f = Some fh" "sz = None" | z where "f = Some fh" "sz = Some z" by auto
    then show ?thesis
    proof cases
      case 1
      then have "turns_of w fh i (content a) q s = []"
        by (cases f; cases sz) (auto simp: Setattr write_turns_def)
      with keepsD [OF steady_setattr [OF 1] st r] show ?thesis by (intro idle)
    next
      case 2
      have "leaves_files (setattr w ino f None) J" for J
        unfolding setattr_def by (intro keeps_files keeps_rules) simp_all
      from keepsD [OF this [of "steady fh d"] st] r 2 show ?thesis by (intro idle) (auto simp: Setattr)
    next
      case 3
      show ?thesis
        by (rule wrote [of "path_for (paths s) ino \<noteq> None \<and> succeeds (truncate_handle w fh z) s"])
          (use setattr_dirty [of w ino fh z s r s'] r d 3 Setattr in \<open>auto simp: Let_def\<close>)
    qed
  qed ((rule idle; use serve st in \<open>auto intro!: keeps_files steady_open steady_mknod steady_rename steady_create_file
      elim!: after_keeps [where I = "\<lambda>s. steady fh d (open_handles s) (next_fh s)"]\<close>)+)
qed

text \<open>A handle followed from a moment at which it is open, through the requests served since.\<close>

inductive followed :: "('d, 'f) sys \<Rightarrow> nat \<Rightarrow> nat \<Rightarrow> ('d, 'f) fs \<Rightarrow> handle_state \<Rightarrow> bool" for w fh where
  opened: "reachable w (\<lambda>_. True) s \<Longrightarrow> map_of (open_handles s) fh = Some h \<Longrightarrow>
     followed w fh 0 s (handle_opened (oh_dirty h))"
| served: "followed w fh i s a \<Longrightarrow> serve w q s = Some s' \<Longrightarrow>
     take_turns (turns_of w fh i (content a) q s) a = Some a' \<Longrightarrow> followed w fh (Suc i) s' a'"

lemma followed_between:
  assumes "followed w fh i s a"
  shows "between (dirty_at fh s) i a \<and> fh < next_fh s \<and> shared_handle a"
  using assms
proof (induction rule: followed.induct)
  case (opened s h)
  then have "fh < next_fh s" using fsi.always [OF opened(1)] by (simp add: fs_inv_def)
  with opened show ?case using between_opened shared_handle.opened by simp
next
  case (served i s a q s' a')
  then have "steady fh (dirty_at fh s) (open_handles s) (next_fh s)" by (simp add: steady_def)
  from serve_between [OF served(2) this] served take_turns_shared show ?case
    by (fastforce simp: steady_def)
qed



end
