(* ===== verification/CacheScanner.thy ===== *)
theory CacheScanner
  imports Ipc "HOL-Library.Multiset"
begin

text \<open>
  Model of \<^verbatim>\<open>mount/src/cache_scanner.rs\<close>: at startup the cache directory is walked and every file that
  is at least as new as the daemon's watermark is uploaded again. The operating system's view of the
  directory is a parameter (\<open>scan_os\<close>): existence, canonicalisation, directory listings with their
  possible errors, and the metadata of a path. The walk keeps a stack of directories and may not end on a
  directory structure with cycles, so it is a \<^verbatim>\<open>partial_function (option)\<close>; \<open>walk_returns\<close> shows that it
  ends on every finite tree.
\<close>

datatype ftype = FDir | FFile | FSymlink | FOther

record dirent =
  ent_path :: path
  ent_type :: "io_err + ftype"

text \<open>The metadata: the type and the modification time in nanoseconds since the epoch.\<close>

record scan_os =
  so_exists :: "path \<Rightarrow> bool"
  so_canonicalize :: "path \<Rightarrow> io_err + path"
  so_read_dir :: "path \<Rightarrow> io_err + (io_err + dirent) list"
  so_lstat :: "path \<Rightarrow> io_err + (ftype \<times> (io_err + int))"

section \<open>Paths below the root\<close>

text \<open>\<^verbatim>\<open>Path::strip_prefix\<close> and \<^verbatim>\<open>Path::starts_with\<close> compare whole components; on canonical paths this is
  equality or a prefix that ends at a slash.\<close>

definition path_strip :: "path \<Rightarrow> path \<Rightarrow> path option" where
  "path_strip p root =
     (if p = root then Some ''''
      else strip_prefix p (if root \<noteq> '''' \<and> last root = slash then root else root @ [slash]))"

definition path_starts_with :: "path \<Rightarrow> path \<Rightarrow> bool" where
  "path_starts_with p root \<longleftrightarrow> path_strip p root \<noteq> None"

definition remote_of :: "path \<Rightarrow> string" where
  "remote_of rel = slash # map (\<lambda>c. if c = CHR 0x5C then slash else c) (from_utf8_lossy rel)"

definition as_i64_wrapping :: "int \<Rightarrow> int" where
  "as_i64_wrapping n = (n + 2 ^ 63) mod 2 ^ 64 - 2 ^ 63"

definition mtime_ms :: "scan_os \<Rightarrow> path \<Rightarrow> path \<Rightarrow> io_err + int" where
  "mtime_ms os canon_p canon_root =
     (if \<not> path_starts_with canon_p canon_root then Inl (OtherErr 22)
      else res_then (so_lstat os canon_p) (\<lambda>(typ, modified).
        if typ = FSymlink then Inl (OtherErr 22)
        else res_then modified (\<lambda>ns.
          if ns < 0 then Inl (OtherErr 0) else Inr (as_i64_wrapping (ns div 1000000)))))"

section \<open>The walk\<close>

text \<open>What one entry adds to the stack or to the output; \<open>Inl\<close> when the walk gives up.\<close>

definition visit :: "scan_os \<Rightarrow> path \<Rightarrow> io_err + dirent \<Rightarrow> io_err + (path list \<times> (path \<times> string) list)" where
  "visit os root entry =
     res_then entry (\<lambda>entry.
     res_then (ent_type entry) (\<lambda>file_type.
       if file_type = FSymlink then Inr ([], [])
       else if file_type = FDir then
         (case so_canonicalize os (ent_path entry) of
            Inl _ \<Rightarrow> Inr ([], [])
          | Inr canon_dir \<Rightarrow> if path_starts_with canon_dir root then Inr ([canon_dir], []) else Inr ([], []))
       else if file_type \<noteq> FFile then Inr ([], [])
       else
         (case so_canonicalize os (ent_path entry) of
            Inl _ \<Rightarrow> Inr ([], [])
          | Inr canon_path \<Rightarrow>
              (case path_strip canon_path root of
                 None \<Rightarrow> Inr ([], [])
               | Some rel \<Rightarrow> Inr ([], [(canon_path, remote_of rel)])))))"

fun visit_all :: "scan_os \<Rightarrow> path \<Rightarrow> (io_err + dirent) list \<Rightarrow> path list \<Rightarrow> (path \<times> string) list \<Rightarrow>
    io_err + (path list \<times> (path \<times> string) list)" where
  "visit_all os root [] stack acc = Inr (stack, acc)"
| "visit_all os root (e # es) stack acc =
     res_then (visit os root e) (\<lambda>(dirs, files). visit_all os root es (dirs @ stack) (acc @ files))"

partial_function (option) walk ::
    "scan_os \<Rightarrow> path \<Rightarrow> path list \<Rightarrow> (path \<times> string) list \<Rightarrow> (io_err + (path \<times> string) list) option" where
  "walk os root stack acc =
     (case stack of
        [] \<Rightarrow> Some (Inr acc)
      | dir # rest \<Rightarrow>
          (case so_read_dir os dir of
             Inl _ \<Rightarrow> walk os root rest acc
           | Inr entries \<Rightarrow>
               (case visit_all os root entries rest acc of
                  Inl e \<Rightarrow> Some (Inl e)
                | Inr (stack', acc') \<Rightarrow> walk os root stack' acc')))"

definition collect_files :: "scan_os \<Rightarrow> path \<Rightarrow> (io_err + (path \<times> string) list) option" where
  "collect_files os root =
     (case so_canonicalize os root of
        Inl e \<Rightarrow> Some (Inl e)
      | Inr canon_root \<Rightarrow> walk os canon_root [canon_root] [])"

section \<open>The replay\<close>

datatype scanner_error = Walk io_err

definition scanner_error_message :: "(io_err \<Rightarrow> string) \<Rightarrow> scanner_error \<Rightarrow> string" where
  "scanner_error_message display_io e = (case e of Walk err \<Rightarrow> ''walk error: '' @ display_io err)"

fun replay :: "ext \<Rightarrow> scan_os \<Rightarrow> path \<Rightarrow> (path \<times> string) list \<Rightarrow> nat \<Rightarrow> nat \<Rightarrow>
    (conn, scanner_error, nat) prog" where
  "replay x os canon_root [] handle_n replayed = ret replayed"
| "replay x os canon_root ((cache_path, remote_path) # files) handle_n replayed =
     (case mtime_ms os cache_path canon_root of
        Inl _ \<Rightarrow> replay x os canon_root files handle_n replayed
      | Inr cache_mtime_ms \<Rightarrow>
          andthen (attempt (last_synced x remote_path)) (\<lambda>watermark.
            case watermark of
              Inl _ \<Rightarrow> replay x os canon_root files handle_n replayed
            | Inr watermark \<Rightarrow>
                if cache_mtime_ms < watermark then replay x os canon_root files handle_n replayed
                else
                  andthen (attempt (open_write x (''recovery-'' @ fmt_nat (handle_n + 1)) remote_path
                                     (from_utf8_lossy cache_path))) (\<lambda>sent.
                    replay x os canon_root files (handle_n + 1)
                      (case sent of Inl _ \<Rightarrow> replayed | Inr _ \<Rightarrow> replayed + 1))))"

definition scan_and_replay :: "ext \<Rightarrow> scan_os \<Rightarrow> path \<Rightarrow> (conn, scanner_error, nat) prog" where
  "scan_and_replay x os cache_root =
     (if \<not> so_exists os cache_root then ret 0
      else case so_canonicalize os cache_root of
        Inl e \<Rightarrow> throw (Walk e)
      | Inr canon_root \<Rightarrow> (\<lambda>c.
          Option.bind (collect_files os cache_root) (\<lambda>files.
            case files of
              Inl e \<Rightarrow> throw (Walk e) c
            | Inr files \<Rightarrow> replay x os canon_root files 0 0 c)))"

section \<open>What the walk finds\<close>

text \<open>A listing names a directory to go on with, or a file to report: neither through a symbolic link, and
  only when the canonical path stays below the root.\<close>

definition names_dir :: "scan_os \<Rightarrow> path \<Rightarrow> (io_err + dirent) list \<Rightarrow> path \<Rightarrow> bool" where
  "names_dir os root es d \<longleftrightarrow> (\<exists>e. Inr e \<in> set es \<and> ent_type e = Inr FDir \<and>
     so_canonicalize os (ent_path e) = Inr d \<and> path_starts_with d root)"

definition names_file :: "scan_os \<Rightarrow> path \<Rightarrow> (io_err + dirent) list \<Rightarrow> path \<times> string \<Rightarrow> bool" where
  "names_file os root es f \<longleftrightarrow> (\<exists>e rel. Inr e \<in> set es \<and> ent_type e = Inr FFile \<and>
     so_canonicalize os (ent_path e) = Inr (fst f) \<and> path_strip (fst f) root = Some rel \<and> snd f = remote_of rel)"

text \<open>The directories that the walk reaches from one on its stack.\<close>

definition subdir :: "scan_os \<Rightarrow> path \<Rightarrow> path \<Rightarrow> path \<Rightarrow> bool" where
  "subdir os root d d' \<longleftrightarrow> (\<exists>es. so_read_dir os d = Inr es \<and> names_dir os root es d')"

inductive walked :: "scan_os \<Rightarrow> path \<Rightarrow> path \<Rightarrow> path \<Rightarrow> bool" for os root where
  here: "walked os root d d"
| below: "subdir os root d d' \<Longrightarrow> walked os root d' d'' \<Longrightarrow> walked os root d d''"

inductive_simps walked_iff: "walked os root d d''"

definition found :: "scan_os \<Rightarrow> path \<Rightarrow> path \<Rightarrow> (path \<times> string) set" where
  "found os root s = {f. \<exists>d es. walked os root s d \<and> so_read_dir os d = Inr es \<and> names_file os root es f}"

text \<open>An entry, or the type of one, that could not be read.\<close>

definition unreadable :: "scan_os \<Rightarrow> path \<Rightarrow> path \<Rightarrow> io_err \<Rightarrow> bool" where
  "unreadable os root s e \<longleftrightarrow> (\<exists>d es en. walked os root s d \<and> so_read_dir os d = Inr es \<and> en \<in> set es \<and>
     (en = Inl e \<or> (\<exists>ent. en = Inr ent \<and> ent_type ent = Inl e)))"

lemma names_Nil [simp]: "\<not> names_dir os root [] d" "\<not> names_file os root [] f"
  by (simp_all add: names_dir_def names_file_def)

lemma names_Cons:
  "names_dir os root (en # es) d \<longleftrightarrow> names_dir os root [en] d \<or> names_dir os root es d"
  "names_file os root (en # es) f \<longleftrightarrow> names_file os root [en] f \<or> names_file os root es f"
  unfolding names_dir_def names_file_def by auto

lemma visit_names:
  assumes "visit os root en = Inr (ds, fs)"
  shows "d \<in> set ds \<longleftrightarrow> names_dir os root [en] d" and "f \<in> set fs \<longleftrightarrow> names_file os root [en] f"
proof -
  show "d \<in> set ds \<longleftrightarrow> names_dir os root [en] d"
    using assms by (auto simp: visit_def names_dir_def res_then_def split: sum.splits if_splits option.splits)
  show "f \<in> set fs \<longleftrightarrow> names_file os root [en] f"
    using assms by (cases f) (auto simp: visit_def names_file_def res_then_def split: sum.splits if_splits option.splits)
qed

lemma visit_all_names:
  assumes "visit_all os root es st acc = Inr (st', acc')"
  shows "(\<exists>ds. st' = ds @ st \<and> set ds = {d. names_dir os root es d}) \<and>
     set acc' = set acc \<union> {f. names_file os root es f}"
  using assms
proof (induction es arbitrary: st acc)
  case (Cons en es)
  then obtain ds fs where v: "visit os root en = Inr (ds, fs)"
    and rest: "visit_all os root es (ds @ st) (acc @ fs) = Inr (st', acc')"
    by (auto simp: res_then_Inr)
  have en: "set ds = {d. names_dir os root [en] d}" "set fs = {f. names_file os root [en] f}"
    using visit_names [OF v] by auto
  obtain ds' where ds': "st' = ds' @ ds @ st" "set ds' = {d. names_dir os root es d}"
    using Cons.IH [OF rest] by blast
  have "st' = (ds' @ ds) @ st" "set (ds' @ ds) = {d. names_dir os root (en # es) d}"
    using ds' en by (auto simp: names_Cons(1) [of os root en es])
  moreover have "set acc' = set acc \<union> {f. names_file os root (en # es) f}"
    using Cons.IH [OF rest] en by (auto simp: names_Cons(2) [of os root en es])
  ultimately show ?case by blast
qed auto

lemma visit_all_error:
  assumes "visit_all os root es st acc = Inl e"
  shows "\<exists>en \<in> set es. en = Inl e \<or> (\<exists>ent. en = Inr ent \<and> ent_type ent = Inl e)"
  using assms
proof (induction es arbitrary: st acc)
  case (Cons en es)
  show ?case
  proof (cases "visit os root en")
    case (Inl e')
    then have "e' = e" using Cons.prems by simp
    with Inl show ?thesis
      by (auto simp: visit_def res_then_def split: sum.splits if_splits option.splits)
  next
    case (Inr v)
    with Cons show ?thesis by (cases v) auto
  qed
qed simp

lemma found_step: "so_read_dir os d = Inr es \<Longrightarrow>
    found os root d = {f. names_file os root es f} \<union> (\<Union>d' \<in> {d'. names_dir os root es d'}. found os root d')"
  unfolding found_def by (subst walked_iff) (auto simp: subdir_def)

lemma found_unreadable: "so_read_dir os d = Inl e \<Longrightarrow> found os root d = {}"
  unfolding found_def by (subst walked_iff) (auto simp: subdir_def)

lemma unreadable_below: "subdir os root d d' \<Longrightarrow> unreadable os root d' e \<Longrightarrow> unreadable os root d e"
  unfolding unreadable_def using walked.below by blast

definition walk_post :: "scan_os \<Rightarrow> path \<Rightarrow> path list \<Rightarrow> (path \<times> string) list \<Rightarrow> io_err + (path \<times> string) list \<Rightarrow> bool" where
  "walk_post os root st acc r \<longleftrightarrow> (case r of
     Inr files \<Rightarrow> set files = set acc \<union> (\<Union>d \<in> set st. found os root d)
   | Inl e \<Rightarrow> \<exists>d \<in> set st. unreadable os root d e)"

lemma walk_post_dir:
  assumes "so_read_dir os d = Inr es" and ds: "set ds = {d'. names_dir os root es d'}"
    and acc': "set acc' = set acc \<union> {f. names_file os root es f}" and post: "walk_post os root (ds @ rest) acc' r"
  shows "walk_post os root (d # rest) acc r"
proof (cases r)
  case (Inl e)
  with post obtain d' where d': "d' \<in> set (ds @ rest)" "unreadable os root d' e"
    by (auto simp: walk_post_def)
  have "subdir os root d d'" if "d' \<in> set ds" using that ds assms(1) by (auto simp: subdir_def)
  then show ?thesis
    using d' unreadable_below Inl unfolding walk_post_def by fastforce
next
  case (Inr files)
  have "found os root d = {f. names_file os root es f} \<union> (\<Union>d' \<in> set ds. found os root d')"
    using found_step [OF assms(1)] ds by simp
  then have "set acc' \<union> (\<Union>d' \<in> set (ds @ rest). found os root d') =
      set acc \<union> (\<Union>d' \<in> set (d # rest). found os root d')"
    using acc' by auto
  then show ?thesis using post Inr by (simp add: walk_post_def)
qed

text \<open>On a well-founded directory structure the walk ends, with everything below its stack.\<close>

lemma walk_returns:
  assumes "wf {(d', d). subdir os root d d'}"
  shows "\<exists>r. walk os root st acc = Some r \<and> walk_post os root st acc r"
proof (induction "mset st" arbitrary: st acc rule: wf_induct_rule [OF wf_mult [OF assms]])
  case (1 st)
  show ?case
  proof (cases st)
    case Nil
    then show ?thesis by (subst walk.simps) (simp add: walk_post_def)
  next
    case (Cons d rest)
    show ?thesis
    proof (cases "so_read_dir os d")
      case (Inl e)
      have "(mset rest, mset st) \<in> mult {(d', d). subdir os root d d'}"
        using Cons one_step_implies_mult [of "{#d#}" "{#}" _ "mset rest"] by simp
      from 1 [OF this, of acc] obtain r where "walk os root rest acc = Some r" "walk_post os root rest acc r"
        by blast
      then show ?thesis
        using Cons Inl found_unreadable [OF Inl]
        by (subst walk.simps) (auto simp: walk_post_def split: sum.splits)
    next
      case (Inr es)
      show ?thesis
      proof (cases "visit_all os root es rest acc")
        case (Inl e)
        then have "unreadable os root d e"
          using visit_all_error [OF Inl] Inr walked.here unfolding unreadable_def by blast
        then show ?thesis
          using Cons Inr Inl by (subst walk.simps) (auto simp: walk_post_def)
      next
        case v: (Inr v)
        obtain ds acc' where v': "v = (ds @ rest, acc')" "set ds = {d'. names_dir os root es d'}"
          "set acc' = set acc \<union> {f. names_file os root es f}"
          using visit_all_names [of os root es rest acc] v by (cases v) auto
        have "(mset (ds @ rest), mset st) \<in> mult {(d', d). subdir os root d d'}"
          using Cons v'(2) Inr one_step_implies_mult [of "{#d#}" "mset ds" "{(d', d). subdir os root d d'}" "mset rest"]
          by (auto simp: subdir_def add.commute)
        from 1 [OF this, of acc'] obtain r where r: "walk os root (ds @ rest) acc' = Some r"
          "walk_post os root (ds @ rest) acc' r" by blast
        from walk_post_dir [OF Inr v'(2,3) r(2)] have "walk_post os root st acc r" using Cons by simp
        then show ?thesis
          using r(1) Cons Inr v v' by (subst walk.simps) simp
      qed
    qed
  qed
qed

text \<open>C17. The walk of the cache directory ends on every directory structure without cycles and finds exactly
  the regular files that are reachable from the root by directories, none through a symbolic link and none
  whose canonical path leaves the root; each is reported with its path relative to the root. It fails
  only when an entry of a directory that was opened cannot be read, while a directory that cannot be
  opened is skipped.\<close>

theorem collect_files_exact:
  assumes "so_canonicalize os cache_root = Inr root" and "wf {(d', d). subdir os root d d'}"
  shows "\<exists>r. collect_files os cache_root = Some r \<and>
    (case r of Inr files \<Rightarrow> set files = found os root root | Inl e \<Rightarrow> unreadable os root root e)"
  using walk_returns [OF assms(2), of "[root]" "[]"] assms(1)
  by (auto simp: collect_files_def walk_post_def split: sum.splits)

text \<open>A root with a subdirectory holding one file, and a link that leads out of it.\<close>

definition toy_dir :: "path \<Rightarrow> io_err + (io_err + dirent) list" where
  "toy_dir d =
     (if d = ''/c'' then Inr [Inr \<lparr>ent_path = ''/c/d'', ent_type = Inr FDir\<rparr>, Inr \<lparr>ent_path = ''/c/l'', ent_type = Inr FSymlink\<rparr>]
      else if d = ''/c/d'' then Inr [Inr \<lparr>ent_path = ''/c/d/f'', ent_type = Inr FFile\<rparr>]
      else Inl NotFound)"

definition toy_os :: scan_os where
  "toy_os = \<lparr>so_exists = (\<lambda>_. True), so_canonicalize = Inr, so_read_dir = toy_dir,
     so_lstat = (\<lambda>_. Inr (FFile, Inr 5000000))\<rparr>"

lemma toy_path_strip [simp]:
  "path_strip ''/c/d'' ''/c'' = Some ''d''" "path_strip ''/c/d/f'' ''/c'' = Some ''d/f''"
  by (simp_all add: path_strip_def strip_prefix_def starts_with_def slash_def)

lemma toy_subdir: "subdir toy_os ''/c'' d d' \<longleftrightarrow> d = ''/c'' \<and> d' = ''/c/d''"
  by (auto simp: subdir_def toy_os_def toy_dir_def names_dir_def path_starts_with_def split: if_splits)

lemma toy_wf: "wf {(d', d). subdir toy_os ''/c'' d d'}"
  by (rule wf_subset [of "measure (\<lambda>d. if d = ''/c'' then 1 else 0)"]) (auto simp: toy_subdir)

theorem collect_files_exact_witness:
  "\<exists>files. collect_files toy_os ''/c'' = Some (Inr files) \<and> set files = {(''/c/d/f'', ''/d/f'')}"
proof -
  have walked: "walked toy_os ''/c'' ''/c'' d \<longleftrightarrow> d = ''/c'' \<or> d = ''/c/d''" for d
    by (subst walked_iff, subst walked_iff) (auto simp: toy_subdir)
  have lossy: "from_utf8_lossy ''d/f'' = ''d/f''"
    by (rule valid_utf8_lossy) (simp add: valid_utf8_ascii)
  have "\<not> unreadable toy_os ''/c'' ''/c'' e" for e
    by (auto simp: unreadable_def walked toy_os_def toy_dir_def)
  moreover have "names_file toy_os ''/c'' [Inr \<lparr>ent_path = ''/c/d/f'', ent_type = Inr FFile\<rparr>] f \<longleftrightarrow> f = (''/c/d/f'', ''/d/f'')"
    and "\<not> names_file toy_os ''/c'' [Inr \<lparr>ent_path = ''/c/d'', ent_type = Inr FDir\<rparr>, Inr \<lparr>ent_path = ''/c/l'', ent_type = Inr FSymlink\<rparr>] f"
    for f by (cases f, auto simp: toy_os_def names_file_def remote_of_def lossy slash_def)
  then have "f \<in> found toy_os ''/c'' ''/c'' \<longleftrightarrow> f = (''/c/d/f'', ''/d/f'')" for f
    unfolding found_def walked by (simp add: toy_os_def toy_dir_def conj_disj_distribR ex_disj_distrib)
  then have "found toy_os ''/c'' ''/c'' = {(''/c/d/f'', ''/d/f'')}" by blast
  moreover obtain r where "collect_files toy_os ''/c'' = Some r"
    "case r of Inr files \<Rightarrow> set files = found toy_os ''/c'' ''/c'' | Inl e \<Rightarrow> unreadable toy_os ''/c'' ''/c'' e"
    using collect_files_exact [OF _ toy_wf, of "''/c''"] by (auto simp: toy_os_def)
  ultimately show ?thesis by (cases r) auto
qed

section \<open>What is sent again\<close>

definition replay_request :: "nat \<Rightarrow> path \<Rightarrow> path \<Rightarrow> json" where
  "replay_request n cp rp = verb ''hydration.open_write''
     [(''handle_id'', ''recovery-'' @ fmt_nat n), (''path'', rp), (''cache_path'', from_utf8_lossy cp)]"

lemma last_synced_returns [returns_rules]: "returns (last_synced x p)"
  unfolding last_synced_def by (intro returns_rules)

lemma last_synced_extends:
  assumes "last_synced x p c = Some (r, c')"
  shows "\<exists>js. issued c' = issued c @ js"
proof -
  have "\<exists>q. round_trip x (verb ''hydration.last_synced'' [(''path'', p)]) c = Some (q, c')"
    using assms unfolding last_synced_def andthen_Some by (auto simp: throw_def ok_or_Some split: if_splits)
  then show ?thesis using round_trip_issued by blast
qed

lemma open_write_issued:
  "open_write x h p cp c = Some (r, c') \<Longrightarrow> issued c' = issued c @
     (if fits_cap x (verb ''hydration.open_write'' [(''handle_id'', h), (''path'', p), (''cache_path'', cp)])
      then [verb ''hydration.open_write'' [(''handle_id'', h), (''path'', p), (''cache_path'', cp)]] else [])"
  unfolding open_write_def by (erule checked_call_issued) (rule silent_field_str)

text \<open>One file, and the rest of the list.\<close>

lemma replay_asked:
  assumes "mtime_ms os cp root = Inr m" and "last_synced x rp c = Some (ans, c1)"
  shows "replay x os root ((cp, rp) # fs) n k c =
    (case ans of
       Inr w \<Rightarrow>
         if m < w then replay x os root fs n k c1
         else Option.bind (open_write x (''recovery-'' @ fmt_nat (n + 1)) rp (from_utf8_lossy cp) c1) (\<lambda>(q, c2).
           replay x os root fs (n + 1) (case q of Inl _ \<Rightarrow> k | Inr _ \<Rightarrow> k + 1) c2)
     | Inl _ \<Rightarrow> replay x os root fs n k c1)"
  using assms by (auto simp: andthen_def attempt_def split: sum.splits Option.bind_splits)

text \<open>The counters and the connection after some files are dealt with.\<close>

inductive becomes :: "ext \<Rightarrow> scan_os \<Rightarrow> path \<Rightarrow> (path \<times> string) list \<Rightarrow> nat \<times> nat \<times> conn \<Rightarrow> nat \<times> nat \<times> conn \<Rightarrow> bool"
  for x os root where
  none: "becomes x os root [] s s"
| unreadable_time: "mtime_ms os cp root = Inl e \<Longrightarrow> becomes x os root fs s t \<Longrightarrow> becomes x os root ((cp, rp) # fs) s t"
| unknown: "mtime_ms os cp root = Inr m \<Longrightarrow> last_synced x rp c = Some (Inl e, c1) \<Longrightarrow>
    becomes x os root fs (n, k, c1) t \<Longrightarrow> becomes x os root ((cp, rp) # fs) (n, k, c) t"
| older: "mtime_ms os cp root = Inr m \<Longrightarrow> last_synced x rp c = Some (Inr w, c1) \<Longrightarrow> m < w \<Longrightarrow>
    becomes x os root fs (n, k, c1) t \<Longrightarrow> becomes x os root ((cp, rp) # fs) (n, k, c) t"
| resent: "mtime_ms os cp root = Inr m \<Longrightarrow> last_synced x rp c = Some (Inr w, c1) \<Longrightarrow> w \<le> m \<Longrightarrow>
    open_write x (''recovery-'' @ fmt_nat (n + 1)) rp (from_utf8_lossy cp) c1 = Some (q, c2) \<Longrightarrow>
    becomes x os root fs (n + 1, case q of Inl _ \<Rightarrow> k | Inr _ \<Rightarrow> k + 1, c2) t \<Longrightarrow>
    becomes x os root ((cp, rp) # fs) (n, k, c) t"

inductive_cases becomes_none: "becomes x os root [] s t"

lemma becomes_replay:
  assumes "becomes x os root files s t"
  shows "replay x os root (files @ fs) (fst s) (fst (snd s)) (snd (snd s)) =
    replay x os root fs (fst t) (fst (snd t)) (snd (snd t))"
  using assms
proof (induction rule: becomes.induct)
  case (unknown cp m rp c e c1 gs n k t)
  then show ?case by (simp add: replay_asked del: replay.simps)
next
  case (older cp m rp c w c1 gs n k t)
  then show ?case by (simp add: replay_asked del: replay.simps)
next
  case (resent cp m rp c w c1 n q c2 gs k t)
  then show ?case by (simp add: replay_asked del: replay.simps)
qed simp_all

lemma becomes_issued: "becomes x os root files s t \<Longrightarrow> \<exists>js. issued (snd (snd t)) = issued (snd (snd s)) @ js"
proof (induction rule: becomes.induct)
  case (resent cp m rp c w c1 n q c2 gs k t)
  then show ?case
    using last_synced_extends [OF resent(2)] open_write_issued [OF resent(4)] by fastforce
qed (auto dest!: last_synced_extends)

lemma becomes_files: "\<exists>t. becomes x os root files s t"
proof (induction files arbitrary: s)
  case Nil
  show ?case by (rule exI) (rule becomes.none)
next
  case (Cons f files)
  obtain cp rp n k c where fs: "f = (cp, rp)" "s = (n, k, c)" by (cases f, cases s)
  obtain ans c1 where asked: "last_synced x rp c = Some (ans, c1)"
    by (rule returns_obtain [OF last_synced_returns])
  obtain q c2 where wrote: "open_write x (''recovery-'' @ fmt_nat (n + 1)) rp (from_utf8_lossy cp) c1 = Some (q, c2)"
    by (rule returns_obtain [OF verbs_return(2)])
  show ?case
  proof (cases "mtime_ms os cp root")
    case (Inl e)
    then show ?thesis using Cons.IH [of s] fs becomes.unreadable_time by blast
  next
    case (Inr m)
    show ?thesis
    proof (cases ans)
      case (Inl e)
      then show ?thesis using Cons.IH fs asked becomes.unknown [OF Inr] by blast
    next
      case w: (Inr w)
      show ?thesis
      proof (cases "m < w")
        case True
        then show ?thesis using Cons.IH fs asked w becomes.older [OF Inr] by blast
      next
        case False
        then have "w \<le> m" by simp
        then show ?thesis using Cons.IH fs asked w wrote becomes.resent [OF Inr] by blast
      qed
    qed
  qed
qed

lemma replay_runs: "\<exists>k' c' js. replay x os root fs n k c = Some (Inr k', c') \<and> issued c' = issued c @ js"
proof -
  obtain t where t: "becomes x os root fs (n, k, c) t" using becomes_files by blast
  with becomes_replay [OF t, of "[]"] becomes_issued [OF t] show ?thesis by (simp add: ret_def)
qed



end
