(* ===== verification/TextParse.thy ===== *)
theory TextParse
  imports Utf8
begin

text \<open>
  Splitting and number parsing of Rust's \<^verbatim>\<open>str\<close>: \<^verbatim>\<open>split\<close> on a character, \<^verbatim>\<open>lines\<close>, and \<^verbatim>\<open>parse\<close> of an
  unsigned integer (an optional plus sign, decimal digits, no overflow).
\<close>

fun split_on :: "char \<Rightarrow> string \<Rightarrow> string list" where
  "split_on c [] = [[]]"
| "split_on c (x # xs) = (if x = c then [] # split_on c xs else (x # hd (split_on c xs)) # tl (split_on c xs))"

definition text_lines :: "string \<Rightarrow> string list" where
  "text_lines s =
     (let ps = split_on (CHR 0x0A) s;
          ls = (if last ps = [] then butlast ps else ps)
      in map (\<lambda>l. case strip_suffix l [CHR 0x0D] of Some b \<Rightarrow> b | None \<Rightarrow> l) ls)"

definition is_digit :: "char \<Rightarrow> bool" where
  "is_digit c \<longleftrightarrow> 48 \<le> byte c \<and> byte c < 58"

definition decimal :: "string \<Rightarrow> nat" where
  "decimal s = foldl (\<lambda>n c. 10 * n + (byte c - 48)) 0 s"

definition parse_unsigned :: "nat \<Rightarrow> string \<Rightarrow> nat option" where
  "parse_unsigned w s =
     (let ds = (case s of [] \<Rightarrow> [] | c # cs \<Rightarrow> if c = CHR ''+'' then cs else s)
      in if ds \<noteq> [] \<and> list_all is_digit ds \<and> decimal ds < 2 ^ w then Some (decimal ds) else None)"

lemma split_on_not_Nil [simp]: "split_on c s \<noteq> []"
  by (cases s) simp_all

lemma split_on_append: "c \<notin> set s \<Longrightarrow> split_on c (s @ c # t) = s # split_on c t"
  by (induction s) auto

lemma split_on_none: "c \<notin> set s \<Longrightarrow> split_on c s = [s]"
  by (induction s) auto

lemma split_on_hd: "hd (split_on c s) = takeWhile (\<lambda>x. x \<noteq> c) s"
  by (induction s) auto

lemma byte_digit_char [simp]: "d < 10 \<Longrightarrow> byte (digit_char d) = 48 + d"
  by (simp add: take_bit_eq_mod)

declare digit_char.simps [simp del]

lemma is_digit_char [simp]: "d < 10 \<Longrightarrow> is_digit (digit_char d)"
  by (simp add: is_digit_def)

lemma fmt_nat_all_digits: "list_all is_digit (fmt_nat n)"
  using fmt_nat_digits [of n] by (auto simp: list_all_iff)

lemma decimal_fmt_nat [simp]: "decimal (fmt_nat n) = n"
proof (induction n rule: fmt_nat.induct)
  case (1 n)
  show ?case
  proof (cases "n < 10")
    case True
    then show ?thesis by (subst fmt_nat.simps) (simp add: decimal_def)
  next
    case False
    with 1 show ?thesis by (subst fmt_nat.simps) (simp add: decimal_def)
  qed
qed

lemma parse_fmt_nat: "n < 2 ^ w \<Longrightarrow> parse_unsigned w (fmt_nat n) = Some n"
proof -
  assume "n < 2 ^ w"
  moreover obtain c cs where n: "fmt_nat n = c # cs" using fmt_nat_nonempty by (meson list.exhaust)
  moreover have "c \<noteq> CHR ''+''"
    using fmt_nat_all_digits [of n] n by (auto simp: is_digit_def)
  moreover have "decimal (c # cs) = n" "list_all is_digit (c # cs)"
    using decimal_fmt_nat fmt_nat_all_digits n by metis+
  ultimately show ?thesis by (simp add: parse_unsigned_def)
qed

lemma fmt_nat_no_sep: "\<not> is_digit c \<Longrightarrow> c \<notin> set (fmt_nat n)"
  using fmt_nat_all_digits [of n] by (auto simp: list_all_iff)

end
