(* ===== verification/Version.thy ===== *)
theory Version
  imports TextParse
begin

text \<open>
  Model of \<^verbatim>\<open>mount/src/version.rs\<close> and of \<^verbatim>\<open>mount/build.rs\<close>, which hands the state of the git checkout
  to it. What git prints is a parameter: \<open>git args\<close> is the standard output, or None when the command
  cannot be run or fails.
\<close>

section \<open>The build script\<close>

type_synonym git = "string list \<Rightarrow> string option"

definition run_git :: "git \<Rightarrow> string list \<Rightarrow> string option" where
  "run_git git args = map_option (\<lambda>stdout. trim (from_utf8_lossy stdout)) (git args)"

definition numstat_differs :: "string \<Rightarrow> bool" where
  "numstat_differs line =
     (case split_on (CHR 0x09) line of
        added # deleted # _ \<Rightarrow>
          added = ''-'' \<or> deleted = ''-'' \<or> (case parse_unsigned 64 added of Some n \<Rightarrow> n | None \<Rightarrow> 0) > 0 \<or>
          (case parse_unsigned 64 deleted of Some n \<Rightarrow> n | None \<Rightarrow> 0) > 0
      | _ \<Rightarrow> False)"

definition content_differs_from_head :: "git \<Rightarrow> bool" where
  "content_differs_from_head git =
     (case run_git git [''diff'', ''HEAD'', ''--numstat''] of
        None \<Rightarrow> False
      | Some numstat \<Rightarrow> list_ex numstat_differs (text_lines numstat))"

definition has_untracked_files :: "git \<Rightarrow> bool" where
  "has_untracked_files git =
     (case run_git git [''status'', ''--porcelain'', ''--untracked-files=normal''] of
        None \<Rightarrow> False
      | Some status \<Rightarrow> list_ex (\<lambda>line. starts_with line ''??'') (text_lines status))"

definition names_release :: "string \<Rightarrow> string \<Rightarrow> bool" where
  "names_release tag version =
     (let tag = (case strip_prefix tag ''v'' of Some t \<Rightarrow> t | None \<Rightarrow> tag)
      in case strip_prefix tag version of
           None \<Rightarrow> False
         | Some rest \<Rightarrow>
             (case strip_prefix rest ''-pkg'' of
                Some n \<Rightarrow> n \<noteq> [] \<and> list_all is_digit n
              | None \<Rightarrow> rest = []))"

record build_env =
  be_commit :: string
  be_dirty :: bool
  be_tagged :: bool

definition build_main :: "git \<Rightarrow> string \<Rightarrow> build_env" where
  "build_main git version =
     (let commit = (case run_git git [''rev-parse'', ''--short'', ''HEAD''] of
                      Some c \<Rightarrow> if c \<noteq> [] then Some c else None
                    | None \<Rightarrow> None);
          dirty = (commit \<noteq> None \<and> (content_differs_from_head git \<or> has_untracked_files git));
          tagged = (commit \<noteq> None \<and> \<not> dirty \<and>
            (case run_git git [''tag'', ''--points-at'', ''HEAD''] of
               None \<Rightarrow> False
             | Some tags \<Rightarrow> list_ex (\<lambda>t. names_release t version) (text_lines tags)))
      in \<lparr>be_commit = (case commit of Some c \<Rightarrow> c | None \<Rightarrow> ''dev''), be_dirty = dirty, be_tagged = tagged\<rparr>)"

text \<open>What the script prints for cargo: the three variables, and the files whose change runs it again;
  \<open>exists\<close> is the file system.\<close>

definition show_bool :: "bool \<Rightarrow> string" where
  "show_bool b = (if b then ''true'' else ''false'')"

definition watch :: "(string \<Rightarrow> bool) \<Rightarrow> string \<Rightarrow> string list" where
  "watch exists path = (if exists path then [''cargo:rerun-if-changed='' @ path] else [])"

definition build_directives :: "git \<Rightarrow> (string \<Rightarrow> bool) \<Rightarrow> string \<Rightarrow> string list" where
  "build_directives git exists version =
     (let b = build_main git version
      in [''cargo:rustc-env=UNIDRIVE_MOUNT_COMMIT='' @ be_commit b,
          ''cargo:rustc-env=UNIDRIVE_MOUNT_DIRTY='' @ show_bool (be_dirty b),
          ''cargo:rustc-env=UNIDRIVE_MOUNT_TAGGED='' @ show_bool (be_tagged b),
          ''cargo:rerun-if-changed=build.rs'',
          ''cargo:rerun-if-changed=Cargo.toml'',
          ''cargo:rerun-if-changed=src''] @
         (case run_git git [''rev-parse'', ''--git-dir''] of
            Some dir \<Rightarrow> watch exists (dir @ ''/HEAD'') @ watch exists (dir @ ''/index'')
          | None \<Rightarrow> []) @
         (case run_git git [''rev-parse'', ''--git-common-dir''] of
            Some dir \<Rightarrow> watch exists (dir @ ''/refs'') @ watch exists (dir @ ''/packed-refs'')
          | None \<Rightarrow> []))"

section \<open>The version string\<close>

definition compose :: "string \<Rightarrow> string \<Rightarrow> bool \<Rightarrow> bool \<Rightarrow> string" where
  "compose version commit dirty tagged =
     (if tagged then version
      else if dirty then version @ ''+'' @ commit @ ''.dirty''
      else version @ ''+'' @ commit)"

definition version_string :: "string \<Rightarrow> build_env \<Rightarrow> string" where
  "version_string version b = compose version (be_commit b) (be_dirty b) (be_tagged b)"

section \<open>What a bare version means\<close>

text \<open>A tag names the release when it is the version with an optional leading v and an optional packaging
  revision.\<close>

definition release_tag :: "string \<Rightarrow> string \<Rightarrow> bool" where
  "release_tag tag version \<longleftrightarrow> (\<exists>v pkg. tag = v @ version @ pkg \<and> v \<in> {[], ''v''} \<and>
     (pkg = [] \<or> (\<exists>n. pkg = ''-pkg'' @ n \<and> n \<noteq> [] \<and> list_all is_digit n)))"

lemma release_suffix:
  "(case strip_prefix rest ''-pkg'' of Some n \<Rightarrow> n \<noteq> [] \<and> list_all is_digit n | None \<Rightarrow> rest = []) \<longleftrightarrow>
     rest = [] \<or> (\<exists>n. rest = ''-pkg'' @ n \<and> n \<noteq> [] \<and> list_all is_digit n)"
proof (cases "strip_prefix rest ''-pkg''")
  case None
  then have "rest \<noteq> ''-pkg'' @ n" for n using strip_prefix_Some [of rest "''-pkg''" n] by auto
  with None show ?thesis by auto
next
  case (Some n)
  then have "rest = ''-pkg'' @ n" by (simp only: strip_prefix_Some)
  with Some show ?thesis by auto
qed

lemma names_release_iff:
  assumes "version \<noteq> []" and "hd version \<noteq> CHR ''v''"
  shows "names_release tag version \<longleftrightarrow> release_tag tag version"
proof -
  define body where "body = (case strip_prefix tag ''v'' of Some t \<Rightarrow> t | None \<Rightarrow> tag)"
  have body_eq: "body = version @ pkg \<longleftrightarrow> (\<exists>v. tag = v @ version @ pkg \<and> v \<in> {[], ''v''})" for pkg
  proof (cases "strip_prefix tag ''v''")
    case None
    then have "tag \<noteq> CHR ''v'' # t" for t using strip_prefix_Some [of tag "''v''" t] by auto
    with None show ?thesis by (auto simp: body_def) blast
  next
    case (Some t)
    then have t: "tag = CHR ''v'' # t" using strip_prefix_Some [of tag "''v''" t] by simp
    with assms have "tag \<noteq> version @ pkg" by (cases version) auto
    with Some t show ?thesis by (auto simp: body_def)
  qed
  have "names_release tag version \<longleftrightarrow> (\<exists>rest. body = version @ rest \<and>
      (rest = [] \<or> (\<exists>n. rest = ''-pkg'' @ n \<and> n \<noteq> [] \<and> list_all is_digit n)))"
    unfolding names_release_def Let_def body_def [symmetric] release_suffix
    using strip_prefix_Some [of body version] by (cases "strip_prefix body version") (auto simp: release_suffix)
  then show ?thesis unfolding body_eq release_tag_def by blast
qed

lemma compose_bare: "compose version commit dirty tagged = version \<longleftrightarrow> tagged"
  by (simp add: compose_def)

text \<open>The version is printed bare exactly for a clean checkout of a commit that carries a release tag.\<close>

lemma version_bare_iff:
  assumes "version \<noteq> []" and "hd version \<noteq> CHR ''v''"
  shows "version_string version (build_main git version) = version \<longleftrightarrow>
    (\<exists>c. run_git git [''rev-parse'', ''--short'', ''HEAD''] = Some c \<and> c \<noteq> []) \<and>
    \<not> content_differs_from_head git \<and> \<not> has_untracked_files git \<and>
    (\<exists>tags t. run_git git [''tag'', ''--points-at'', ''HEAD''] = Some tags \<and> t \<in> set (text_lines tags) \<and>
       release_tag t version)"
  by (auto simp: version_string_def compose_bare build_main_def Let_def list_ex_iff names_release_iff [OF assms]
      split: option.splits)

end
