(* ===== verification/Cli.thy ===== *)
theory Cli
  imports IpcAuth Version
begin

text \<open>
  Model of \<^verbatim>\<open>mount/src/cli.rs\<close>: the command line. The environment variables are a parameter
  (\<open>env\<close>), and so are the facts about the build that \<^verbatim>\<open>--version\<close> prints.
\<close>

definition USAGE :: string where
  "USAGE = concat (map (\<lambda>l. l @ [CHR 0x0A])
    [''Usage: unidrive-mount --mount <path> --ipc <socket> [--cache <path>] [--lock <path>]'',
     ''                       [--ipc-token-file <path> --profile <name>]'',
     ''       unidrive-mount --version'',
     '''',
     ''Options:'',
     ''  --mount <path>   Filesystem mount point (an existing empty directory).'',
     ''  --ipc <socket>   Unix-domain-socket path to the unidrive JVM IpcServer.'',
     ''  --cache <path>   LocalCache root for crash-recovery scan at startup.'',
     ''                   Defaults to $XDG_CACHE_HOME/unidrive/hydration, or'',
     ''                   $HOME/.cache/unidrive/hydration if XDG_CACHE_HOME unset.'',
     ''  --lock <path>    Per-profile lock file. When supplied, the co-daemon'',
     ''                   acquires its own flock(2) on this path for the session,'',
     ''                   closing the kill -9 race with the JVM-side ProcessLock.'',
     ''  --ipc-token-file <path>'',
     ''                   The profile'' @ [CHR 0x27] @ ''s IPC token file (ipc.token, scope full).'',
     ''                   Read again on every connect; every connection runs'',
     ''                   the IPC protocol-2 handshake with it. Requires --profile.'',
     ''  --profile <name> Profile name exactly as in config.toml (part of the'',
     ''                   handshake proof).'',
     ''  --version        Print the version and the IPC protocol, then exit.'',
     ''  --help           Show this message and exit.''])"

record cli =
  cli_mount :: path
  cli_ipc :: path
  cli_cache :: path
  cli_lock :: "path option"
  cli_ipc_token_file :: "path option"
  cli_profile :: "string option"

datatype cli_error = Usage string | Help string | VersionText string

type_synonym env = "string \<Rightarrow> string option"

definition default_cache_root :: "env \<Rightarrow> path" where
  "default_cache_root env =
     (case env ''XDG_CACHE_HOME'' of
        Some x \<Rightarrow> path_join (path_join x ''unidrive'') ''hydration''
      | None \<Rightarrow>
          (case env ''HOME'' of
             Some h \<Rightarrow> path_join (path_join (path_join h ''.cache'') ''unidrive'') ''hydration''
           | None \<Rightarrow> ''.cache/unidrive/hydration''))"

text \<open>The variables of the loop.\<close>

record cli_opts =
  o_mount :: "path option"
  o_ipc :: "path option"
  o_cache :: "path option"
  o_lock :: "path option"
  o_token_file :: "path option"
  o_profile :: "string option"

definition no_opts :: cli_opts where
  "no_opts = \<lparr>o_mount = None, o_ipc = None, o_cache = None, o_lock = None, o_token_file = None, o_profile = None\<rparr>"

definition set_opt :: "string \<Rightarrow> (string \<Rightarrow> cli_opts \<Rightarrow> cli_opts) option" where
  "set_opt arg =
     (if arg = ''--mount'' then Some (\<lambda>v. o_mount_update (\<lambda>_. Some v))
      else if arg = ''--ipc'' then Some (\<lambda>v. o_ipc_update (\<lambda>_. Some v))
      else if arg = ''--cache'' then Some (\<lambda>v. o_cache_update (\<lambda>_. Some v))
      else if arg = ''--lock'' then Some (\<lambda>v. o_lock_update (\<lambda>_. Some v))
      else if arg = ''--ipc-token-file'' then Some (\<lambda>v. o_token_file_update (\<lambda>_. Some v))
      else if arg = ''--profile'' then Some (\<lambda>v. o_profile_update (\<lambda>_. Some v))
      else None)"

fun parse_loop :: "string \<Rightarrow> string list \<Rightarrow> cli_opts \<Rightarrow> cli_error + cli_opts" where
  "parse_loop version [] opts = Inr opts"
| "parse_loop version (arg # args) opts =
     (if arg = ''--help'' \<or> arg = ''-h'' then Inl (Help USAGE)
      else if arg = ''--version'' then
        Inl (VersionText (''unidrive-mount '' @ version @ '' ipc-protocol '' @ fmt_nat (unat PROTOCOL) @ [CHR 0x0A]))
      else case set_opt arg of
        None \<Rightarrow> Inl (Usage (''unknown argument: '' @ arg @ CHR 0x0A # USAGE))
      | Some set_value \<Rightarrow>
          (case args of
             [] \<Rightarrow> Inl (Usage (arg @ '' requires a value'' @ CHR 0x0A # USAGE))
           | v # args' \<Rightarrow> parse_loop version args' (set_value v opts)))"

text \<open>What is left to do after the loop.\<close>

definition finish :: "env \<Rightarrow> cli_opts \<Rightarrow> cli_error + cli" where
  "finish env opts =
     res_then (res_or (Usage (''missing required --mount'' @ CHR 0x0A # USAGE)) (o_mount opts)) (\<lambda>mount.
     res_then (res_or (Usage (''missing required --ipc'' @ CHR 0x0A # USAGE)) (o_ipc opts)) (\<lambda>ipc.
       if o_token_file opts \<noteq> None \<and> o_profile opts = None
       then Inl (Usage (''--ipc-token-file requires --profile'' @ CHR 0x0A # USAGE))
       else Inr \<lparr>cli_mount = mount, cli_ipc = ipc,
              cli_cache = (case o_cache opts of Some c \<Rightarrow> c | None \<Rightarrow> default_cache_root env),
              cli_lock = o_lock opts, cli_ipc_token_file = o_token_file opts, cli_profile = o_profile opts\<rparr>))"

definition parse_args :: "env \<Rightarrow> string \<Rightarrow> string list \<Rightarrow> cli_error + cli" where
  "parse_args env version argv = res_then (parse_loop version (drop 1 argv) no_opts) (finish env)"

section \<open>Which command lines are accepted\<close>

text \<open>The value of an option: that of its last occurrence.\<close>

definition value_of :: "string \<Rightarrow> (string \<times> string) list \<Rightarrow> string option" where
  "value_of name settings = map_of (rev settings) name"

definition settable :: "string list" where
  "settable = [''--mount'', ''--ipc'', ''--cache'', ''--lock'', ''--ipc-token-file'', ''--profile'']"

definition words :: "(string \<times> string) list \<Rightarrow> string list" where
  "words settings = concat (map (\<lambda>(n, v). [n, v]) settings)"

definition opts_of :: "(string \<times> string) list \<Rightarrow> cli_opts" where
  "opts_of settings = \<lparr>o_mount = value_of ''--mount'' settings, o_ipc = value_of ''--ipc'' settings,
     o_cache = value_of ''--cache'' settings, o_lock = value_of ''--lock'' settings,
     o_token_file = value_of ''--ipc-token-file'' settings, o_profile = value_of ''--profile'' settings\<rparr>"

lemma value_of_snoc [simp]: "value_of n (settings @ [(m, v)]) = (if n = m then Some v else value_of n settings)"
  by (simp add: value_of_def)

lemma set_opt_settable: "n \<in> set settable \<Longrightarrow> \<exists>f. set_opt n = Some f \<and> (\<forall>v s. f v (opts_of s) = opts_of (s @ [(n, v)]))"
  by (auto simp: settable_def set_opt_def opts_of_def)

lemma set_opt_None: "n \<notin> set settable \<Longrightarrow> set_opt n = None"
  by (auto simp: settable_def set_opt_def)

lemma parse_loop_words:
  "fst ` set settings \<subseteq> set settable \<Longrightarrow>
     parse_loop version (words settings) (opts_of s) = Inr (opts_of (s @ settings))"
proof (induction settings arbitrary: s)
  case (Cons p settings)
  obtain n v where p: "p = (n, v)" by (cases p)
  with Cons.prems have n: "n \<in> set settable" by simp
  then obtain f where "set_opt n = Some f" "f v (opts_of s) = opts_of (s @ [(n, v)])"
    using set_opt_settable by blast
  moreover have "n \<noteq> ''--help''" "n \<noteq> ''-h''" "n \<noteq> ''--version''" using n by (auto simp: settable_def)
  ultimately show ?case
    using Cons.IH [of "s @ [(n, v)]"] Cons.prems p by (simp add: words_def)
qed (simp add: words_def)

lemma parse_loop_Inr:
  "parse_loop version args opts = Inr opts' \<Longrightarrow> \<exists>settings. args = words settings \<and> fst ` set settings \<subseteq> set settable"
proof (induction version args opts rule: parse_loop.induct)
  case (1 version opts)
  show ?case by (intro exI [of _ "[]"]) (simp add: words_def)
next
  case (2 version arg args opts)
  then obtain f v args' where f: "set_opt arg = Some f" "args = v # args'"
    and rest: "parse_loop version args' (f v opts) = Inr opts'"
    by (auto split: if_splits option.splits list.splits)
  moreover have "\<not> (arg = ''--help'' \<or> arg = ''-h'')" "arg \<noteq> ''--version''" using 2(2) by (auto split: if_splits)
  ultimately obtain settings where "args' = words settings" "fst ` set settings \<subseteq> set settable"
    using 2(1) by blast
  moreover have "arg \<in> set settable" using f(1) set_opt_None by force
  ultimately show ?case using f(2) by (intro exI [of _ "(arg, v) # settings"]) (simp add: words_def)
qed

lemma finish_Inr:
  "finish env opts = Inr c \<longleftrightarrow> (\<exists>mount ipc. o_mount opts = Some mount \<and> o_ipc opts = Some ipc \<and>
     \<not> (o_token_file opts \<noteq> None \<and> o_profile opts = None) \<and>
     c = \<lparr>cli_mount = mount, cli_ipc = ipc,
          cli_cache = (case o_cache opts of Some d \<Rightarrow> d | None \<Rightarrow> default_cache_root env),
          cli_lock = o_lock opts, cli_ipc_token_file = o_token_file opts, cli_profile = o_profile opts\<rparr>)"
  by (cases "o_mount opts"; cases "o_ipc opts") (auto simp: finish_def)

text \<open>C28. The program starts with a command line exactly when it consists of known options, each followed by its
  value whatever that is, in any order, with a mount point and a socket among them and no token file without
  a profile; it then runs with the last value given for each option, the cache defaulting to the user's
  cache directory.\<close>

theorem parse_args_exact:
  "parse_args env version (program # args) = Inr c \<longleftrightarrow>
     (\<exists>settings mount ipc. args = words settings \<and> fst ` set settings \<subseteq> set settable \<and>
        value_of ''--mount'' settings = Some mount \<and> value_of ''--ipc'' settings = Some ipc \<and>
        \<not> (value_of ''--ipc-token-file'' settings \<noteq> None \<and> value_of ''--profile'' settings = None) \<and>
        c = \<lparr>cli_mount = mount, cli_ipc = ipc,
             cli_cache = (case value_of ''--cache'' settings of Some d \<Rightarrow> d | None \<Rightarrow> default_cache_root env),
             cli_lock = value_of ''--lock'' settings, cli_ipc_token_file = value_of ''--ipc-token-file'' settings,
             cli_profile = value_of ''--profile'' settings\<rparr>)"
proof -
  have start: "no_opts = opts_of []" by (simp add: no_opts_def opts_of_def value_of_def)
  have "parse_loop version args no_opts = Inr opts \<longleftrightarrow>
      (\<exists>settings. args = words settings \<and> fst ` set settings \<subseteq> set settable \<and> opts = opts_of settings)" for opts
    using parse_loop_words [of _ version "[]"] parse_loop_Inr [of version args no_opts] unfolding start by fastforce
  then have "parse_args env version (program # args) = Inr c \<longleftrightarrow>
      (\<exists>settings. args = words settings \<and> fst ` set settings \<subseteq> set settable \<and> finish env (opts_of settings) = Inr c)"
    by (auto simp: parse_args_def res_then_Inr)
  then show ?thesis unfolding finish_Inr by (simp add: opts_of_def)
qed

end
