(* ===== verification/Logging.thy ===== *)
theory Logging
  imports Cli
begin

text \<open>
  Model of \<^verbatim>\<open>mount/src/logging.rs\<close>: where the log goes. Parsing the filter of \<^verbatim>\<open>RUST_LOG\<close> belongs to the
  tracing library (\<open>filter_ok\<close>); the process-wide subscriber is the state.
\<close>

datatype sink = Stderr | LogFile path

record subscriber =
  sub_filter :: string
  sub_sink :: sink

definition is_safe_state_home_base :: "path \<Rightarrow> bool" where
  "is_safe_state_home_base p \<longleftrightarrow> starts_with p [slash] \<and> ''..'' \<notin> set (split_on slash p)"

definition state_dir :: "env \<Rightarrow> path" where
  "state_dir env =
     (let fallback = path_join (case env ''HOME'' of Some h \<Rightarrow> h | None \<Rightarrow> ''/tmp'') ''.local/state/unidrive''
      in case env ''XDG_STATE_HOME'' of
           Some xdg \<Rightarrow> if xdg \<noteq> [] \<and> is_safe_state_home_base xdg then path_join xdg ''unidrive'' else fallback
         | None \<Rightarrow> fallback)"

definition try_init :: "subscriber \<Rightarrow> subscriber option \<Rightarrow> subscriber option" where
  "try_init new global = (case global of None \<Rightarrow> Some new | Some g \<Rightarrow> Some g)"

definition init_logging ::
    "env \<Rightarrow> (string \<Rightarrow> bool) \<Rightarrow> (path \<Rightarrow> bool) \<Rightarrow> subscriber option \<Rightarrow> subscriber option" where
  "init_logging env filter_ok create_dir_all =
     (let flt = (case env ''RUST_LOG'' of Some f \<Rightarrow> if filter_ok f then f else ''info'' | None \<Rightarrow> ''info'');
          dir = state_dir env
      in if env ''JOURNAL_STREAM'' \<noteq> None then try_init \<lparr>sub_filter = flt, sub_sink = Stderr\<rparr>
         else if \<not> create_dir_all dir then try_init \<lparr>sub_filter = flt, sub_sink = Stderr\<rparr>
         else try_init \<lparr>sub_filter = flt, sub_sink = LogFile (path_join dir ''unidrive-mount.log'')\<rparr>)"

lemma try_init_idempotent: "try_init b (try_init a g) = try_init a g"
  by (cases g) (simp_all add: try_init_def)

text \<open>The first call decides: a later one, in whatever environment, changes nothing.\<close>

lemma init_logging_first_wins:
  "init_logging env2 f2 d2 (init_logging env1 f1 d1 g) = init_logging env1 f1 d1 g"
  by (simp add: init_logging_def Let_def try_init_idempotent)

lemma split_on_append_path:
  "split_on c (s @ t) = butlast (split_on c s) @ (last (split_on c s) @ hd (split_on c t)) # tl (split_on c t)"
proof (induction s)
  case (Cons x s)
  obtain a as where "split_on c s = a # as" by (meson list.exhaust split_on_not_Nil)
  with Cons show ?case by (cases as) simp_all
qed simp

text \<open>A log directory taken from the environment variable is absolute and never climbs.\<close>

lemma state_dir_xdg_safe:
  assumes "env ''XDG_STATE_HOME'' = Some xdg" and "xdg \<noteq> []" and "is_safe_state_home_base xdg"
  shows "is_safe_state_home_base (state_dir env)"
proof -
  have u: "split_on slash ''unidrive'' = [''unidrive'']" by (rule split_on_none) (simp add: slash_def)
  have xdg: "xdg \<noteq> []" "''..'' \<notin> set (split_on slash xdg)" "starts_with xdg [slash]"
    using assms by (simp_all add: is_safe_state_home_base_def)
  have "''..'' \<notin> set (split_on slash (path_join xdg ''unidrive''))"
  proof (cases "last xdg = slash")
    case True
    then have "xdg = butlast xdg @ [slash]" using xdg(1) by (metis append_butlast_last_id)
    then have "last (split_on slash xdg) = []"
      using split_on_append_path [of slash "butlast xdg" "[slash]"] by simp
    then show ?thesis
      using xdg True u split_on_append_path [of slash xdg "''unidrive''"]
      by (auto simp: path_join_def starts_with_def slash_def dest: in_set_butlastD)
  next
    case False
    have "split_on slash (xdg @ slash # ''unidrive'') = (butlast (split_on slash xdg) @ [last (split_on slash xdg)]) @ [''unidrive'']"
      using split_on_append_path [of slash xdg "slash # ''unidrive''"] u by simp
    then have "split_on slash (xdg @ slash # ''unidrive'') = split_on slash xdg @ [''unidrive'']"
      by (simp only: append_butlast_last_id [OF split_on_not_Nil])
    then show ?thesis
      using xdg False by (auto simp: path_join_def starts_with_def slash_def)
  qed
  moreover have "starts_with (path_join xdg ''unidrive'') [slash]"
    using xdg(3) by (auto simp: path_join_def starts_with_iff)
  ultimately show ?thesis
    using assms by (simp add: state_dir_def is_safe_state_home_base_def)
qed

end
