(* ===== verification/KernelFloor.thy ===== *)
theory KernelFloor
  imports TextParse LineReader
begin

text \<open>
  Model of \<^verbatim>\<open>mount/src/kernel_floor.rs\<close>: the program refuses to start on a kernel older than 6.9. The
  content of \<^verbatim>\<open>/proc/sys/kernel/osrelease\<close>, or the error of reading it, is an argument.
\<close>

datatype kernel_floor_error = TooOld string | Unparseable string | IoError io_err

definition parse_major_minor :: "string \<Rightarrow> (nat \<times> nat) option" where
  "parse_major_minor raw =
     (let prefix = hd (split_on CHR ''-'' raw);
          parts = split_on CHR ''.'' prefix
      in case parts of
           major # minor # _ \<Rightarrow>
             Option.bind (parse_unsigned 32 major) (\<lambda>major.
             Option.bind (parse_unsigned 32 minor) (\<lambda>minor. Some (major, minor)))
         | _ \<Rightarrow> None)"

definition check_kernel_floor :: "string option \<Rightarrow> io_err + string \<Rightarrow> kernel_floor_error + unit" where
  "check_kernel_floor osrelease_override osrelease =
     res_then (case osrelease_override of
                 Some s \<Rightarrow> Inr s
               | None \<Rightarrow>
                   (case osrelease of
                      Inl e \<Rightarrow> Inl (IoError e)
                    | Inr bytes \<Rightarrow> if valid_utf8 bytes then Inr bytes else Inl (IoError InvalidData))) (\<lambda>raw.
       let trimmed = trim raw in
       case parse_major_minor trimmed of
         None \<Rightarrow> Inl (Unparseable trimmed)
       | Some (major, minor) \<Rightarrow>
           if major < 6 \<or> (major = 6 \<and> minor < 9) then Inl (TooOld trimmed) else Inr ())"

definition kernel_floor_message :: "kernel_floor_error \<Rightarrow> (string \<Rightarrow> string) \<Rightarrow> (io_err \<Rightarrow> string) \<Rightarrow> string" where
  "kernel_floor_message e debug display_io =
     (case e of
        TooOld found \<Rightarrow> ''kernel '' @ found @ '' too old; FUSE_PASSTHROUGH requires Linux 6.9 or newer''
      | Unparseable raw \<Rightarrow> ''could not parse kernel release '' @ debug raw @ ''; FUSE_PASSTHROUGH requires Linux 6.9 or newer''
      | IoError err \<Rightarrow> ''could not read /proc/sys/kernel/osrelease: '' @ display_io err)"

section \<open>A release string is read as its two leading numbers\<close>

lemma parse_major_minor_release:
  assumes "major < 2 ^ 32" "minor < 2 ^ 32" and "rest = [] \<or> hd rest \<in> {CHR ''.'', CHR ''-''}"
  shows "parse_major_minor (fmt_nat major @ CHR ''.'' # fmt_nat minor @ rest) = Some (major, minor)"
proof -
  let ?cut = "takeWhile (\<lambda>x. x \<noteq> CHR ''-'')"
  have nosep: "CHR ''-'' \<notin> set (fmt_nat n)" "CHR ''.'' \<notin> set (fmt_nat n)" for n
    by (simp_all add: fmt_nat_no_sep is_digit_def)
  have pre: "?cut (fmt_nat major @ CHR ''.'' # fmt_nat minor @ rest) = fmt_nat major @ CHR ''.'' # fmt_nat minor @ ?cut rest"
    using nosep(1) by (subst takeWhile_append2; auto)+
  have "\<exists>ps. split_on CHR ''.'' (fmt_nat minor @ ?cut rest) = fmt_nat minor # ps"
  proof (cases "?cut rest")
    case Nil
    then show ?thesis using nosep(2) by (simp add: split_on_none)
  next
    case (Cons c cs)
    then have "c = CHR ''.''" using assms(3) by (cases rest) (auto split: if_splits)
    then show ?thesis using Cons nosep(2) by (simp add: split_on_append)
  qed
  then show ?thesis
    using assms(1,2) nosep(2)
    by (auto simp: parse_major_minor_def split_on_hd pre split_on_append parse_fmt_nat Let_def)
qed

definition plain_text :: "string \<Rightarrow> bool" where
  "plain_text s \<longleftrightarrow> list_all (\<lambda>c. byte c < 128 \<and> \<not> is_whitespace (byte c)) s"

lemma dropWhile_none: "\<forall>x \<in> set xs. \<not> P x \<Longrightarrow> dropWhile P xs = xs"
  by (cases xs) auto

lemma trim_line: "plain_text s \<Longrightarrow> trim (s @ [CHR 0x0A]) = s" and valid_line: "plain_text s \<Longrightarrow> valid_utf8 (s @ [CHR 0x0A])"
proof -
  assume plain: "plain_text s"
  then have ascii: "list_all (\<lambda>c. byte c < 128) (s @ [CHR 0x0A])" by (auto simp: plain_text_def list_all_iff)
  then show "valid_utf8 (s @ [CHR 0x0A])" by (rule valid_utf8_ascii)
  let ?p = "map (\<lambda>c. (Some (byte c), [c])) s"
  have "utf8_split (s @ [CHR 0x0A]) = ?p @ [(Some 10, [CHR 0x0A])]"
    unfolding utf8_split_ascii [OF ascii] by simp
  moreover have nl: "ws_piece (Some 10, [CHR 0x0A])" by (simp add: ws_piece_def is_whitespace_def)
  moreover have "\<forall>x \<in> set ?p. \<not> ws_piece x" using plain by (auto simp: plain_text_def list_all_iff ws_piece_def)
  then have "dropWhile ws_piece (?p @ [(Some 10, [CHR 0x0A])]) = (if s = [] then [] else ?p @ [(Some 10, [CHR 0x0A])])"
    using nl by (cases s) simp_all
  moreover have "dropWhile ws_piece (rev ?p) = rev ?p"
    using \<open>\<forall>x \<in> set ?p. \<not> ws_piece x\<close> by (intro dropWhile_none) simp
  ultimately show "trim (s @ [CHR 0x0A]) = s"
    by (auto simp: trim_def comp_def)
qed

lemma plain_fmt_nat: "plain_text (fmt_nat n)"
  using fmt_nat_all_digits [of n] by (auto simp: plain_text_def list_all_iff is_digit_def is_whitespace_def)

lemma plain_append [simp]: "plain_text (s @ t) \<longleftrightarrow> plain_text s \<and> plain_text t" "plain_text (CHR ''.'' # t) \<longleftrightarrow> plain_text t"
  by (auto simp: plain_text_def is_whitespace_def)

lemma kernel_floor_line:
  assumes "major < 2 ^ 32" and "minor < 2 ^ 32" and "rest = [] \<or> hd rest \<in> {CHR ''.'', CHR ''-''}" and "plain_text rest"
    and "release = fmt_nat major @ CHR ''.'' # fmt_nat minor @ rest"
  shows "check_kernel_floor None (Inr (release @ [CHR 0x0A])) =
    (if 6 < major \<or> major = 6 \<and> 9 \<le> minor then Inr () else Inl (TooOld release))"
proof -
  have "plain_text release"
    using assms(4,5) plain_fmt_nat by simp
  note line = trim_line [OF this] valid_line [OF this]
  have version: "parse_major_minor release = Some (major, minor)"
    unfolding assms(5) by (rule parse_major_minor_release [OF assms(1-3)])
  from line version show ?thesis by (auto simp: check_kernel_floor_def)
qed

text \<open>C40. The kernel check reads the release as the kernel prints it, the major and the minor number, a dot
  or a dash and anything after it, and a newline, and lets the program start exactly when the version is at
  least 6.9, comparing the numbers and not the text; otherwise it reports the release as too old.\<close>

theorem kernel_floor_exact:
  assumes "major < 2 ^ 32" and "minor < 2 ^ 32" and "rest = [] \<or> hd rest \<in> {CHR ''.'', CHR ''-''}" and "plain_text rest"
    and "release = fmt_nat major @ CHR ''.'' # fmt_nat minor @ rest"
  shows "check_kernel_floor None (Inr (release @ [CHR 0x0A])) =
    (if 6 < major \<or> major = 6 \<and> 9 \<le> minor then Inr () else Inl (TooOld release))"
  using assms by (rule kernel_floor_line)

theorem kernel_floor_exact_witness:
  "check_kernel_floor None (Inr (''6.10.0-generic'' @ [CHR 0x0A])) = Inr () \<and>
   check_kernel_floor None (Inr (''5.15.0'' @ [CHR 0x0A])) = Inl (TooOld ''5.15.0'')"
proof -
  have n: "fmt_nat 6 = ''6''" "fmt_nat 10 = ''10''" "fmt_nat 5 = ''5''" "fmt_nat 15 = ''15''"
    by (simp_all add: fmt_nat.simps digit_char.simps char_of_def bit_0)
  have "plain_text ''.0-generic''" "plain_text ''.0''" by (simp_all add: plain_text_def is_whitespace_def)
  with kernel_floor_exact [of 6 10 "''.0-generic''" "''6.10.0-generic''"] kernel_floor_exact [of 5 15 "''.0''" "''5.15.0''"] n
  show ?thesis by simp
qed

end
