(* ===== verification/ProfileLock.thy ===== *)
theory ProfileLock
  imports LineReader
begin

text \<open>
  Model of \<^verbatim>\<open>mount/src/profile_lock.rs\<close>: the advisory lock that keeps a second process out of the
  profile. The two system calls work on a state of their own, \<open>lk_open\<close> giving a file descriptor and
  \<open>lk_flock\<close> the error number of \<^verbatim>\<open>flock(fd, LOCK_EX | LOCK_NB)\<close>.
\<close>

record 'k lock_os =
  lk_open :: "path \<Rightarrow> 'k \<Rightarrow> (io_err + nat) \<times> 'k"
  lk_flock :: "nat \<Rightarrow> 'k \<Rightarrow> (nat + unit) \<times> 'k"
  lk_close :: "nat \<Rightarrow> 'k \<Rightarrow> 'k"

record profile_lock =
  pl_path :: path
  pl_file :: nat

datatype profile_lock_error = OpenFailed path io_err | Held path | FlockFailed path nat

definition EWOULDBLOCK :: nat where "EWOULDBLOCK = 11"

text \<open>On an error the file is dropped, which closes it.\<close>

definition acquire :: "'k lock_os \<Rightarrow> path \<Rightarrow> 'k \<Rightarrow> (profile_lock_error + profile_lock) \<times> 'k" where
  "acquire os p k =
     (case lk_open os p k of
        (Inl e, k1) \<Rightarrow> (Inl (OpenFailed p e), k1)
      | (Inr fd, k1) \<Rightarrow>
          (case lk_flock os fd k1 of
             (Inr _, k2) \<Rightarrow> (Inr \<lparr>pl_path = p, pl_file = fd\<rparr>, k2)
           | (Inl err, k2) \<Rightarrow>
               (Inl (if err = EWOULDBLOCK then Held p else FlockFailed p err), lk_close os fd k2)))"

definition drop_lock :: "'k lock_os \<Rightarrow> profile_lock \<Rightarrow> 'k \<Rightarrow> 'k" where
  "drop_lock os l = lk_close os (pl_file l)"

definition lock_error_message :: "profile_lock_error \<Rightarrow> (io_err \<Rightarrow> string) \<Rightarrow> (nat \<Rightarrow> string) \<Rightarrow> string" where
  "lock_error_message e display_io display_os =
     (case e of
        OpenFailed p err \<Rightarrow> ''failed to open profile lock file '' @ p @ '': '' @ display_io err
      | Held p \<Rightarrow> ''Profile lock '' @ p @ '' is held by another unidrive process; refusing mount.''
      | FlockFailed p err \<Rightarrow> ''flock('' @ p @ '') failed: '' @ display_os err)"

section \<open>Against the kernel's lock table\<close>

text \<open>What flock(2) documents: a descriptor refers to a file; an exclusive lock is granted unless a
  different descriptor holds one on the same file, and closing a descriptor releases its lock.\<close>

record lock_table =
  descriptors :: "(nat \<times> path) list"
  locked :: "nat list"
  next_fd :: nat

definition table_os :: "lock_table lock_os" where
  "table_os = \<lparr>
     lk_open = (\<lambda>p k. (Inr (next_fd k), k\<lparr>descriptors := (next_fd k, p) # descriptors k, next_fd := next_fd k + 1\<rparr>)),
     lk_flock = (\<lambda>fd k.
       if list_ex (\<lambda>g. g \<noteq> fd \<and> map_of (descriptors k) g = map_of (descriptors k) fd) (locked k)
       then (Inl EWOULDBLOCK, k) else (Inr (), k\<lparr>locked := fd # locked k\<rparr>)),
     lk_close = (\<lambda>fd k. k\<lparr>descriptors := AList.delete fd (descriptors k), locked := removeAll fd (locked k)\<rparr>)\<rparr>"

definition holds :: "lock_table \<Rightarrow> profile_lock \<Rightarrow> bool" where
  "holds k l \<longleftrightarrow> pl_file l \<in> set (locked k) \<and> map_of (descriptors k) (pl_file l) = Some (pl_path l)"

definition table_inv :: "lock_table \<Rightarrow> bool" where
  "table_inv k \<longleftrightarrow> (\<forall>fd \<in> set (locked k). map_of (descriptors k) fd \<noteq> None) \<and>
     (\<forall>fd \<in> fst ` set (descriptors k). fd < next_fd k) \<and>
     (\<forall>fd \<in> set (locked k). \<forall>g \<in> set (locked k). map_of (descriptors k) fd = map_of (descriptors k) g \<longrightarrow> fd = g)"

lemmas table_defs = acquire_def table_os_def table_inv_def holds_def

lemma fresh_fd: "table_inv k \<Longrightarrow> map_of (descriptors k) (next_fd k) = None"
  by (auto simp: table_inv_def map_of_eq_None_iff)

text \<open>While a guard is alive every other attempt on its file fails at once, and the guard keeps the lock.\<close>

lemma held_refused:
  assumes "table_inv k" and "holds k l"
  shows "fst (acquire table_os (pl_path l) k) = Inl (Held (pl_path l))" and "holds (snd (acquire table_os (pl_path l) k)) l"
proof -
  have new: "pl_file l \<noteq> next_fd k" using assms fresh_fd by (auto simp: holds_def)
  then have "list_ex (\<lambda>g. g \<noteq> next_fd k \<and> map_of ((next_fd k, pl_path l) # descriptors k) g = Some (pl_path l)) (locked k)"
    using assms(2) by (auto simp: list_ex_iff holds_def)
  with new assms(2) show "fst (acquire table_os (pl_path l) k) = Inl (Held (pl_path l))"
    "holds (snd (acquire table_os (pl_path l) k)) l"
    by (simp_all add: acquire_def table_os_def holds_def)
qed

text \<open>Dropping the guard frees the file for the next process.\<close>

lemma dropped_granted:
  assumes "table_inv k" and "holds k l"
  shows "\<exists>l' k'. acquire table_os (pl_path l) (drop_lock table_os l k) = (Inr l', k') \<and> holds k' l'"
proof -
  let ?k = "drop_lock table_os l k"
  have "map_of (descriptors k) g \<noteq> Some (pl_path l)" if "g \<in> set (locked k)" "g \<noteq> pl_file l" for g
    using assms that by (auto simp: table_inv_def holds_def)
  then have "\<not> list_ex (\<lambda>g. g \<noteq> next_fd ?k \<and> map_of ((next_fd ?k, pl_path l) # descriptors ?k) g = Some (pl_path l)) (locked ?k)"
    by (auto simp: list_ex_iff drop_lock_def table_os_def)
  then show ?thesis by (simp add: acquire_def table_os_def holds_def)
qed

end
