(* ===== verification/Run.thy ===== *)
theory Run
  imports FuseTypes FuseTurns CacheScanner Logging KernelFloor ProfileLock
begin

text \<open>
  Model of \<^verbatim>\<open>mount/src/run.rs\<close> (and of \<^verbatim>\<open>main.rs\<close>, which only calls it): startup, the order in which
  the parts come up, shutdown, the messages and the exit code. What the program meets is a parameter: the
  arguments, the environment and the kernel release, the network of the daemon, the cache directory, the
  lock file, and the results of mounting, of installing the signal handlers, of the session and of
  unmounting. \<open>milestones\<close> records what happened in which order.
\<close>

definition EX_OK :: nat where "EX_OK = 0"
definition EX_USAGE :: nat where "EX_USAGE = 64"
definition EX_CONFIG :: nat where "EX_CONFIG = 78"
definition EX_GENERIC_FAILURE :: nat where "EX_GENERIC_FAILURE = 1"

datatype stop_reason = SessionEnded "string + unit" | Signal

record mount_options =
  mo_fs_name :: string
  mo_nonempty :: bool
  mo_custom :: string

definition the_mount_options :: mount_options where
  "the_mount_options = \<lparr>mo_fs_name = ''unidrive'', mo_nonempty = False, mo_custom = ''noexec,nosuid,nodev''\<rparr>"

datatype milestone =
    Connected | Locked path | Scanned | Reconnected | Subscribed | Mounted path mount_options | Stopped | Unmounted
  | Unlocked path

record ('k, 'd, 'f) world =
  w_args :: "string list"
  w_env :: env
  w_filter_ok :: "string \<Rightarrow> bool"
  w_create_dir_all :: "path \<Rightarrow> bool"
  w_osrelease :: "io_err + string"
  w_geteuid :: nat
  w_runtime :: "string + unit"
  w_sys :: "('d, 'f) sys"
  w_scan :: scan_os
  w_locks :: "'k lock_os"
  w_mount :: "mount_options \<Rightarrow> path \<Rightarrow> string + unit"
  w_sigterm :: "string + unit"
  w_sigint :: "string + unit"
  w_stop :: stop_reason
  w_unmount :: "string + unit"
  w_display :: "io_err \<Rightarrow> string"
  w_display_os :: "nat \<Rightarrow> string"
  w_debug :: "string \<Rightarrow> string"

text \<open>\<open>r_view\<close>: the file system that the session serves, together with the subscription and the queue of
  changes that belong to it, once they are there.\<close>

record ('k, 'd, 'f) run_state =
  r_net :: net
  r_locks :: 'k
  r_disk :: 'd
  r_view :: "('d, 'f) refresh option"
  milestones :: "milestone list"
  r_subscriber :: "subscriber option"
  r_panic_hook :: bool
  r_stdout :: string
  r_stderr :: string

type_synonym ('k, 'd, 'f, 'a) running = "(('k, 'd, 'f) run_state, string, 'a) prog"

definition reached :: "milestone \<Rightarrow> ('k, 'd, 'f, unit) running" where
  "reached m = modify (\<lambda>s. s\<lparr>milestones := milestones s @ [m]\<rparr>)"

definition on_net :: "'a connecting \<Rightarrow> (('k, 'd, 'f) run_state, ipc_error, 'a) prog" where
  "on_net = zoom r_net r_net_update"

definition print :: "string \<Rightarrow> ('k, 'd, 'f) run_state \<Rightarrow> ('k, 'd, 'f) run_state" where
  "print msg s = s\<lparr>r_stdout := r_stdout s @ msg\<rparr>"

definition eprint :: "string \<Rightarrow> ('k, 'd, 'f) run_state \<Rightarrow> ('k, 'd, 'f) run_state" where
  "eprint msg s = s\<lparr>r_stderr := r_stderr s @ msg\<rparr>"

definition eprintln :: "string \<Rightarrow> ('k, 'd, 'f) run_state \<Rightarrow> ('k, 'd, 'f) run_state" where
  "eprintln msg = eprint (msg @ [newline])"

section \<open>The session\<close>

definition connect_failed :: "('k, 'd, 'f) world \<Rightarrow> path \<Rightarrow> ipc_error \<Rightarrow> string" where
  "connect_failed w ipc_path e = ''failed to connect IPC at '' @ ipc_path @ '': '' @ ipc_error_message (w_display w) e"

text \<open>Connecting at startup, the crash-recovery scan on that connection, and dropping it.\<close>

definition startup_connect :: "('k, 'd, 'f) world \<Rightarrow> path \<Rightarrow> ipc_auth \<Rightarrow> ('k, 'd, 'f, conn) running" where
  "startup_connect w ipc_path auth =
     andthen (map_err (connect_failed w ipc_path) (on_net
       (connect_auth_at_startup (lib (w_sys w)) auth STARTUP_CONNECT_INTERVAL STARTUP_CONNECT_BUDGET))) (\<lambda>c.
     andthen (reached Connected) (\<lambda>_. ret c))"

definition recover :: "('k, 'd, 'f) world \<Rightarrow> path \<Rightarrow> conn \<Rightarrow> ('k, 'd, 'f, unit) running" where
  "recover w cache c = (\<lambda>s.
     Option.bind (scan_and_replay (lib (w_sys w)) (w_scan w) cache c) (\<lambda>(r, c').
       let s' = s\<lparr>r_net := (r_net s)\<lparr>past := past (r_net s) @ issued c'\<rparr>\<rparr>
       in case r of Inl e \<Rightarrow> Some (Inl (''cache_scanner failed at '' @ cache @ '': '' @ scanner_error_message (w_display w) e), s') | Inr n \<Rightarrow> reached Scanned s'))"

text \<open>The reconnecting client, the file system on it, and the task that keeps its view fresh. The handlers
  use the settings of that client, which \<open>mount_sys\<close> puts into the parameters of the file system.\<close>

definition mount_sys :: "('k, 'd, 'f) world \<Rightarrow> ipc_auth \<Rightarrow> ('d, 'f) sys" where
  "mount_sys w auth = (w_sys w)\<lparr>rc := \<lparr>rc_auth = Some auth, interval = DEFAULT_RETRY_INTERVAL, budget = DEFAULT_RETRY_BUDGET\<rparr>\<rparr>"

definition make_fs :: "('k, 'd, 'f) world \<Rightarrow> path \<Rightarrow> path \<Rightarrow> ipc_auth \<Rightarrow> ('k, 'd, 'f, unit) running" where
  "make_fs w ipc_path cache auth =
     andthen (map_err (connect_failed w ipc_path) (on_net (rc_connect_auth (lib (w_sys w)) auth))) (\<lambda>(_, ipc).
     andthen (reached Reconnected) (\<lambda>_.
     andthen (modify (\<lambda>s. s\<lparr>r_view := Some \<lparr>subscription = sub_start (r_net s) [],
        view = with_cache_root cache (fs_new ipc (r_disk s)), applied = []\<rparr>\<rparr>)) (\<lambda>_.
       reached Subscribed)))"

definition from_step :: "(string \<Rightarrow> string) \<Rightarrow> string + unit \<Rightarrow> ('k, 'd, 'f, unit) running" where
  "from_step f r = (case r of Inl e \<Rightarrow> throw (f e) | Inr _ \<Rightarrow> ret ())"

definition serve_until_stopped :: "('k, 'd, 'f) world \<Rightarrow> path \<Rightarrow> ('k, 'd, 'f, unit) running" where
  "serve_until_stopped w mount_path =
     andthen (from_step (\<lambda>e. ''failed to mount FUSE at '' @ mount_path @ '': '' @ e) (w_mount w the_mount_options mount_path)) (\<lambda>_.
     andthen (reached (Mounted mount_path the_mount_options)) (\<lambda>_.
     andthen (from_step (\<lambda>e. ''failed to install SIGTERM handler: '' @ e) (w_sigterm w)) (\<lambda>_.
     andthen (from_step (\<lambda>e. ''failed to install SIGINT handler: '' @ e) (w_sigint w)) (\<lambda>_.
     andthen (reached Stopped) (\<lambda>_.
       case w_stop w of
         SessionEnded res \<Rightarrow> from_step (\<lambda>e. ''fuse session ended with error: '' @ e) res
       | Signal \<Rightarrow> andthen (from_step (\<lambda>e. ''unmount failed: '' @ e) (w_unmount w)) (\<lambda>_. reached Unmounted))))))"

text \<open>The lock guard lives to the end of \<^verbatim>\<open>run_async\<close>, whatever it returns.\<close>

definition with_profile_lock ::
    "('k, 'd, 'f) world \<Rightarrow> path option \<Rightarrow> ('k, 'd, 'f, unit) running \<Rightarrow> ('k, 'd, 'f, unit) running" where
  "with_profile_lock w lock_path body =
     (case lock_path of
        None \<Rightarrow> body
      | Some p \<Rightarrow> (\<lambda>s.
          case acquire (w_locks w) p (r_locks s) of
            (Inl e, k) \<Rightarrow> Some (Inl (lock_error_message e (w_display w) (w_display_os w)), s\<lparr>r_locks := k\<rparr>)
          | (Inr guard, k) \<Rightarrow>
              Option.bind (andthen (reached (Locked p)) (\<lambda>_. body) (s\<lparr>r_locks := k\<rparr>)) (\<lambda>(r, s').
                Some (r, s'\<lparr>r_locks := drop_lock (w_locks w) guard (r_locks s'), milestones := milestones s' @ [Unlocked p]\<rparr>))))"

definition run_async ::
    "('k, 'd, 'f) world \<Rightarrow> path \<Rightarrow> path \<Rightarrow> path \<Rightarrow> path option \<Rightarrow> ipc_auth \<Rightarrow> ('k, 'd, 'f, unit) running" where
  "run_async w mount_path ipc_path cache lock_path auth =
     andthen (startup_connect w ipc_path auth) (\<lambda>ipc.
       with_profile_lock w lock_path
         (andthen (recover w cache ipc) (\<lambda>_.
          andthen (make_fs w ipc_path cache auth) (\<lambda>_.
            serve_until_stopped w mount_path))))"

text \<open>The logging and the panic hook come first. The exit code; \<open>None\<close> while the session does not end.\<close>

definition set_up :: "('k, 'd, 'f) world \<Rightarrow> ('k, 'd, 'f) run_state \<Rightarrow> ('k, 'd, 'f) run_state" where
  "set_up w s = s\<lparr>r_subscriber := init_logging (w_env w) (w_filter_ok w) (w_create_dir_all w) (r_subscriber s),
     r_panic_hook := True\<rparr>"

definition effective_uid_is_root :: "('k, 'd, 'f) world \<Rightarrow> bool" where
  "effective_uid_is_root w \<longleftrightarrow> w_geteuid w = 0"

definition finish_run :: "('k, 'd, 'f) world \<Rightarrow> string + unit \<Rightarrow> ('k, 'd, 'f) run_state \<Rightarrow> nat \<times> ('k, 'd, 'f) run_state" where
  "finish_run w r s = (case r of
     Inr _ \<Rightarrow> (EX_OK, s)
   | Inl e \<Rightarrow> (EX_GENERIC_FAILURE, eprintln e s))"

definition run_with_argv ::
    "('k, 'd, 'f) world \<Rightarrow> string \<Rightarrow> string list \<Rightarrow> ('k, 'd, 'f) run_state \<Rightarrow> (nat \<times> ('k, 'd, 'f) run_state) option" where
  "run_with_argv w version argv s =
     (let s = set_up w s
      in case parse_args (w_env w) version argv of
        Inl (Help msg) \<Rightarrow> Some (EX_OK, print msg s)
      | Inl (VersionText msg) \<Rightarrow> Some (EX_OK, print msg s)
      | Inl (Usage msg) \<Rightarrow> Some (EX_USAGE, eprint msg s)
      | Inr cli \<Rightarrow>
          (case check_kernel_floor None (w_osrelease w) of
             Inl e \<Rightarrow> Some (EX_CONFIG, eprintln (kernel_floor_message e (w_debug w) (w_display w)) s)
           | Inr _ \<Rightarrow>
               if effective_uid_is_root w
               then Some (EX_GENERIC_FAILURE,
                 eprintln ''refusing to run as root; unidrive-mount is per-user. Re-run as a normal user.'' s)
               else
                 (case w_runtime w of
                    Inl e \<Rightarrow> Some (EX_GENERIC_FAILURE, eprintln (''failed to build tokio runtime: '' @ e) s)
                  | Inr _ \<Rightarrow>
                      let auth = \<lparr>token_file = cli_ipc_token_file cli,
                                  profile = (case cli_profile cli of Some p \<Rightarrow> p | None \<Rightarrow> '''')\<rparr>
                      in Option.bind (run_async w (cli_mount cli) (cli_ipc cli) (cli_cache cli) (cli_lock cli) auth s) (\<lambda>(r, s').
                           Some (finish_run w r s')))))"

definition run_main :: "('k, 'd, 'f) world \<Rightarrow> string \<Rightarrow> ('k, 'd, 'f) run_state \<Rightarrow> (nat \<times> ('k, 'd, 'f) run_state) option" where
  "run_main w version = run_with_argv w version (w_args w)"

section \<open>The order of startup and shutdown\<close>

text \<open>\<open>passes L m\<close>: the program reaches the milestones \<open>L\<close> one after the other, and all of them when it
  succeeds.\<close>

definition passes :: "milestone list \<Rightarrow> ('k, 'd, 'f, 'a) running \<Rightarrow> bool" where
  "passes L m \<longleftrightarrow> (\<forall>s r s'. m s = Some (r, s') \<longrightarrow>
     (\<exists>k. milestones s' = milestones s @ take k L \<and> (\<forall>v. r = Inr v \<longrightarrow> length L \<le> k)))"

named_theorems passes_rules \<open>the milestones of the steps\<close>

lemma passes_none [passes_rules]:
  "passes [] (ret v)" "passes [] (throw e)" "passes [] (from_step f q)" "passes [] (map_err g (on_net m))"
  "passes [] (modify (\<lambda>s. s\<lparr>r_view := vw s\<rparr>))"
  by (auto simp: passes_def ret_def throw_def from_step_def modify_def map_err_def on_net_def zoom_def
      split: sum.splits Option.bind_splits)

lemma passes_reached [passes_rules]: "passes [m] (reached m)"
  by (auto simp: passes_def reached_def modify_def intro: exI [of _ 1])

lemma passes_andthen:
  assumes "passes L m" and "\<And>v. passes L' (k v)"
  shows "passes (L @ L') (andthen m k)"
  unfolding passes_def
proof (intro allI impI)
  fix s r s'
  assume "andthen m k s = Some (r, s')"
  then consider (stop) e where "m s = Some (Inl e, s')" "r = Inl e"
    | (go) v t where "m s = Some (Inr v, t)" "k v t = Some (r, s')"
    unfolding andthen_Some by blast
  then show "\<exists>k. milestones s' = milestones s @ take k (L @ L') \<and> (\<forall>v. r = Inr v \<longrightarrow> length (L @ L') \<le> k)"
  proof cases
    case stop
    then obtain j where "milestones s' = milestones s @ take j L" using assms(1) unfolding passes_def by blast
    then have "milestones s' = milestones s @ take (min j (length L)) (L @ L')" by (simp add: min_def)
    with stop show ?thesis by blast
  next
    case go
    obtain i where i: "milestones t = milestones s @ take i L" "length L \<le> i" using assms(1) go(1) unfolding passes_def by blast
    obtain j where j: "milestones s' = milestones t @ take j L'" "\<forall>v. r = Inr v \<longrightarrow> length L' \<le> j"
      using assms(2) go(2) unfolding passes_def by blast
    have "milestones s' = milestones s @ take (length L + j) (L @ L')" using i j by simp
    with j(2) show ?thesis by (intro exI [of _ "length L + j"]) simp
  qed
qed

lemma passes_recover: "passes [Scanned] (recover w cache c)"
  unfolding passes_def recover_def reached_def modify_def Let_def
  by (fastforce split: Option.bind_splits sum.splits intro: exI [of _ 1] exI [of _ 0])

lemma passes_startup: "passes [Connected] (startup_connect w i auth)"
proof -
  have "passes ([] @ [Connected] @ []) (startup_connect w i auth)"
    unfolding startup_connect_def by (intro passes_andthen passes_none passes_reached)
  then show ?thesis by simp
qed

lemma passes_make_fs: "passes [Reconnected, Subscribed] (make_fs w i c auth)"
  unfolding make_fs_def case_prod_beta
  using passes_andthen [OF passes_none(4) passes_andthen [OF passes_reached passes_andthen [OF passes_none(5) passes_reached]]]
  by simp

definition ending :: "stop_reason \<Rightarrow> milestone list" where
  "ending r = (case r of Signal \<Rightarrow> [Unmounted] | SessionEnded _ \<Rightarrow> [])"

lemma passes_serve: "passes ([Mounted m the_mount_options, Stopped] @ ending (w_stop w)) (serve_until_stopped w m)"
proof -
  have "passes (ending (w_stop w)) (case w_stop w of SessionEnded res \<Rightarrow> from_step (\<lambda>e. ''fuse session ended with error: '' @ e) res
      | Signal \<Rightarrow> andthen (from_step (\<lambda>e. ''unmount failed: '' @ e) (w_unmount w)) (\<lambda>_. reached Unmounted))"
    using passes_andthen [OF passes_none(3) passes_reached] passes_none(3)
    by (auto simp: ending_def split: stop_reason.splits)
  from passes_andthen [OF passes_none(3) passes_andthen [OF passes_reached passes_andthen [OF passes_none(3)
     passes_andthen [OF passes_none(3) passes_andthen [OF passes_reached this]]]]]
  show ?thesis unfolding serve_until_stopped_def by simp
qed

definition session_route :: "('k, 'd, 'f) world \<Rightarrow> path \<Rightarrow> milestone list" where
  "session_route w m = [Scanned, Reconnected, Subscribed, Mounted m the_mount_options, Stopped] @ ending (w_stop w)"

lemma passes_session:
  "passes (session_route w m) (andthen (recover w c conn) (\<lambda>_. andthen (make_fs w i c auth) (\<lambda>_. serve_until_stopped w m)))"
  using passes_andthen [OF passes_recover passes_andthen [OF passes_make_fs passes_serve]]
  by (simp add: session_route_def)

text \<open>The whole way, with the lock around the session.\<close>

definition route :: "('k, 'd, 'f) world \<Rightarrow> path \<Rightarrow> path option \<Rightarrow> nat \<Rightarrow> milestone list" where
  "route w m lock k =
     (case lock of
        None \<Rightarrow> take k (Connected # session_route w m)
      | Some p \<Rightarrow> take k (Connected # Locked p # session_route w m) @ (if 2 \<le> k then [Unlocked p] else []))"

definition whole :: "('k, 'd, 'f) world \<Rightarrow> path \<Rightarrow> path option \<Rightarrow> nat" where
  "whole w m lock = length (session_route w m) + (case lock of None \<Rightarrow> 1 | Some _ \<Rightarrow> 2)"

lemma locked_route:
  assumes "passes L body" and "with_profile_lock w (Some p) body s = Some (r, s')"
  shows "\<exists>k. milestones s' = milestones s @ take k (Locked p # L) @ (if 1 \<le> k then [Unlocked p] else []) \<and>
    (\<forall>v. r = Inr v \<longrightarrow> length L + 1 \<le> k)"
proof (cases "acquire (w_locks w) p (r_locks s)")
  case (Pair q kt)
  show ?thesis
  proof (cases q)
    case (Inl e)
    with Pair assms(2) show ?thesis by (intro exI [of _ 0]) (auto simp: with_profile_lock_def)
  next
    case (Inr guard)
    have "andthen (reached (Locked p)) (\<lambda>_. body) t = body (t\<lparr>milestones := milestones t @ [Locked p]\<rparr>)" for t
      by (simp add: reached_def)
    then obtain t where body: "body (s\<lparr>r_locks := kt, milestones := milestones s @ [Locked p]\<rparr>) = Some (r, t)"
      and s': "milestones s' = milestones t @ [Unlocked p]"
      using assms(2) Pair Inr by (auto simp: with_profile_lock_def split: Option.bind_splits)
    obtain j where "milestones t = milestones s @ [Locked p] @ take j L" "\<forall>v. r = Inr v \<longrightarrow> length L \<le> j"
      using assms(1) body unfolding passes_def by fastforce
    with s' show ?thesis by (intro exI [of _ "Suc j"]) auto
  qed
qed

lemma run_async_route:
  assumes "run_async w m i c lock auth s = Some (r, s')"
  shows "\<exists>k. milestones s' = milestones s @ route w m lock k \<and> (\<forall>v. r = Inr v \<longrightarrow> whole w m lock \<le> k)"
proof -
  let ?session = "\<lambda>conn. andthen (recover w c conn) (\<lambda>_. andthen (make_fs w i c auth) (\<lambda>_. serve_until_stopped w m))"
  consider (down) e where "startup_connect w i auth s = Some (Inl e, s')" "r = Inl e"
    | (up) conn t where "startup_connect w i auth s = Some (Inr conn, t)"
        "with_profile_lock w lock (?session conn) t = Some (r, s')"
    using assms unfolding run_async_def andthen_Some by blast
  then show ?thesis
  proof cases
    case down
    then obtain k where "milestones s' = milestones s @ take k [Connected]"
      using passes_startup unfolding passes_def by blast
    then have "milestones s' = milestones s @ route w m lock (min k 1)"
      by (cases k) (auto simp: route_def split: option.splits)
    with down show ?thesis by blast
  next
    case up
    have t: "milestones t = milestones s @ [Connected]"
      using passes_startup [of w i auth] up(1) unfolding passes_def by fastforce
    show ?thesis
    proof (cases lock)
      case None
      then obtain k where "milestones s' = milestones t @ take k (session_route w m)"
        "\<forall>v. r = Inr v \<longrightarrow> length (session_route w m) \<le> k"
        using passes_session up(2) unfolding passes_def with_profile_lock_def by fastforce
      with t None show ?thesis by (intro exI [of _ "Suc k"]) (auto simp: route_def whole_def)
    next
      case (Some p)
      obtain k where "milestones s' = milestones t @ take k (Locked p # session_route w m) @ (if 1 \<le> k then [Unlocked p] else [])"
        "\<forall>v. r = Inr v \<longrightarrow> length (session_route w m) + 1 \<le> k"
        using locked_route [OF passes_session up(2) [unfolded Some]] by blast
      with t Some show ?thesis by (intro exI [of _ "Suc k"]) (auto simp: route_def whole_def)
    qed
  qed
qed


text \<open>What a run that stops before it does anything leaves: the logging and the panic hook are set up and
  something was printed.\<close>

definition only_printed :: "('k, 'd, 'f) world \<Rightarrow> ('k, 'd, 'f) run_state \<Rightarrow> ('k, 'd, 'f) run_state \<Rightarrow> bool" where
  "only_printed w s s' \<longleftrightarrow> s'\<lparr>r_stdout := r_stdout s, r_stderr := r_stderr s\<rparr> = set_up w s"

lemma only_printed_simps [simp]:
  "only_printed w s (print m (set_up w s))" "only_printed w s (eprint m (set_up w s))"
  "only_printed w s (eprintln m (set_up w s))"
  by (simp_all add: only_printed_def print_def eprint_def eprintln_def set_up_def)

lemma milestones_printed [simp]:
  "milestones (print m s) = milestones s" "milestones (eprint m s) = milestones s"
  "milestones (eprintln m s) = milestones s" "milestones (set_up w s) = milestones s"
  by (simp_all add: print_def eprint_def eprintln_def set_up_def)

lemma finish_run_simps [simp]: "milestones (snd (finish_run w r s)) = milestones s"
  "fst (finish_run w r s) = (case r of Inr _ \<Rightarrow> EX_OK | Inl _ \<Rightarrow> EX_GENERIC_FAILURE)"
  by (auto simp: finish_run_def split: sum.splits)

lemma startup_spec:
  assumes "run_with_argv w version argv s = Some (code, s')"
  shows "case parse_args (w_env w) version argv of
      Inl (Usage msg) \<Rightarrow> code = EX_USAGE \<and> only_printed w s s' \<and> r_stderr s' = r_stderr s @ msg
    | Inl (Help msg) \<Rightarrow> code = EX_OK \<and> only_printed w s s' \<and> r_stdout s' = r_stdout s @ msg
    | Inl (VersionText msg) \<Rightarrow> code = EX_OK \<and> only_printed w s s' \<and> r_stdout s' = r_stdout s @ msg
    | Inr cli \<Rightarrow>
        if isl (check_kernel_floor None (w_osrelease w)) then code = EX_CONFIG \<and> only_printed w s s'
        else \<exists>k. (milestones s' = milestones s @ route w (cli_mount cli) (cli_lock cli) k) \<and>
          (if code = EX_OK then whole w (cli_mount cli) (cli_lock cli) \<le> k else code = EX_GENERIC_FAILURE)"
proof (cases "parse_args (w_env w) version argv")
  case (Inl e)
  with assms show ?thesis
    by (cases e) (auto simp: run_with_argv_def Let_def print_def eprint_def set_up_def only_printed_def)
next
  case (Inr cli)
  have idle: "route w (cli_mount cli) (cli_lock cli) 0 = []"
    by (simp add: route_def split: option.splits)
  let ?auth = "\<lparr>token_file = cli_ipc_token_file cli, profile = (case cli_profile cli of Some p \<Rightarrow> p | None \<Rightarrow> '''')\<rparr>"
  consider "isl (check_kernel_floor None (w_osrelease w))" "code = EX_CONFIG" "only_printed w s s'"
    | "\<not> isl (check_kernel_floor None (w_osrelease w))" "code = EX_GENERIC_FAILURE" "milestones s' = milestones s"
    | r t where "\<not> isl (check_kernel_floor None (w_osrelease w))"
        "run_async w (cli_mount cli) (cli_ipc cli) (cli_cache cli) (cli_lock cli) ?auth (set_up w s) = Some (r, t)"
        "(code, s') = finish_run w r t"
    using assms Inr by (auto simp: run_with_argv_def Let_def split: if_splits Option.bind_splits sum.splits)
  then show ?thesis
  proof cases
    case 2
    have "\<exists>k. route w (cli_mount cli) (cli_lock cli) k = []" using idle by (rule exI)
    with 2 Inr show ?thesis by (simp add: EX_OK_def EX_GENERIC_FAILURE_def)
  next
    case 3
    obtain k where "milestones t = milestones s @ route w (cli_mount cli) (cli_lock cli) k"
      "\<forall>v. r = Inr v \<longrightarrow> whole w (cli_mount cli) (cli_lock cli) \<le> k"
      using run_async_route [OF 3(2)] by auto
    moreover have "milestones s' = milestones t" "code = (case r of Inr _ \<Rightarrow> EX_OK | Inl _ \<Rightarrow> EX_GENERIC_FAILURE)"
      using finish_run_simps [of w r t] unfolding 3(3) [symmetric] by simp_all
    ultimately show ?thesis
      using 3(1) Inr by (cases r) (auto simp: EX_OK_def EX_GENERIC_FAILURE_def)
  qed (use Inr in simp)
qed

section \<open>The program ends\<close>

text \<open>The cache directory as the operating system shows it has no cycle of directories.\<close>

definition scan_ends :: "('k, 'd, 'f) world \<Rightarrow> path \<Rightarrow> bool" where
  "scan_ends w cache \<longleftrightarrow> (\<forall>root. so_canonicalize (w_scan w) cache = Inr root \<longrightarrow>
     wf {(d', d). subdir (w_scan w) root d d'})"

lemma scan_returns:
  assumes "scan_ends w cache"
  shows "returns (scan_and_replay x (w_scan w) cache)"
  unfolding returns_def
proof
  fix c
  show "scan_and_replay x (w_scan w) cache c \<noteq> None"
  proof (cases "so_canonicalize (w_scan w) cache")
    case (Inr root)
    obtain r where "collect_files (w_scan w) cache = Some r"
      using walk_returns [of "w_scan w" root "[root]" "[]"] assms Inr by (auto simp: collect_files_def scan_ends_def)
    moreover have "replay x (w_scan w) root fs 0 0 c \<noteq> None" for fs
      using replay_runs [of x "w_scan w" root fs 0 0 c] by auto
    ultimately show ?thesis using Inr by (cases r) (auto simp: scan_and_replay_def ret_def throw_def)
  qed (simp add: scan_and_replay_def ret_def throw_def)
qed

lemma on_net_returns [returns_rules]: "returns m \<Longrightarrow> returns (on_net m)"
  by (auto simp: returns_def on_net_def zoom_def split: Option.bind_splits)

lemma map_err_returns [returns_rules]: "returns m \<Longrightarrow> returns (map_err g m)"
  by (auto simp: returns_def map_err_def split: Option.bind_splits)

lemma from_step_returns [returns_rules]: "returns (from_step f r)" "returns (reached ms)"
  by (auto simp: from_step_def reached_def split: sum.splits intro: returns_rules)

lemma startup_returns: "returns (startup_connect w i auth)"
proof -
  have "returns (connect_auth_at_startup (lib (w_sys w)) auth STARTUP_CONNECT_INTERVAL STARTUP_CONNECT_BUDGET)"
    unfolding returns_def using startup_connect_returns by (metis option.distinct(1))
  then show ?thesis unfolding startup_connect_def by (intro returns_rules)
qed

lemma recover_returns: "scan_ends w cache \<Longrightarrow> returns (recover w cache c)"
  using scan_returns [of w cache "lib (w_sys w)"]
  by (auto simp: returns_def recover_def reached_def modify_def Let_def split: Option.bind_splits sum.splits)

lemma connect_inner_returns: "returns (connect_inner x cfg)"
  using open_conn_returns [of x "rc_auth cfg"] by (auto simp: returns_def connect_inner_def split: Option.bind_splits sum.splits)

lemma make_fs_returns: "returns (make_fs w i cache auth)"
  unfolding make_fs_def case_prod_beta rc_connect_auth_def rc_connect_auth_with_def Let_def
  by (intro returns_rules connect_inner_returns)

lemma serve_until_stopped_returns: "returns (serve_until_stopped w m)"
  unfolding serve_until_stopped_def by (auto intro!: returns_rules split: stop_reason.splits)

lemma with_profile_lock_returns: "returns body \<Longrightarrow> returns (with_profile_lock w lock body)"
  using returns_andthen [OF from_step_returns(2), of "\<lambda>_. body"]
  by (cases lock) (auto simp: returns_def with_profile_lock_def simp del: not_None_eq split: Option.bind_splits prod.splits sum.splits)

lemma run_async_returns: "scan_ends w cache \<Longrightarrow> returns (run_async w m i cache lock auth)"
  unfolding run_async_def
  by (intro returns_rules startup_returns with_profile_lock_returns recover_returns make_fs_returns serve_until_stopped_returns)

lemma run_returns:
  assumes "\<And>cli. parse_args (w_env w) version argv = Inr cli \<Longrightarrow> scan_ends w (cli_cache cli)"
  obtains code s' where "run_with_argv w version argv s = Some (code, s')"
proof -
  have "run_with_argv w version argv s \<noteq> None"
    using run_async_returns [OF assms]
    by (auto simp: run_with_argv_def Let_def returns_def simp del: not_None_eq split: sum.splits cli_error.splits Option.bind_splits)
  with that show ?thesis by auto
qed

text \<open>A session that is mounted and ended by a signal, under a lock that is free.\<close>

definition toy_world :: "(lock_table, toy_disk, path) world" where
  "toy_world = \<lparr>w_args = [''p'', ''--mount'', ''/m'', ''--ipc'', ''/s'', ''--lock'', ''/l''], w_env = (\<lambda>_. None),
     w_filter_ok = (\<lambda>_. True), w_create_dir_all = (\<lambda>_. True), w_osrelease = Inr (''6.10'' @ [CHR 0x0A]), w_geteuid = 1000, w_runtime = Inr (),
     w_sys = toy_sys, w_scan = toy_os\<lparr>so_exists := (\<lambda>_. False)\<rparr>, w_locks = table_os, w_mount = (\<lambda>_ _. Inr ()),
     w_sigterm = Inr (), w_sigint = Inr (), w_stop = Signal, w_unmount = Inr (),
     w_display = (\<lambda>_. ''''), w_display_os = (\<lambda>_. ''''), w_debug = id\<rparr>"

definition toy_start :: "(lock_table, toy_disk, path) run_state" where
  "toy_start = \<lparr>r_net = toy_net (\<lambda>_. toy_peer None [''O'']),
     r_locks = \<lparr>descriptors = [], locked = [], next_fd = 3\<rparr>, r_disk = [], r_view = None, milestones = [],
     r_subscriber = None, r_panic_hook = False, r_stdout = '''', r_stderr = ''''\<rparr>"

lemma toy_connects:
  assumes "peers n = (\<lambda>_. toy_peer None [''O''])"
  shows "\<exists>c n'. connect_auth toy_ext \<lparr>token_file = None, profile = ''''\<rparr> n = Some (Inr c, n') \<and> peers n' = peers n"
proof -
  have "toy_ready ''O'' (toy_conn [''O''])" using toy_ready_conn [of "''O''"] by simp
  from toy_answer [OF this, of "toy_reply CHR ''O''"]
  have "fallback_check toy_ext \<lparr>token_file = None, profile = ''''\<rparr> (toy_conn [''O'']) =
      Some (Inr (), toy_next (verb ''daemon.status'' []) (toy_conn [''O'']))"
    by (simp add: fallback_check_def andthen_def ret_def Let_def toy_reply_def toy_parse_def protocol_version_def
        jindex_def jget_def PROTOCOL_def word_le_nat_alt)
  then show ?thesis
    using assms
    by (simp add: connect_auth_def andthen_def connect_def token_of_def on_conn_def warn_fallback_once_def
        modify_def ret_def Let_def toy_peer_def)
qed

lemma toy_kernel: "check_kernel_floor None (w_osrelease toy_world) = Inr ()"
proof -
  have six: "fmt_nat 6 = ''6''" "fmt_nat 10 = ''10''"
    by (simp_all add: fmt_nat.simps digit_char.simps char_of_def bit_0)
  show ?thesis
    using kernel_floor_line [of 6 10 "''''" "''6.10''"] six by (simp add: toy_world_def plain_text_def)
qed

definition toy_cli :: cli where
  "toy_cli = \<lparr>cli_mount = ''/m'', cli_ipc = ''/s'', cli_cache = ''.cache/unidrive/hydration'', cli_lock = Some ''/l'',
     cli_ipc_token_file = None, cli_profile = None\<rparr>"

lemma toy_parse_args: "parse_args (w_env toy_world) ''0.0.2'' (w_args toy_world) = Inr toy_cli"
  by (simp add: parse_args_def no_opts_def set_opt_def finish_def default_cache_root_def toy_world_def toy_cli_def)

text \<open>The whole way, under a lock that is free.\<close>

lemma toy_run: "\<exists>s'. run_with_argv toy_world ''0.0.2'' (w_args toy_world) toy_start = Some (EX_OK, s')"
proof -
  let ?auth = "\<lparr>token_file = None, profile = ''''\<rparr>"
  let ?s = "set_up toy_world toy_start"
  obtain c n where c: "connect_auth toy_ext ?auth (r_net ?s) = Some (Inr c, n)"
    "peers n = (\<lambda>_. toy_peer None [''O''])"
    using toy_connects [of "r_net ?s"] by (auto simp: toy_start_def toy_net_def set_up_def)
  have start: "connect_auth_at_startup toy_ext ?auth STARTUP_CONNECT_INTERVAL STARTUP_CONNECT_BUDGET
      (r_net ?s) = Some (Inr c, n)"
    using c(1) by (simp add: connect_auth_at_startup_def) (subst startup_loop.simps, simp)
  obtain c' n' where c': "connect_auth toy_ext ?auth (n\<lparr>past := past n @ issued c\<rparr>) = Some (Inr c', n')"
    using toy_connects [of "n\<lparr>past := past n @ issued c\<rparr>"] c(2) by auto
  have sys: "lib (w_sys toy_world) = toy_ext" by (simp add: toy_world_def)
  obtain s' where "run_async toy_world ''/m'' ''/s'' ''.cache/unidrive/hydration'' (Some ''/l'') ?auth ?s = Some (Inr (), s')"
    using start c'
    by (simp add: run_async_def startup_connect_def with_profile_lock_def recover_def make_fs_def serve_until_stopped_def
        andthen_def map_err_def on_net_def zoom_def reached_def modify_def ret_def from_step_def acquire_def
        scan_and_replay_def rc_connect_auth_def rc_connect_auth_with_def connect_inner_def open_conn_def Let_def
        toy_world_def toy_start_def table_os_def set_up_def)
  moreover have "\<not> effective_uid_is_root toy_world" "w_runtime toy_world = Inr ()"
    by (simp_all add: effective_uid_is_root_def toy_world_def)
  ultimately show ?thesis
    using toy_parse_args toy_kernel by (simp add: run_with_argv_def finish_run_def toy_cli_def Let_def)
qed

lemma toy_scan_ends: "scan_ends toy_world c"
  unfolding scan_ends_def
proof (intro allI impI)
  fix root
  show "wf {(d', d). subdir (w_scan toy_world) root d d'}"
    by (rule wf_subset [of "measure (\<lambda>d. if d = ''/c'' then 1 else 0)"])
      (auto simp: subdir_def toy_world_def toy_os_def toy_dir_def names_dir_def split: if_splits)
qed


end
