(* ===== verification/FuseLive.thy ===== *)
theory FuseLive
  imports FuseView
begin

text \<open>
  When the file system answers. A verb that is retried hangs on a daemon that accepts and drops every
  connection; here it is shown that this is the only way to hang: when the connections get better at some
  point, every request returns, whatever happened before.
\<close>

definition fs_settled :: "('d, 'f) sys \<Rightarrow> nat \<Rightarrow> ('d, 'f) fs \<Rightarrow> bool" where
  "fs_settled w N s \<longleftrightarrow> settled (lib w) (rc w) N (ipc s)"

lemma fs_settled_same: "ipc s' = ipc s \<Longrightarrow> fs_settled w N s' = fs_settled w N s"
  by (simp add: fs_settled_def)

lemma steps_ipc [simp]:
  "ipc (set_attr_of i f s) = ipc s" "ipc (set_handle fh g s) = ipc s" "ipc (refresh_quota_if_due s) = ipc s"
  "ipc (drop_entry cp s) = ipc s" "ipc (view_apply change s) = ipc s"
  by (auto simp: set_attr_of_def set_handle_def refresh_quota_if_due_def drop_entry_def view_apply_def
    Let_def split: prod.splits option.splits invalidation.splits)

text \<open>A step that leaves the client alone.\<close>

lemma ends_call: "ends (settled (lib w) (rc w) N) m \<Longrightarrow> ends (fs_settled w N) (ipc_call m)"
  unfolding ipc_call_def
  by (rule ends_zoom) (auto simp: fs_settled_def)


lemma ends_local:
  assumes "\<And>s. \<exists>r s'. m s = Some (r, s') \<and> ipc s' = ipc s"
  shows "ends (fs_settled w N) m"
  using assms by (intro endsI) (metis fs_settled_same)

lemma ends_steps [ends_rules]:
  "ends (fs_settled w N) (name_of n)" "ends (fs_settled w N) (path_of_inode i)" "ends (fs_settled w N) (handle_of fh)"
  unfolding name_of_def path_of_inode_def handle_of_def by (intro ends_rules)+

lemma ends_local_steps [ends_rules]:
  "ends (fs_settled w N) fresh_handle_number" "ends (fs_settled w N) fresh_fh" "ends (fs_settled w N) (on_disk f)"
  "ends (fs_settled w N) (dotdot_inode i p)" "ends (fs_settled w N) (install_dir w' cp n)"
  "ends (fs_settled w N) (install_file w' cp n reply file)"
  by (rule ends_local; simp add: fresh_handle_number_def fresh_fh_def on_disk_def dotdot_inode_def install_dir_def
      install_file_def Let_def ret_def case_prod_beta)+

lemma ends_update: "(\<And>s. ipc (f s) = ipc s) \<Longrightarrow> ends (fs_settled w N) (modify f)"
  by (intro ends_local) (simp add: modify_def)

lemma ends_ignore_err [ends_rules]: "ends I m \<Longrightarrow> ends I (ignore_err m)"
  unfolding ignore_err_def by (intro ends_rules)

text \<open>The client waits a positive time between attempts, as the program's does.\<close>

locale waiting_client =
  fixes w :: "('d, 'f) sys"
  assumes waits: "0 < interval (rc w)"
begin

lemma retried_end [ends_rules]:
  "ends (fs_settled w N) (ipc_call (rc_open_read (lib w) (rc w) h p))"
  "ends (fs_settled w N) (ipc_call (rc_close_handle (lib w) (rc w) h))"
  "ends (fs_settled w N) (ipc_call (rc_list (lib w) (rc w) p))"
  "ends (fs_settled w N) (ipc_call (rc_daemon_status (lib w) (rc w)))"
  unfolding rc_open_read_def rc_close_handle_def rc_list_def rc_daemon_status_def
  by (intro ends_call retry_ends waits retried_first_call)+

lemma unretried_end [ends_rules]:
  "ends (fs_settled w N) (ipc_call (rc_open_write (lib w) (rc w) h p c))"
  "ends (fs_settled w N) (ipc_call (rc_open_write_begin (lib w) (rc w) p ho))"
  "ends (fs_settled w N) (ipc_call (rc_mkdir (lib w) (rc w) p))"
  "ends (fs_settled w N) (ipc_call (rc_unlink (lib w) (rc w) p))"
  "ends (fs_settled w N) (ipc_call (rc_rmdir (lib w) (rc w) p))"
  "ends (fs_settled w N) (ipc_call (rc_create (lib w) (rc w) h p))"
  "ends (fs_settled w N) (ipc_call (rc_rename (lib w) (rc w) p q))"
  unfolding rc_open_write_def rc_open_write_begin_def rc_mkdir_def rc_unlink_def rc_rmdir_def rc_create_def rc_rename_def
  by (intro ends_call no_retry_ends waits verbs_return)+

lemma helpers_end [ends_rules]:
  "ends (fs_settled w N) (upload_handle w h p c)" "ends (fs_settled w N) (close_jvm_handle w h)"
  unfolding upload_handle_def close_jvm_handle_def by (intro ends_rules)+

lemma populate_ends [ends_rules]: "ends (fs_settled w N) (populate_from_list w p)"
proof -
  have "ends (fs_settled w N) (\<lambda>s. let (representable, s1) = quarantine entries s; (out, s2) = intern_entries representable s1
      in Some (Inr out, s2))" for entries
    by (rule ends_local) (simp add: case_prod_beta Let_def)
  then show ?thesis unfolding populate_from_list_def by (intro ends_rules)
qed

lemma fetch_ends [ends_rules]: "ends (fs_settled w N) (get_or_fetch_attr w i)"
  unfolding get_or_fetch_attr_def by (intro ends_rules)

lemma refuse_ends [ends_rules]: "ends (fs_settled w N) (refuse_nfc_collision w p cp n)"
  unfolding refuse_nfc_collision_def by (intro ends_rules)

lemma evict_ends [ends_rules]: "ends (fs_settled w N) (evict remove cp)"
  unfolding evict_def by (intro ends_rules)

lemma queries_end:
  "ends (fs_settled w N) (lookup w i n)" "ends (fs_settled w N) (read_file w fh off sz)"
  "ends (fs_settled w N) (readdir w i o1)" "ends (fs_settled w N) (readdirplus w i o2)"
  "ends (fs_settled w N) (getxattr i n sz')" "ends (fs_settled w N) (listxattr sz')"
  and getattr_ends [ends_rules]: "ends (fs_settled w N) (getattr w i)"
  unfolding lookup_def getattr_def read_file_def readdir_def readdirplus_def getxattr_def listxattr_def Let_def
  by (intro ends_rules)+

lemma updates_end:
  "ends (fs_settled w N) (write_file w i fh off data)" "ends (fs_settled w N) (fsync w fh ds)"
  "ends (fs_settled w N) (release w fh)" "ends (fs_settled w N) statfs" "ends (fs_settled w N) fuse_init"
  "ends (fs_settled w N) (quota_task w)"
  unfolding write_file_def fsync_def release_def statfs_def fuse_init_def quota_task_def Let_def
  by (intro ends_rules ends_update; simp)+

lemma truncates_end [ends_rules]:
  "ends (fs_settled w N) (truncate_handle w fh sz)" "ends (fs_settled w N) (truncate_to_zero w i p ofh)"
  "ends (fs_settled w N) (truncate_to_size w i p ofh sz)"
  unfolding truncate_to_zero_def truncate_to_size_def truncate_handle_def bare_truncate_zero_def bare_truncate_size_def
    commit_and_close_def close_and_fail_def
  by (intro ends_rules ends_update; simp)+

lemma setattr_ends: "ends (fs_settled w N) (setattr w i ofh sz)"
  unfolding setattr_def by (intro ends_rules)

lemma open_ends: "ends (fs_settled w N) (open_file w i flags)"
proof -
  have stat: "ends (fs_settled w N) (\<lambda>s. case meta of
       Inl _ \<Rightarrow> Some (Inr False, s)
     | Inr len \<Rightarrow> Some (Inr (case map_of (attrs s) i of Some a \<Rightarrow> ca_size a \<noteq> len | None \<Rightarrow> False),
                       set_attr_of i (\<lambda>a. a\<lparr>ca_size := len\<rparr>) s))" for meta :: "io_err + u64"
    by (rule ends_local) (simp split: sum.splits)
  show ?thesis unfolding open_file_def Let_def by (intro stat ends_rules ends_update; simp)
qed

lemma create_internal_ends [ends_rules]: "ends (fs_settled w N) (create_internal w i n)"
  unfolding create_internal_def Let_def by (intro ends_rules)

lemma namespace_ends:
  "ends (fs_settled w N) (fuse_mkdir w i n)" "ends (fs_settled w N) (fuse_unlink w i n)"
  "ends (fs_settled w N) (fuse_rmdir w i n)" "ends (fs_settled w N) (fuse_create w i n)"
  "ends (fs_settled w N) (mknod w i n mode)" "ends (fs_settled w N) (fuse_rename w i n j k)"
  unfolding fuse_mkdir_def fuse_unlink_def fuse_rmdir_def fuse_create_def mknod_def fuse_rename_def Let_def
  by (intro ends_rules ends_update; simp)+

lemma after_ends: "ends I m \<Longrightarrow> I s \<Longrightarrow> \<exists>s'. after m s = Some s' \<and> I s'"
  by (auto simp: after_def elim: endsE)

lemma serve_ends: "fs_settled w N s \<Longrightarrow> \<exists>s'. serve w q s = Some s' \<and> fs_settled w N s'"
  by (cases q) (auto intro!: after_ends queries_end getattr_ends updates_end setattr_ends open_ends namespace_ends
    simp: fs_settled_same [of "view_apply _ s"])

end


interpretation toy: waiting_client toy_sys
  by unfold_locales (simp add: toy_sys_def toy_cfg_def DEFAULT_RETRY_INTERVAL_def)

section \<open>Every request is answered\<close>

fun serve_all :: "('d, 'f) sys \<Rightarrow> request list \<Rightarrow> ('d, 'f) fs \<Rightarrow> ('d, 'f) fs option" where
  "serve_all w [] s = Some s"
| "serve_all w (q # qs) s = Option.bind (serve w q s) (serve_all w qs)"

text \<open>The file system does not hang: if, from some number of connections on, every connection that comes
  up answers at least the first call made on it (or no connection comes up any more), every sequence of
  requests is served to its end, each with a reply or an error, whatever the connections before did. Without
  the condition it may hang (\<open>retry_loop_unbounded\<close>).\<close>

theorem every_request_ends:
  assumes "0 < interval (rc w)" and "fs_settled w N s"
  shows "\<exists>s'. serve_all w qs s = Some s'"
  using assms(2)
proof (induction qs arbitrary: s)
  case (Cons q qs)
  have "waiting_client w" using assms(1) by unfold_locales
  from waiting_client.serve_ends [OF this Cons.prems] obtain t where "serve w q s = Some t" "fs_settled w N t" by blast
  with Cons.IH show ?case by simp
qed simp

text \<open>A daemon that drops the first two connections.\<close>

definition toy_flaky :: "(toy_disk, path) fs" where
  "toy_flaky = fs_new (toy_client (\<lambda>k. toy_peer None (if k < 2 then [] else [''O'']))) []"

lemma toy_prompt: "prompt toy_ext (toy_conn [''O''])"
  using toy_answer [of "CHR ''O''" "[]" "toy_conn [''O'']" "toy_reply CHR ''O''"] toy_ready_conn [of "''O''"]
  by (auto simp: prompt_def)

lemma toy_flaky_settled: "fs_settled toy_sys 2 toy_flaky"
  using toy_prompt
  by (auto simp: fs_settled_def settled_def toy_flaky_def fs_new_def toy_client_def toy_net_def toy_sys_def toy_cfg_def
      open_conn_def andthen_Inr simple_Some connect_Some toy_peer_def)

theorem every_request_ends_witness:
  "\<exists>s'. serve_all toy_sys [Lookup ROOT_INODE ''k'', Getattr ROOT_INODE, Readdir ROOT_INODE 0] toy_flaky = Some s'"
  by (rule every_request_ends [OF toy.waits toy_flaky_settled])

end
