(* ===== verification/RunView.thy ===== *)
theory RunView
  imports Run FuseLive
begin

text \<open>
  What the program mounts: the file system of a session (\<^verbatim>\<open>mount/src/run.rs\<close>) is one of those that the
  theories of the file system and of the refresh task speak of.
\<close>

text \<open>The file system of a session is a fresh one on a connection that was made for the session's
  credentials, and it is kept fresh by the refresh task.\<close>

definition view_good :: "('k, 'd, 'f) world \<Rightarrow> ipc_auth \<Rightarrow> path \<Rightarrow> ('d, 'f) refresh \<Rightarrow> bool" where
  "view_good w auth cache r \<longleftrightarrow> keep_view_fresh (mount_sys w auth) auth DEFAULT_RETRY_INTERVAL r \<and>
     cache_root (view r) = Some cache \<and>
     (\<exists>n n' c. connect_auth (lib (w_sys w)) auth n = Some (Inr c, n') \<and> inner (ipc (view r)) = Some c)"

text \<open>The client of a session waits between its attempts, so every request that the session serves returns once
  the connections get better.\<close>

interpretation session_client: waiting_client "mount_sys w auth" for w auth
  by unfold_locales (simp add: mount_sys_def DEFAULT_RETRY_INTERVAL_def)

definition has_mounted :: "milestone list \<Rightarrow> bool" where
  "has_mounted ms \<longleftrightarrow> (\<exists>m opts. Mounted m opts \<in> set ms)"

definition mount_ready :: "('k, 'd, 'f) world \<Rightarrow> ipc_auth \<Rightarrow> path \<Rightarrow> ('k, 'd, 'f) run_state \<Rightarrow> bool" where
  "mount_ready w auth cache s \<longleftrightarrow> (case r_view s of None \<Rightarrow> \<not> has_mounted (milestones s) | Some r \<Rightarrow> view_good w auth cache r)"

named_theorems keeps_ready \<open>steps of the startup\<close>

lemma ready_reached [keeps_ready]:
  "(\<And>p opts. m \<noteq> Mounted p opts) \<Longrightarrow> keeps (mount_ready w auth cache) (reached m)"
  by (auto simp: keeps_def reached_def modify_def mount_ready_def has_mounted_def split: option.splits)

lemma ready_simple [keeps_ready]:
  "keeps (mount_ready w auth cache) (on_net m)" "keeps (mount_ready w auth cache) (from_step f q)"
  by (auto simp: keeps_def on_net_def zoom_def from_step_def throw_def ret_def mount_ready_def has_mounted_def
      split: Option.bind_splits sum.splits option.splits)

lemma ready_startup: "keeps (mount_ready w auth cache) (startup_connect w i auth')"
  unfolding startup_connect_def by (intro keeps_ready keeps_rules) simp

lemma ready_recover: "keeps (mount_ready w auth cache) (recover w c conn)"
  by (auto simp: keeps_def recover_def reached_def modify_def mount_ready_def has_mounted_def Let_def
      split: Option.bind_splits sum.splits option.splits)

lemma view_good_fresh:
  assumes "rc_connect_auth (lib (w_sys w)) auth n = Some (Inr (cfg, c), n')"
  shows "view_good w auth cache \<lparr>subscription = sub_start k [], view = with_cache_root cache (fs_new c d), applied = []\<rparr>"
proof -
  obtain conn where "connect_auth (lib (w_sys w)) auth n = Some (Inr conn, n')" "inner c = Some conn"
    using assms by (auto simp: rc_connect_auth_def rc_connect_auth_with_def connect_inner_def open_conn_def Let_def
        andthen_Inr ret_def split: Option.bind_splits sum.splits)
  moreover have "reachable (mount_sys w auth) (\<lambda>_. True) (with_cache_root cache (fs_new c d))"
    by (intro reachable.rooted reachable.mounted)
  ultimately show ?thesis
    by (auto simp: view_good_def with_cache_root_def fs_new_def intro!: keep_view_fresh.spawned)
qed

lemma make_fs_ready:
  assumes "make_fs w i cache auth s = Some (r, s')" and "mount_ready w auth cache s"
  shows "mount_ready w auth cache s' \<and> (isl r \<or> r_view s' \<noteq> None)"
proof -
  consider (down) e where "r = Inl e" "map_err (connect_failed w i) (on_net (rc_connect_auth (lib (w_sys w)) auth)) s = Some (Inl e, s')"
    | (up) cfg c n' where "rc_connect_auth (lib (w_sys w)) auth (r_net s) = Some (Inr (cfg, c), n')"
        "r_view s' = Some \<lparr>subscription = sub_start n' [], view = with_cache_root cache (fs_new c (r_disk s)), applied = []\<rparr>"
    using assms(1) unfolding make_fs_def
    by (auto simp: andthen_Some on_net_def zoom_def reached_def modify_def split: Option.bind_splits)
  then show ?thesis
  proof cases
    case down
    then show ?thesis using keepsD [OF keeps_map_err [OF ready_simple(1)] assms(2)] by auto
  next
    case up
    then show ?thesis using view_good_fresh [OF up(1)] by (simp add: mount_ready_def)
  qed
qed

lemma serve_ready: "keeps (\<lambda>s. mount_ready w auth cache s \<and> r_view s \<noteq> None) (serve_until_stopped w' m)"
proof -
  have "keeps (\<lambda>s. mount_ready w auth cache s \<and> r_view s \<noteq> None) (reached x)" for x
    by (auto simp: keeps_def reached_def modify_def mount_ready_def split: option.splits)
  moreover have "keeps (\<lambda>s. mount_ready w auth cache s \<and> r_view s \<noteq> None) (from_step f q)" for f q
    by (auto simp: keeps_def from_step_def throw_def ret_def split: sum.splits)
  ultimately show ?thesis
    unfolding serve_until_stopped_def by (cases "w_stop w'") (auto intro!: keeps_rules)
qed

lemma session_ready:
  "keeps (mount_ready w auth cache) (andthen (recover w cache conn) (\<lambda>_. andthen (make_fs w i cache auth) (\<lambda>_. serve_until_stopped w m)))"
proof -
  have "keeps (mount_ready w auth cache) (andthen (make_fs w i cache auth) (\<lambda>_. serve_until_stopped w m))"
  proof (rule keepsI)
    fix s r s'
    assume "mount_ready w auth cache s" and "andthen (make_fs w i cache auth) (\<lambda>_. serve_until_stopped w m) s = Some (r, s')"
    then show "mount_ready w auth cache s'"
      using make_fs_ready keepsD [OF serve_ready] unfolding andthen_Some by (metis sum.disc(2))
  qed
  then show ?thesis by (intro keeps_andthen [OF ready_recover])
qed

lemma with_lock_ready:
  assumes "keeps (mount_ready w auth cache) body"
  shows "keeps (mount_ready w auth cache) (with_profile_lock w' lock body)"
proof (rule keepsI)
  fix s r s'
  assume ready: "mount_ready w auth cache s" and run: "with_profile_lock w' lock body s = Some (r, s')"
  show "mount_ready w auth cache s'"
  proof (cases lock)
    case None
    then show ?thesis using run keepsD [OF assms ready] by (simp add: with_profile_lock_def)
  next
    case (Some p)
    have locks: "mount_ready w auth cache (t\<lparr>r_locks := k\<rparr>) = mount_ready w auth cache t" for t k
      by (simp add: mount_ready_def split: option.splits)
    have body: "keeps (mount_ready w auth cache) (andthen (reached (Locked p)) (\<lambda>_. body))"
      by (intro keeps_rules ready_reached assms) simp
    have unlock: "mount_ready w auth cache (t\<lparr>r_locks := k, milestones := milestones t @ [Unlocked p]\<rparr>) = mount_ready w auth cache t" for t k
      by (simp add: mount_ready_def has_mounted_def split: option.splits)
    show ?thesis
      using run ready Some locks unlock
      by (auto simp: with_profile_lock_def split: prod.splits sum.splits Option.bind_splits dest: keepsD [OF body, rotated])
  qed
qed

lemma run_async_ready: "keeps (mount_ready w auth cache) (run_async w m i cache lock auth)"
  unfolding run_async_def by (intro keeps_rules ready_startup with_lock_ready session_ready)

lemma mounted_in_route:
  assumes "Mounted m opts \<in> set (route w m' lock k)"
  shows "m = m' \<and> opts = the_mount_options"
proof -
  have "Mounted m opts \<in> set (Connected # session_route w m') \<or>
      (\<exists>p. Mounted m opts \<in> set (Connected # Locked p # session_route w m'))"
    using assms by (auto simp: route_def split: option.splits if_splits dest: in_set_takeD)
  then show ?thesis by (auto simp: session_route_def ending_def split: stop_reason.splits)
qed



end
