(* ===== verification/FuseSessions.thy ===== *)
theory FuseSessions
  imports FuseListing
begin

unbundle bit_operations_syntax

text \<open>
  Opening a file, in its sections (\<^verbatim>\<open>open\<close> of \<^verbatim>\<open>mount/src/fuse_fs.rs\<close>): the request to the daemon, under the
  path that the inode has then, and the entry in the table of open files, after the answer. What a session
  of opening, writing and closing sends as a whole, and what a rename in the middle of an open does.
\<close>

section \<open>The sections of an open\<close>

definition open_request :: "('d, 'f) sys \<Rightarrow> nat \<Rightarrow> u32 \<Rightarrow> ('d, 'f, path \<times> string \<times> path) handler" where
  "open_request w inode flags =
     andthen (path_of_inode inode) (\<lambda>path.
     if path = '''' then throw EISDIR
     else
       andthen fresh_handle_number (\<lambda>n.
       let handle_id = handle_name (if wants_write flags then ''wh-'' else ''rh-'') n in
       andthen (register_open w flags path handle_id) (\<lambda>cache_path.
         ret (path, handle_id, cache_path))))"

definition open_install :: "('d, 'f) sys \<Rightarrow> nat \<Rightarrow> u32 \<Rightarrow> path \<times> string \<times> path \<Rightarrow> ('d, 'f, reply_open) handler" where
  "open_install w inode flags = (\<lambda>(path, handle_id, cache_path).
     let truncating = (wants_write flags \<and> flags AND O_TRUNC \<noteq> 0) in
     andthen (modify (\<lambda>s.
               if truncating then set_attr_of inode (truncated_attr (now_ms w s)) s
               else set_attr_of inode (\<lambda>a. a\<lparr>ca_is_hydrated := True, ca_remote_mtime_ms := None\<rparr>) s)) (\<lambda>_.
     andthen (map_err (\<lambda>_. EIO) (on_disk (open_cache w flags cache_path))) (\<lambda>file.
     andthen (if truncating then ret False
              else andthen (attempt (on_disk (os_len w file))) (\<lambda>meta s.
                case meta of
                  Inl _ \<Rightarrow> Some (Inr False, s)
                | Inr len \<Rightarrow>
                    Some (Inr (case map_of (attrs s) inode of Some a \<Rightarrow> ca_size a \<noteq> len | None \<Rightarrow> False),
                          set_attr_of inode (\<lambda>a. a\<lparr>ca_size := len\<rparr>) s))) (\<lambda>size_was_stale.
     andthen fresh_fh (\<lambda>fh.
     andthen (modify (\<lambda>s. s\<lparr>open_handles := AList.update fh
               \<lparr>oh_file = file, oh_handle_id = handle_id, oh_remote_path = path, oh_cache_path = cache_path,
                oh_dirty = truncating\<rparr> (open_handles s)\<rparr>)) (\<lambda>_.
       ret \<lparr>ro_fh = fh, ro_flags = if size_was_stale then FOPEN_DIRECT_IO else 0\<rparr>))))))"

lemma andthen_if: "andthen (if b then m else n) k = (if b then andthen m k else andthen n k)"
  by simp

lemma open_sections: "open_file w i flags = andthen (open_request w i flags) (open_install w i flags)"
  unfolding open_file_def open_request_def open_install_def Let_def register_open_def open_cache_def wants_write_def
  by (simp add: andthen_assoc andthen_if if_distrib [where f = "\<lambda>m. andthen m _"] cong: if_cong)

lemma open_request_Inr:
  assumes "open_request w i flags s = Some (Inr (p, hid, cp), s')"
  shows "path_for (paths s) i = Some p \<and> p \<noteq> '''' \<and> hid = opening_id flags s \<and>
    register_open w flags p hid (s\<lparr>next_handle_id := next_handle_id s + 1\<rparr>) = Some (Inr cp, s')"
  using assms unfolding open_request_def Let_def opening_id_def
  by (auto simp: andthen_Inr step_Some split: if_splits)

text \<open>The second section adds one handle, for the path of the first, and leaves paths, requests and the other
  handles alone.\<close>

lemma open_install_Inr:
  assumes "open_install w i flags (p, hid, cp) s = Some (Inr r, s')"
  shows "ro_fh r = next_fh s \<and> next_fh s' = next_fh s + 1 \<and> paths s' = paths s \<and> ipc s' = ipc s \<and>
    (\<exists>f. open_handles s' = AList.update (next_fh s) \<lparr>oh_file = f, oh_handle_id = hid, oh_remote_path = p,
       oh_cache_path = cp, oh_dirty = (wants_write flags \<and> flags AND O_TRUNC \<noteq> 0)\<rparr> (open_handles s))"
proof -
  have stat: "open_handles t' = open_handles t \<and> next_fh t' = next_fh t \<and> paths t' = paths t \<and> ipc t' = ipc t"
    if "(case meta of Inl _ \<Rightarrow> Some (Inr False, t)
      | Inr len \<Rightarrow> Some (Inr (case map_of (attrs t) i of Some a \<Rightarrow> ca_size a \<noteq> len | None \<Rightarrow> False),
          set_attr_of i (\<lambda>a. a\<lparr>ca_size := len\<rparr>) t)) = Some (Inr v, t')" for meta :: "io_err + u64" and v t t'
    using that by (auto simp: set_attr_of_def split: sum.splits)
  show ?thesis
    using assms unfolding open_install_def Let_def
    by (auto simp: andthen_Inr step_Some fresh_fh_def attempt_Some set_attr_of_def split: if_splits dest!: stat)
qed

section \<open>A rename in the middle\<close>

lemma register_open_same:
  assumes "register_open w flags p hid s = Some (r, s')"
  shows "\<exists>c. s' = s\<lparr>ipc := c\<rparr>"
  using assms unfolding register_open_def
  by (auto simp: map_err_def ipc_call_def zoom_def split: if_splits Option.bind_splits)

text \<open>C33. An open that is under way while its file is renamed ends with a handle for the old path: the rename
  moves the inode and the handles that are in the table, and the handle of the open is put there afterwards,
  under the path that was sent to the daemon. The inode has the new path, the handle the old one, so its
  upload at release names a path at which the file no longer is.\<close>

theorem open_misses_rename:
  assumes "fs_inv s" and "open_request w i flags s = Some (Inr (p, hid, cp), s1)"
    and "fuse_rename w j n k m s1 = Some (Inr (), s2)" and "open_install w i flags (p, hid, cp) s2 = Some (Inr r, s3)"
    and "path_for (paths s) j = Some op" and "path_for (paths s) k = Some np" and "below (child_path (lib w) op n) p"
  shows "path_for (paths s3) i = Some (rebase (child_path (lib w) op n) (child_path (lib w) np m) p) \<and>
    (\<exists>h. map_of (open_handles s3) (ro_fh r) = Some h \<and> oh_remote_path h = p \<and> oh_cache_path h = cp)"
proof -
  note req = open_request_Inr [OF assms(2)]
  obtain c where s1: "s1 = s\<lparr>next_handle_id := next_handle_id s + 1, ipc := c\<rparr>"
    using register_open_same req by fastforce
  have "path_for (paths s2) i = Some (rebase (child_path (lib w) op n) (child_path (lib w) np m) p)"
    by (rule rename_inode [OF _ assms(3) _ _ _ assms(7)]) (use assms(1,5,6) req s1 in simp_all)
  with open_install_Inr [OF assms(4)] show ?thesis by auto
qed

text \<open>The file k is opened for writing while it becomes z.\<close>

lemma toy_race:
  obtains s s1 s2 r s3 hid where "fs_inv s" "path_for (paths s) ROOT_INODE = Some ''''"
    "open_request toy_sys 3 2 s = Some (Inr (''/k'', hid, ''/c/k''), s1)"
    "fuse_rename toy_sys ROOT_INODE ''q'' ROOT_INODE ''z'' s1 = Some (Inr (), s2)"
    "open_install toy_sys 3 2 (''/k'', hid, ''/c/k'') s2 = Some (Inr r, s3)"
proof -
  obtain s where s: "toy_has_q ''OO'' s" "fs_inv s" using toy_has_q_exists by blast
  obtain c where up: "toy_up ''OO'' c s" using s(1) by (auto simp: toy_has_q_def)
  let ?s = "s\<lparr>next_handle_id := next_handle_id s + 1\<rparr>" and ?h = "opening_id 2 s"
  have up': "toy_up ''OO'' c ?s" using up by (simp add: toy_up_def)
  have call: "ipc_call (rc_open_read toy_ext toy_cfg ?h ''/k'') ?s =
      Some (Inr ''/c/k'', ?s\<lparr>ipc := toy_rc (toy_next (read_request ?h ''/k'') c)\<rparr>)"
    using toy_fs_open_read [OF up'] by simp
  let ?s1 = "?s\<lparr>ipc := toy_rc (toy_next (read_request ?h ''/k'') c)\<rparr>"
  have p: "path_for (paths s) 3 = Some ''/k''" "path_for (paths s) ROOT_INODE = Some ''''"
    using s by (auto simp: toy_has_q_def pm_inv_iff [OF fs_inv_paths [OF s(2)]])
  have w: "wants_write 2" "2 AND O_TRUNC = 0" by (simp_all add: wants_write_def O_ACCMODE_def O_RDWR_def O_TRUNC_def)
  have "open_request toy_sys 3 2 s = Some (Inr (''/k'', ?h, ''/c/k''), ?s1)"
    using p call w
    by (simp add: open_request_def path_of_inode_def andthen_def gets_def ok_or_def ret_def fresh_handle_number_def
        register_open_def map_err_def opening_id_def Let_def)
  moreover have q1: "toy_has_q ''O'' ?s1"
    using s(1) toy_ready_next [OF toy_upD(1) [OF up]] by (auto simp: toy_has_q_def toy_up_def)
  then obtain s2 where s2: "fuse_rename toy_sys ROOT_INODE ''q'' ROOT_INODE ''z'' ?s1 = Some (Inr (), s2)" "disk s2 = disk ?s1"
    using toy_rename by blast
  moreover from s2(2) have "disk s2 = [(''/c/k'', '''')]" using q1 by (simp add: toy_has_q_def)
  then have "\<exists>r s3. open_install toy_sys 3 2 (''/k'', ?h, ''/c/k'') s2 = Some (Inr r, s3)"
    using w by (simp add: open_install_def andthen_def attempt_def map_err_def on_disk_def open_cache_def toy_open_def fresh_fh_def modify_def ret_def Let_def set_attr_of_def
        toy_sys_def)
  ultimately show thesis using that s(2) p(2) by blast
qed

theorem open_misses_rename_witness:
  "\<exists>s s1 s2 r s3 hid h. open_request toy_sys 3 2 s = Some (Inr (''/k'', hid, ''/c/k''), s1) \<and>
     fuse_rename toy_sys ROOT_INODE ''q'' ROOT_INODE ''z'' s1 = Some (Inr (), s2) \<and>
     open_install toy_sys 3 2 (''/k'', hid, ''/c/k'') s2 = Some (Inr r, s3) \<and>
     path_for (paths s3) 3 = Some ''/z'' \<and> map_of (open_handles s3) (ro_fh r) = Some h \<and> oh_remote_path h = ''/k''"
proof -
  obtain s s1 s2 r s3 hid where t: "fs_inv s" "path_for (paths s) ROOT_INODE = Some ''''"
    "open_request toy_sys 3 2 s = Some (Inr (''/k'', hid, ''/c/k''), s1)"
    "fuse_rename toy_sys ROOT_INODE ''q'' ROOT_INODE ''z'' s1 = Some (Inr (), s2)"
    "open_install toy_sys 3 2 (''/k'', hid, ''/c/k'') s2 = Some (Inr r, s3)"
    by (rule toy_race)
  have names: "child_path (lib toy_sys) '''' ''q'' = ''/k''" "child_path (lib toy_sys) '''' ''z'' = ''/z''"
    "below ''/k'' ''/k''" "rebase ''/k'' ''/z'' ''/k'' = ''/z''"
    by (simp_all add: child_path_def toy_nfc_def slash_def rebase_def)
  have "path_for (paths s3) 3 = Some ''/z'' \<and> (\<exists>h. map_of (open_handles s3) (ro_fh r) = Some h \<and> oh_remote_path h = ''/k'')"
    using open_misses_rename [OF t(1,3,4,5,2,2)] names by auto
  with t show ?thesis by blast
qed

section \<open>A whole session\<close>

text \<open>C23. Editing a file sends what it must and nothing else: when a file is opened for writing without
  truncation, written to and released, the daemon gets the request to open it under the path of the inode
  (repeated while connections break), then the upload, once, of the cache file that the daemon itself named,
  provided it can be reached and the request is not too long, and then the close, all under one handle id;
  the handle is gone afterwards.\<close>

theorem edited_file_uploaded:
  assumes "open_file w i flags s = Some (Inr r, s1)" and "wants_write flags" and "flags AND O_TRUNC = 0"
    and "write_file w i (ro_fh r) off b s1 = Some (Inr n, s2)" and "release w (ro_fh r) s2 = Some (q, s3)"
    and "fresh_peers (ipc s)"
  shows "\<exists>p cp a c. let hid = opening_id flags s; up = upload_of hid p cp in
    path_for (paths s) i = Some p \<and> q = Inr () \<and> map_of (open_handles s3) (ro_fh r) = None \<and>
    sent s3 = sent s @ replicate (Suc a) (read_request hid p) @ (if deliverable w s2 up then [up] else []) @
      replicate c (close_request hid)"
proof -
  obtain p hid cp t where req: "open_request w i flags s = Some (Inr (p, hid, cp), t)"
    and inst: "open_install w i flags (p, hid, cp) t = Some (Inr r, s1)"
    using assms(1) unfolding open_sections by (auto simp: andthen_Inr)
  note r = open_request_Inr [OF req]
  have "register_open w flags p hid (s\<lparr>next_handle_id := next_handle_id s + 1\<rparr>) = Some (Inr cp, t)" using r by blast
  then have call: "ipc_call (rc_open_read (lib w) (rc w) hid p) (s\<lparr>next_handle_id := next_handle_id s + 1\<rparr>) = Some (Inr cp, t)"
    using assms(3) by (simp add: register_open_def)
  obtain k where t: "sent t = sent s @ replicate k (read_request hid p)" "k \<noteq> 0" "fresh_peers (ipc t)"
    using open_read_sends [OF call] assms(6) by auto
  obtain f where s1: "ro_fh r = next_fh t" "ipc s1 = ipc t"
    "map_of (open_handles s1) (ro_fh r) = Some \<lparr>oh_file = f, oh_handle_id = hid, oh_remote_path = p, oh_cache_path = cp, oh_dirty = False\<rparr>"
    using open_install_Inr [OF inst] assms(3) by auto
  from assms(4) have s2: "ipc s2 = ipc s1"
    "map_of (open_handles s2) (ro_fh r) = Some \<lparr>oh_file = f, oh_handle_id = hid, oh_remote_path = p, oh_cache_path = cp, oh_dirty = True\<rparr>"
    by (auto elim!: write_file_Inr simp: s1(3) set_attr_of_def)
  obtain c where "q = Inr ()" "map_of (open_handles s3) (ro_fh r) = None"
    "sent s3 = sent s2 @ (if deliverable w s2 (upload_of hid p cp) then [upload_of hid p cp] else []) @ replicate c (close_request hid)"
    using release_spec [OF assms(5)] s2 s1(2) t(3) by (auto simp: upload_of_handle)
  moreover obtain a where "k = Suc a" using t(2) by (cases k) auto
  ultimately show ?thesis
    using r t(1) s1(2) s2(1) by (auto simp: Let_def)
qed

text \<open>The file k is opened again, written to and released.\<close>

lemma toy_session:
  obtains s r s1 n s2 s3 where "path_for (paths s) 3 = Some ''/k''" "fresh_peers (ipc s)"
    "open_file toy_sys 3 2 s = Some (Inr r, s1)"
    "write_file toy_sys 3 (ro_fh r) 0 ''ab'' s1 = Some (Inr n, s2)" "release toy_sys (ro_fh r) s2 = Some (Inr (), s3)"
proof -
  obtain s where s: "toy_has_q ''OOO'' s" "fs_inv s" using toy_has_q_exists by blast
  obtain c where up: "toy_up ''OOO'' c s" using s(1) by (auto simp: toy_has_q_def)
  let ?s = "s\<lparr>next_handle_id := next_handle_id s + 1\<rparr>" and ?h = "opening_id 2 s"
  let ?c1 = "toy_next (read_request ?h ''/k'') c"
  let ?s1 = "?s\<lparr>ipc := toy_rc ?c1\<rparr>"
  have up': "toy_up ''OOO'' c ?s" using up by (simp add: toy_up_def)
  have call: "ipc_call (rc_open_read toy_ext toy_cfg ?h ''/k'') ?s = Some (Inr ''/c/k'', ?s1)"
    using toy_fs_open_read [OF up'] by simp
  have p: "path_for (paths s) 3 = Some ''/k''" using s by (auto simp: toy_has_q_def pm_inv_iff [OF fs_inv_paths [OF s(2)]])
  have w: "wants_write 2" "2 AND O_TRUNC = 0" by (simp_all add: wants_write_def O_ACCMODE_def O_RDWR_def O_TRUNC_def)
  have req: "open_request toy_sys 3 2 s = Some (Inr (''/k'', ?h, ''/c/k''), ?s1)"
    using p call w
    by (simp add: open_request_def path_of_inode_def andthen_def gets_def ok_or_def ret_def fresh_handle_number_def
        register_open_def map_err_def opening_id_def Let_def)
  have "disk ?s1 = [(''/c/k'', '''')]" using s(1) by (simp add: toy_has_q_def)
  then have "\<exists>r t. open_install toy_sys 3 2 (''/k'', ?h, ''/c/k'') ?s1 = Some (Inr r, t) \<and> disk t = [(''/c/k'', '''')] \<and>
      map_of (open_handles t) (ro_fh r) = Some \<lparr>oh_file = ''/c/k'', oh_handle_id = ?h, oh_remote_path = ''/k'',
        oh_cache_path = ''/c/k'', oh_dirty = False\<rparr> \<and> ipc t = ipc ?s1"
    using w by (simp add: open_install_def andthen_def attempt_def map_err_def on_disk_def open_cache_def toy_open_def fresh_fh_def
        modify_def ret_def Let_def set_attr_of_def toy_sys_def)
  then obtain r t where t: "open_install toy_sys 3 2 (''/k'', ?h, ''/c/k'') ?s1 = Some (Inr r, t)" "disk t = [(''/c/k'', '''')]"
    "map_of (open_handles t) (ro_fh r) = Some \<lparr>oh_file = ''/c/k'', oh_handle_id = ?h, oh_remote_path = ''/k'',
        oh_cache_path = ''/c/k'', oh_dirty = False\<rparr>" "ipc t = ipc ?s1"
    by blast
  have opened: "open_file toy_sys 3 2 s = Some (Inr r, t)" unfolding open_sections using req t(1) by (simp add: andthen_def)
  have "\<exists>n u. write_file toy_sys 3 (ro_fh r) 0 ''ab'' t = Some (Inr n, u) \<and> ipc u = ipc t"
    using t(2,3) by (simp add: write_file_def handle_of_def andthen_def gets_def ok_or_def ret_def map_err_def
        on_disk_def toy_write_def modify_def Let_def set_attr_of_def)
  then obtain n u where u: "write_file toy_sys 3 (ro_fh r) 0 ''ab'' t = Some (Inr n, u)" "ipc u = ipc t" by blast
  have upu: "toy_up ''OO'' ?c1 (u\<lparr>open_handles := hs\<rparr>)" for hs
    using u(2) t(4) toy_ready_next [OF toy_upD(1) [OF up]] by (simp add: toy_up_def)
  have "\<exists>v. release toy_sys (ro_fh r) u = Some (Inr (), v)"
  proof (cases "map_of (open_handles u) (ro_fh r)")
    case (Some h)
    let ?u = "u\<lparr>open_handles := AList.delete (ro_fh r) (open_handles u)\<rparr>"
    obtain q1 where up1: "upload_handle toy_sys (oh_handle_id h) (oh_remote_path h) (oh_cache_path h) ?u
        = Some (Inr ''/c/k'', ?u\<lparr>ipc := toy_rc (toy_next q1 ?c1)\<rparr>)"
      using toy_fs_open_write [OF upu] by blast
    obtain q2 where "close_jvm_handle toy_sys (oh_handle_id h) (?u\<lparr>ipc := toy_rc (toy_next q1 ?c1)\<rparr>)
        = Some (Inr (), ?u\<lparr>ipc := toy_rc (toy_next q2 (toy_next q1 ?c1))\<rparr>)"
      using toy_fs_close [OF toy_up_next [OF upu]] by fastforce
    moreover obtain q3 where "close_jvm_handle toy_sys (oh_handle_id h) ?u = Some (Inr (), ?u\<lparr>ipc := toy_rc (toy_next q3 ?c1)\<rparr>)"
      using toy_fs_close [OF upu] by blast
    ultimately show ?thesis using up1 Some
      by (cases "oh_dirty h") (simp_all add: release_def ignore_err_def andthen_def attempt_def ret_def modify_def gets_def)
  qed (simp add: release_def ret_def)
  then show thesis using that p toy_fresh [OF s(1)] opened u(1) by blast
qed

theorem edited_file_uploaded_witness:
  "\<exists>s r s1 n s2 s3 a us c. open_file toy_sys 3 2 s = Some (Inr r, s1) \<and>
     write_file toy_sys 3 (ro_fh r) 0 ''ab'' s1 = Some (Inr n, s2) \<and> release toy_sys (ro_fh r) s2 = Some (Inr (), s3) \<and>
     sent s3 = sent s @ replicate (Suc a) (read_request (opening_id 2 s) ''/k'') @ us @
       replicate c (close_request (opening_id 2 s))"
proof -
  obtain s r s1 n s2 s3 where t: "path_for (paths s) 3 = Some ''/k''" "fresh_peers (ipc s)"
    "open_file toy_sys 3 2 s = Some (Inr r, s1)" "write_file toy_sys 3 (ro_fh r) 0 ''ab'' s1 = Some (Inr n, s2)"
    "release toy_sys (ro_fh r) s2 = Some (Inr (), s3)"
    by (rule toy_session)
  have w: "wants_write 2" "2 AND O_TRUNC = 0" by (simp_all add: wants_write_def O_ACCMODE_def O_RDWR_def O_TRUNC_def)
  obtain a us c where "sent s3 = sent s @ replicate (Suc a) (read_request (opening_id 2 s) ''/k'') @ us @
       replicate c (close_request (opening_id 2 s))"
    using edited_file_uploaded [OF t(3) w t(4,5,2)] t(1) unfolding Let_def by auto
  with t show ?thesis by blast
qed

end
