(* ===== verification/Tasks.thy ===== *)
theory Tasks
  imports Prelude "HOL-Library.Multiset"
begin

text \<open>
  Programs that run beside each other. A \<open>task\<close> is a program cut into critical sections: what it does while
  it holds its locks is one section, which reads and writes the state at once; between two sections other
  tasks may run. \<open>alone\<close> runs a task without interference.
\<close>

datatype ('s, 'a) task = Done 'a | Section "'s \<Rightarrow> (('s, 'a) task \<times> 's) option"

primrec task_bind :: "('s, 'a) task \<Rightarrow> ('a \<Rightarrow> ('s, 'b) task) \<Rightarrow> ('s, 'b) task" where
  "task_bind (Done v) k = k v"
| "task_bind (Section f) k = Section (\<lambda>s. map_option (map_prod (\<lambda>t. task_bind t k) id) (f s))"

primrec alone :: "('s, 'a) task \<Rightarrow> 's \<Rightarrow> ('a \<times> 's) option" where
  "alone (Done v) = (\<lambda>s. Some (v, s))"
| "alone (Section f) = (\<lambda>s. Option.bind (map_option (map_prod alone id) (f s)) (\<lambda>(g, s'). g s'))"

definition sect :: "('s, 'e, 'a) prog \<Rightarrow> ('s, 'e + 'a) task" where
  "sect m = Section (\<lambda>s. map_option (\<lambda>(r, s'). (Done r, s')) (m s))"

definition then_do :: "('s, 'e + 'a) task \<Rightarrow> ('a \<Rightarrow> ('s, 'e + 'b) task) \<Rightarrow> ('s, 'e + 'b) task" where
  "then_do t k = task_bind t (\<lambda>r. case r of Inl e \<Rightarrow> Done (Inl e) | Inr v \<Rightarrow> k v)"

lemma task_induct [case_names Done Section]:
  assumes "\<And>v. P (Done v)" and "\<And>f. (\<And>s t s'. f s = Some (t, s') \<Longrightarrow> P t) \<Longrightarrow> P (Section f)"
  shows "P t"
proof (induction t)
  case (Section f)
  show ?case
  proof (rule assms(2))
    fix s u s'
    assume "f s = Some (u, s')"
    then have "Some (u, s') \<in> range f" by (metis rangeI)
    from Section [OF this] show "P u" by (simp add: prod_set_simps)
  qed
qed (rule assms(1))

lemma alone_bind: "alone (task_bind t k) s = Option.bind (alone t s) (\<lambda>(v, s'). alone (k v) s')"
  by (induction t arbitrary: s rule: task_induct)
    (auto simp: Option.bind_map_option split: Option.bind_split Option.bind_split_asm)

lemma alone_sect [simp]: "alone (sect m) = m"
  by (rule ext) (simp add: sect_def Option.map_option_case split: option.splits)


lemma alone_then [simp]: "alone (then_do t k) = andthen (alone t) (\<lambda>v. alone (k v))"
  by (rule ext) (simp add: then_do_def alone_bind andthen_def case_prod_beta sum.case_distrib [of alone] sum.case_distrib [of "\<lambda>f. f _"]
    cong: sum.case_cong)

lemma alone_if [simp]: "alone (if b then t else u) = (if b then alone t else alone u)"
  by simp


definition task_err :: "('e \<Rightarrow> 'e2) \<Rightarrow> ('s, 'e + 'a) task \<Rightarrow> ('s, 'e2 + 'a) task" where
  "task_err f t = task_bind t (\<lambda>r. Done (map_sum f id r))"

lemma alone_done [simp]: "alone (Done (Inr v)) = ret v" "alone (Done (Inl e)) = throw e"
  "alone (Done (res_or e x)) = ok_or e x"
  by (auto simp: ret_def throw_def ok_or_def res_or_def split: option.splits)

lemma alone_err [simp]: "alone (task_err f t) = map_err f (alone t)"
  by (rule ext) (auto simp: task_err_def alone_bind map_err_def split: Option.bind_splits sum.splits)


declare alone.simps [simp del]

lemma alone_case_option [simp]: "alone (case x of None \<Rightarrow> t | Some v \<Rightarrow> u v) = (case x of None \<Rightarrow> alone t | Some v \<Rightarrow> alone (u v))"
  and alone_case_sum [simp]: "alone (case y of Inl e \<Rightarrow> f e | Inr v \<Rightarrow> g v) = (case y of Inl e \<Rightarrow> alone (f e) | Inr v \<Rightarrow> alone (g v))"
  and alone_case_prod [simp]: "alone (case z of (a, b) \<Rightarrow> h a b) = (case z of (a, b) \<Rightarrow> alone (h a b))"
  by (simp_all split: option.splits sum.splits prod.splits)

lemma alone_Done_if: "alone (Done (if b then x else y)) = (if b then alone (Done x) else alone (Done y))"
  and alone_Done_option: "alone (Done (case z of None \<Rightarrow> x | Some v \<Rightarrow> f v)) = (case z of None \<Rightarrow> alone (Done x) | Some v \<Rightarrow> alone (Done (f v)))"
  and alone_Done_sum: "alone (Done (case q of Inl e \<Rightarrow> g e | Inr v \<Rightarrow> h v)) = (case q of Inl e \<Rightarrow> alone (Done (g e)) | Inr v \<Rightarrow> alone (Done (h v)))"
  and alone_Done_prod: "alone (Done (case r of (a, b) \<Rightarrow> k a b)) = (case r of (a, b) \<Rightarrow> alone (Done (k a b)))"
  by (simp_all split: option.splits sum.splits prod.splits)

lemmas alone_Done = alone_Done_if alone_Done_option alone_Done_sum alone_Done_prod

section \<open>Tasks beside each other\<close>

inductive pool_step :: "('s, 'a) task list \<times> 's \<Rightarrow> ('s, 'a) task list \<times> 's \<Rightarrow> bool" where
  "i < length ts \<Longrightarrow> ts ! i = Section f \<Longrightarrow> f s = Some (t, s') \<Longrightarrow> pool_step (ts, s) (ts[i := t], s')"

inductive_simps pool_step_iff: "pool_step (ts, s) (ts', s')"

text \<open>A task has finitely many sections left, so tasks beside each other come to an end, in whatever order
  they run.\<close>

definition later_part :: "(('s, 'a) task \<times> ('s, 'a) task) set" where
  "later_part = {(t, u). \<exists>f s s'. u = Section f \<and> f s = Some (t, s')}"

lemma later_part_wf: "wf (later_part :: (('s, 'a) task \<times> ('s, 'a) task) set)"
proof (rule wfUNIVI)
  fix P :: "('s, 'a) task \<Rightarrow> bool" and t
  assume *: "\<forall>x. (\<forall>y. (y, x) \<in> later_part \<longrightarrow> P y) \<longrightarrow> P x"
  show "P t"
    by (induction t rule: task_induct) (rule * [rule_format], fastforce simp: later_part_def)+
qed

lemma pool_ends: "wf {(c', c). pool_step (c :: ('s, 'a) task list \<times> 's) c'}"
proof (rule wf_subset)
  show "wf (inv_image (mult later_part) (\<lambda>(ts :: ('s, 'a) task list, s :: 's). mset ts))"
    by (intro wf_inv_image wf_mult later_part_wf)
  show "{(c', c). pool_step (c :: ('s, 'a) task list \<times> 's) c'} \<subseteq> inv_image (mult later_part) (\<lambda>(ts, s). mset ts)"
  proof clarify
    fix ts s ts' s'
    assume "pool_step (ts :: ('s, 'a) task list, s :: 's) (ts', s')"
    then obtain i f t where i: "i < length ts" "ts ! i = Section f" "f s = Some (t, s')" "ts' = ts[i := t]"
      by (auto simp: pool_step_iff)
    let ?M = "mset ts - {#ts ! i#}"
    have "ts ! i \<in># mset ts" using i(1) by simp
    then have "mset ts = add_mset (ts ! i) ?M" "mset ts' = ?M + {#t#}"
      using i(1,4) by (simp_all add: mset_update)
    moreover have "(?M + {#t#}, ?M + {#ts ! i#}) \<in> mult later_part"
      by (rule one_step_implies_mult) (use i in \<open>auto simp: later_part_def\<close>)
    ultimately show "((ts', s'), ts, s) \<in> inv_image (mult later_part) (\<lambda>(ts, s). mset ts)"
      by simp
  qed
qed

text \<open>A task whose sections return in every state of \<open>I\<close>, and keep \<open>I\<close>.\<close>

inductive goes_on :: "('s \<Rightarrow> bool) \<Rightarrow> ('s, 'a) task \<Rightarrow> bool" for I where
  finished: "goes_on I (Done v)"
| unfinished: "(\<And>s. I s \<Longrightarrow> \<exists>t s'. f s = Some (t, s') \<and> I s') \<Longrightarrow> (\<And>s t s'. f s = Some (t, s') \<Longrightarrow> goes_on I t) \<Longrightarrow>
      goes_on I (Section f)"

inductive_simps goes_on_section: "goes_on I (Section f)"

named_theorems goes_on_rules \<open>tasks whose sections return\<close>

lemma goes_on_Done [goes_on_rules]: "goes_on I (Done v)"
  by (rule goes_on.finished)

lemma goes_on_sect [goes_on_rules]: "ends I m \<Longrightarrow> goes_on I (sect m)"
  unfolding sect_def by (rule goes_on.unfinished) (force elim: endsE intro: goes_on.finished)+

lemma goes_on_bind: "goes_on I t \<Longrightarrow> (\<And>v. goes_on I (k v)) \<Longrightarrow> goes_on I (task_bind t k)"
proof (induction rule: goes_on.induct)
  case (unfinished f)
  then show ?case unfolding task_bind.simps by (intro goes_on.unfinished) fastforce+
qed simp

lemma goes_on_then [goes_on_rules]: "goes_on I t \<Longrightarrow> (\<And>v. goes_on I (k v)) \<Longrightarrow> goes_on I (then_do t k)"
  unfolding then_do_def by (rule goes_on_bind) (auto split: sum.splits intro: goes_on.finished)

lemma goes_on_err [goes_on_rules]: "goes_on I t \<Longrightarrow> goes_on I (task_err g t)"
  unfolding task_err_def by (rule goes_on_bind) (auto intro: goes_on.finished)

lemma goes_on_if [goes_on_rules]: "(b \<Longrightarrow> goes_on I t) \<Longrightarrow> (\<not> b \<Longrightarrow> goes_on I u) \<Longrightarrow> goes_on I (if b then t else u)"
  and goes_on_option [goes_on_rules]: "(x = None \<Longrightarrow> goes_on I t) \<Longrightarrow> (\<And>v. x = Some v \<Longrightarrow> goes_on I (h v)) \<Longrightarrow>
    goes_on I (case x of None \<Rightarrow> t | Some v \<Rightarrow> h v)"
  and goes_on_sum [goes_on_rules]: "(\<And>e. y = Inl e \<Longrightarrow> goes_on I (p e)) \<Longrightarrow> (\<And>v. y = Inr v \<Longrightarrow> goes_on I (q v)) \<Longrightarrow>
    goes_on I (case y of Inl e \<Rightarrow> p e | Inr v \<Rightarrow> q v)"
  and goes_on_prod [goes_on_rules]: "(\<And>a b. z = (a, b) \<Longrightarrow> goes_on I (r a b)) \<Longrightarrow> goes_on I (case z of (a, b) \<Rightarrow> r a b)"
  by (auto split: option.splits sum.splits prod.splits)

lemma pool_step_goes_on:
  assumes "pool_step (ts, s) (ts', s')" and "\<forall>t \<in> set ts. goes_on I t"
  shows "(\<forall>t \<in> set ts'. goes_on I t) \<and> (I s \<longrightarrow> I s')"
proof -
  from assms(1) obtain i f t where i: "i < length ts" "ts ! i = Section f" "f s = Some (t, s')" "ts' = ts[i := t]"
    by (auto simp: pool_step_iff)
  then have "goes_on I (Section f)" using assms(2) by (metis nth_mem)
  then have "goes_on I t" "I s \<longrightarrow> I s'" using i(3) by (auto simp: goes_on_section)
  then show ?thesis using assms(2) i(4) set_update_subset_insert [of ts i t] by auto
qed

lemma pool_goes_on:
  "pool_step\<^sup>*\<^sup>* (ts, s) (ts', s') \<Longrightarrow> \<forall>t \<in> set ts. goes_on I t \<Longrightarrow> I s \<Longrightarrow> (\<forall>t \<in> set ts'. goes_on I t) \<and> I s'"
  by (induction rule: rtranclp_induct2) (auto dest: pool_step_goes_on)

lemma pool_stuck:
  assumes "I s" and "\<forall>t \<in> set ts. goes_on I t"
  shows "(\<forall>t \<in> set ts. \<exists>v. t = Done v) \<or> (\<exists>c. pool_step (ts, s) c)"
proof (cases "\<forall>t \<in> set ts. \<exists>v. t = Done v")
  case False
  then obtain i where i: "i < length ts" "\<forall>v. ts ! i \<noteq> Done v" by (auto simp: in_set_conv_nth)
  then obtain f where f: "ts ! i = Section f" by (cases "ts ! i") auto
  with assms i(1) have "goes_on I (Section f)" by (metis nth_mem)
  with assms(1) obtain t s' where "f s = Some (t, s')" by (auto simp: goes_on_section)
  with i f show ?thesis by (blast intro: pool_step.intros)
qed simp

end
