(* ===== verification/FuseSections.thy ===== *)
theory FuseSections
  imports FuseHandles FuseListing Tasks
begin

unbundle bit_operations_syntax

text \<open>
  The request handlers of \<^verbatim>\<open>mount/src/fuse_fs.rs\<close>, cut into their critical sections. The handlers run
  concurrently; each field of the file system has a lock of its own, and a section is what a handler does
  between taking its locks and letting them go: a request to the daemon, an access to a table, an operation
  on the disk. Locks are only nested where both are taken at once (paths, then attributes), so the sections
  are atomic. Run without interference the sections are the handlers of \<open>FuseOps\<close>
  (\<open>sections_serial\<close>).
\<close>

type_synonym ('d, 'f, 'e, 'a) fs_task = "(('d, 'f) fs, 'e + 'a) task"

definition path_section :: "nat \<Rightarrow> ('d, 'f, errno, path) fs_task" where
  "path_section ino = sect (path_of_inode ino)"

definition name_check :: "string \<Rightarrow> ('d, 'f, errno, string) fs_task" where
  "name_check name = Done (res_or EINVAL (os_to_str name))"

section \<open>Listing and attributes\<close>

definition populate_task :: "('d, 'f) sys \<Rightarrow> path \<Rightarrow> ('d, 'f, ipc_error, (nat \<times> list_entry) list) fs_task" where
  "populate_task w prefix =
     then_do (sect (ipc_call (rc_list (lib w) (rc w) prefix))) (\<lambda>entries.
     then_do (sect (\<lambda>s. let (representable, s1) = quarantine entries s in Some (Inr representable, s1))) (\<lambda>representable.
       sect (\<lambda>s. let (out, s2) = intern_entries representable s in Some (Inr out, s2))))"

definition fetch_task :: "('d, 'f) sys \<Rightarrow> nat \<Rightarrow> ('d, 'f, errno, cached_attr) fs_task" where
  "fetch_task w inode =
     (if inode = ROOT_INODE then Done (Inr root_attr)
      else then_do (sect (gets (\<lambda>s. map_of (attrs s) inode))) (\<lambda>cached.
        case cached of
          Some a \<Rightarrow> Done (Inr a)
        | None \<Rightarrow>
            then_do (sect (path_of_inode inode)) (\<lambda>path.
            then_do (task_err ipc_error_to_errno (populate_task w (parent_prefix path))) (\<lambda>_.
              sect (andthen (gets (\<lambda>s. map_of (attrs s) inode)) (ok_or ENOENT))))))"

definition dotdot_task :: "nat \<Rightarrow> path \<Rightarrow> ('d, 'f, errno, nat) fs_task" where
  "dotdot_task dir_inode dir_path =
     (if dir_inode = ROOT_INODE then Done (Inr ROOT_INODE) else sect (dotdot_inode dir_inode dir_path))"

definition refuse_task :: "('d, 'f) sys \<Rightarrow> path \<Rightarrow> path \<Rightarrow> string \<Rightarrow> ('d, 'f, errno, unit) fs_task" where
  "refuse_task w parent_path cp name =
     then_do (sect (gets (\<lambda>s. visible_name s cp))) (\<lambda>visible.
       if visible = name then Done (Inr ())
       else
         then_do (sect (gets (\<lambda>s. inode_for (paths s) cp))) (\<lambda>ino.
         then_do (case ino of
                    Some ino \<Rightarrow> sect (gets (\<lambda>s. map_of (attrs s) ino \<noteq> None))
                  | None \<Rightarrow> Done (Inr False)) (\<lambda>cached.
         then_do (if cached then Done (Inr True)
                  else then_do (task_err ipc_error_to_errno (populate_task w parent_path)) (\<lambda>listed.
                    Done (Inr (list_ex (\<lambda>(_, e). le_path e = cp) listed)))) (\<lambda>exists.
           Done (if \<not> exists then Inr () else Inl EEXIST)))))"

definition lookup_task :: "('d, 'f) sys \<Rightarrow> nat \<Rightarrow> string \<Rightarrow> ('d, 'f, errno, reply_entry) fs_task" where
  "lookup_task w parent name =
     then_do (name_check name) (\<lambda>name.
     then_do (path_section parent) (\<lambda>parent_path.
     let cp = child_path (lib w) parent_path name;
         from_list = then_do (task_err ipc_error_to_errno (populate_task w parent_path)) (\<lambda>listed.
           Done (case find (\<lambda>(_, e). le_path e = cp) listed of
             Some (ino, e) \<Rightarrow> Inr (entry_reply w ino (attr_of_entry e))
           | None \<Rightarrow> Inl ENOENT))
     in
     then_do (sect (gets (\<lambda>s. visible_name s cp))) (\<lambda>visible.
       if visible \<noteq> name then Done (Inl ENOENT)
       else
         then_do (sect (gets (\<lambda>s. inode_for (paths s) cp))) (\<lambda>cached.
           case cached of
             None \<Rightarrow> from_list
           | Some ino \<Rightarrow>
               then_do (sect (gets (\<lambda>s. map_of (attrs s) ino))) (\<lambda>a.
                 case a of
                   Some a \<Rightarrow> Done (Inr (entry_reply w ino a))
                 | None \<Rightarrow> from_list)))))"

definition getattr_task :: "('d, 'f) sys \<Rightarrow> nat \<Rightarrow> ('d, 'f, errno, reply_attr) fs_task" where
  "getattr_task w inode =
     then_do (fetch_task w inode) (\<lambda>a.
       Done (Inr \<lparr>ra_ttl_secs = 1, ra_attr = file_attr_from_cached w inode a\<rparr>))"

section \<open>Files\<close>

definition open_task :: "('d, 'f) sys \<Rightarrow> nat \<Rightarrow> u32 \<Rightarrow> ('d, 'f, errno, reply_open) fs_task" where
  "open_task w inode flags =
     then_do (path_section inode) (\<lambda>path.
     if path = '''' then Done (Inl EISDIR)
     else
       let truncating = (wants_write flags \<and> flags AND O_TRUNC \<noteq> 0) in
       then_do (sect fresh_handle_number) (\<lambda>n.
       let handle_id = handle_name (if wants_write flags then ''wh-'' else ''rh-'') n in
       then_do (sect (register_open w flags path handle_id)) (\<lambda>cache_path.
       then_do (sect (modify (\<lambda>s.
                 if truncating then set_attr_of inode (truncated_attr (now_ms w s)) s
                 else set_attr_of inode (\<lambda>a. a\<lparr>ca_is_hydrated := True, ca_remote_mtime_ms := None\<rparr>) s))) (\<lambda>_.
       then_do (sect (map_err (\<lambda>_. EIO) (on_disk (open_cache w flags cache_path)))) (\<lambda>file.
       then_do (if truncating then Done (Inr False)
                else then_do (sect (attempt (on_disk (os_len w file)))) (\<lambda>meta.
                  case meta of
                    Inl _ \<Rightarrow> Done (Inr False)
                  | Inr len \<Rightarrow> sect (\<lambda>s.
                      Some (Inr (case map_of (attrs s) inode of Some a \<Rightarrow> ca_size a \<noteq> len | None \<Rightarrow> False),
                            set_attr_of inode (\<lambda>a. a\<lparr>ca_size := len\<rparr>) s)))) (\<lambda>size_was_stale.
       then_do (sect fresh_fh) (\<lambda>fh.
       then_do (sect (modify (\<lambda>s. s\<lparr>open_handles := AList.update fh
                 \<lparr>oh_file = file, oh_handle_id = handle_id, oh_remote_path = path, oh_cache_path = cache_path,
                  oh_dirty = truncating\<rparr> (open_handles s)\<rparr>))) (\<lambda>_.
         Done (Inr \<lparr>ro_fh = fh, ro_flags = if size_was_stale then FOPEN_DIRECT_IO else 0\<rparr>)))))))))"

definition write_task :: "('d, 'f) sys \<Rightarrow> nat \<Rightarrow> nat \<Rightarrow> u64 \<Rightarrow> string \<Rightarrow> ('d, 'f, errno, u32) fs_task" where
  "write_task w inode fh offset data =
     then_do (sect (andthen (handle_of fh) (\<lambda>h.
       andthen (map_err (\<lambda>_. EIO) (on_disk (os_write_at w (oh_file h) data offset))) (\<lambda>n.
       andthen (modify (set_handle fh (\<lambda>h. h\<lparr>oh_dirty := True\<rparr>))) (\<lambda>_. ret n))))) (\<lambda>n.
     let new_end = offset + of_nat n in
     then_do (sect (modify (\<lambda>s. set_attr_of inode (\<lambda>a.
               a\<lparr>ca_size := max (ca_size a) new_end, ca_mtime_ms := now_ms w s, ca_remote_mtime_ms := None\<rparr>) s))) (\<lambda>_.
       Done (Inr (of_nat n))))"

definition fsync_task :: "('d, 'f) sys \<Rightarrow> nat \<Rightarrow> bool \<Rightarrow> ('d, 'f, errno, unit) fs_task" where
  "fsync_task w fh datasync =
     then_do (sect (andthen (handle_of fh) (\<lambda>h.
       andthen (map_err (\<lambda>_. EIO)
         (on_disk (if datasync then os_sync_data w (oh_file h) else os_sync_all w (oh_file h)))) (\<lambda>_.
       andthen (modify (set_handle fh (\<lambda>h. h\<lparr>oh_dirty := False\<rparr>))) (\<lambda>_. ret h))))) (\<lambda>h.
     if \<not> oh_dirty h then Done (Inr ())
     else
       then_do (sect (attempt (upload_handle w (oh_handle_id h) (oh_remote_path h) (oh_cache_path h)))) (\<lambda>upload.
         case upload of
           Inl e \<Rightarrow> then_do (sect (modify (set_handle fh (\<lambda>h. h\<lparr>oh_dirty := True\<rparr>)))) (\<lambda>_.
             Done (Inl (ipc_error_to_errno e)))
         | Inr _ \<Rightarrow> Done (Inr ())))"

definition take_handle :: "nat \<Rightarrow> ('d, 'f, 'f open_handle option) handler" where
  "take_handle fh = (\<lambda>s. Some (Inr (map_of (open_handles s) fh), s\<lparr>open_handles := AList.delete fh (open_handles s)\<rparr>))"

definition close_task :: "('d, 'f) sys \<Rightarrow> 'f open_handle \<Rightarrow> bool \<Rightarrow> ('d, 'f, errno, unit) fs_task" where
  "close_task w h upload =
     then_do (if upload
              then sect (ignore_err (upload_handle w (oh_handle_id h) (oh_remote_path h) (oh_cache_path h)))
              else Done (Inr ())) (\<lambda>_.
       sect (ignore_err (close_jvm_handle w (oh_handle_id h))))"

definition release_task :: "('d, 'f) sys \<Rightarrow> nat \<Rightarrow> ('d, 'f, errno, unit) fs_task" where
  "release_task w fh =
     then_do (sect (take_handle fh)) (\<lambda>removed.
       case removed of
         None \<Rightarrow> Done (Inr ())
       | Some h \<Rightarrow> close_task w h (oh_dirty h))"


section \<open>Directories and names\<close>

definition shown_entries :: "(path, string) hashmap \<Rightarrow> nat \<Rightarrow> nat \<Rightarrow> (nat \<times> list_entry) list \<Rightarrow> dir_entry list" where
  "shown_entries raw parent dotdot listed =
     [\<lparr>de_inode = parent, de_kind = Directory, de_name = ''.'', de_offset = 1\<rparr>,
      \<lparr>de_inode = dotdot, de_kind = Directory, de_name = ''..'', de_offset = 2\<rparr>] @
     map (\<lambda>(i, (ino, e)). \<lparr>de_inode = ino, de_kind = kind_of e, de_name = shown_name raw e,
                           de_offset = int i + 3\<rparr>) (enumerate 0 listed)"

definition readdir_task :: "('d, 'f) sys \<Rightarrow> nat \<Rightarrow> int \<Rightarrow> ('d, 'f, errno, dir_entry list) fs_task" where
  "readdir_task w parent offset =
     then_do (path_section parent) (\<lambda>parent_path.
     then_do (task_err ipc_error_to_errno (populate_task w parent_path)) (\<lambda>listed.
     then_do (dotdot_task parent parent_path) (\<lambda>dotdot.
     then_do (sect (gets raw_names)) (\<lambda>raw.
       Done (Inr (drop (nat (max offset 0)) (shown_entries raw parent dotdot listed)))))))"

definition shown_entries_plus :: "('d, 'f) sys \<Rightarrow> (path, string) hashmap \<Rightarrow> nat \<Rightarrow> cached_attr \<Rightarrow> nat \<Rightarrow>
    (nat \<times> list_entry) list \<Rightarrow> dir_entry_plus list" where
  "shown_entries_plus w raw parent parent_attr dotdot listed =
     [\<lparr>de_inode = parent, de_kind = Directory, de_name = ''.'', de_offset = 1,
       dp_attr = file_attr_from_cached w parent parent_attr\<rparr>,
      \<lparr>de_inode = dotdot, de_kind = Directory, de_name = ''..'', de_offset = 2,
       dp_attr = file_attr_from_cached w dotdot parent_attr\<rparr>] @
     map (\<lambda>(i, (ino, e)). \<lparr>de_inode = ino, de_kind = kind_of e, de_name = shown_name raw e,
                           de_offset = int i + 3,
                           dp_attr = file_attr_from_cached w ino (attr_of_entry e)\<rparr>) (enumerate 0 listed)"

definition readdirplus_task :: "('d, 'f) sys \<Rightarrow> nat \<Rightarrow> u64 \<Rightarrow> ('d, 'f, errno, dir_entry_plus list) fs_task" where
  "readdirplus_task w parent offset =
     then_do (path_section parent) (\<lambda>parent_path.
     then_do (task_err ipc_error_to_errno (populate_task w parent_path)) (\<lambda>listed.
     then_do (fetch_task w parent) (\<lambda>parent_attr.
     then_do (dotdot_task parent parent_path) (\<lambda>dotdot.
     then_do (sect (gets raw_names)) (\<lambda>raw.
       Done (Inr (drop (unat offset) (shown_entries_plus w raw parent parent_attr dotdot listed))))))))"

text \<open>A new entry in its sections: interned, named, cached.\<close>

definition intern_section :: "path \<Rightarrow> ('d, 'f, errno, nat) fs_task" where
  "intern_section cp = sect (\<lambda>s. let (ino, m) = pm_intern (paths s) cp in Some (Inr ino, s\<lparr>paths := m\<rparr>))"

definition new_entry_task :: "('d, 'f) sys \<Rightarrow> path \<Rightarrow> string \<Rightarrow> (int \<Rightarrow> cached_attr) \<Rightarrow>
    ('d, 'f, errno, nat \<times> cached_attr) fs_task" where
  "new_entry_task w cp name mk =
     then_do (intern_section cp) (\<lambda>ino.
     then_do (sect (modify (record_raw_name w cp name))) (\<lambda>_.
     then_do (sect (gets (now_ms w))) (\<lambda>now.
     then_do (sect (modify (\<lambda>s. s\<lparr>attrs := AList.update ino (mk now) (attrs s)\<rparr>))) (\<lambda>_.
       Done (Inr (ino, mk now))))))"

definition mkdir_task :: "('d, 'f) sys \<Rightarrow> nat \<Rightarrow> string \<Rightarrow> ('d, 'f, errno, reply_entry) fs_task" where
  "mkdir_task w parent_inode name =
     then_do (name_check name) (\<lambda>name.
     then_do (path_section parent_inode) (\<lambda>parent_path.
     let cp = child_path (lib w) parent_path name in
     then_do (refuse_task w parent_path cp name) (\<lambda>_.
     then_do (sect (map_err namespace_err_to_errno (ipc_call (rc_mkdir (lib w) (rc w) cp)))) (\<lambda>_.
     then_do (new_entry_task w cp name (\<lambda>now. \<lparr>ca_size = 0, ca_mtime_ms = now, ca_remote_mtime_ms = None,
         ca_is_folder = True, ca_is_hydrated = False, ca_pending_upload = False\<rparr>)) (\<lambda>(ino, cached).
       Done (Inr (entry_reply w ino cached)))))))"

definition create_internal_task :: "('d, 'f) sys \<Rightarrow> nat \<Rightarrow> string \<Rightarrow> ('d, 'f, errno, nat \<times> file_attr \<times> nat) fs_task" where
  "create_internal_task w parent_inode name =
     then_do (name_check name) (\<lambda>name.
     then_do (path_section parent_inode) (\<lambda>parent_path.
     let cp = child_path (lib w) parent_path name in
     then_do (refuse_task w parent_path cp name) (\<lambda>_.
     then_do (sect fresh_handle_number) (\<lambda>n.
     then_do (sect (map_err namespace_err_to_errno (ipc_call (rc_create (lib w) (rc w) (handle_name ''create-'' n) cp)))) (\<lambda>reply.
     then_do (sect (map_err (\<lambda>_. EIO) (on_disk (os_open_create w (cr_cache_path reply))))) (\<lambda>file.
     then_do (new_entry_task w cp name (\<lambda>now. \<lparr>ca_size = 0, ca_mtime_ms = now, ca_remote_mtime_ms = None,
         ca_is_folder = False, ca_is_hydrated = True, ca_pending_upload = True\<rparr>)) (\<lambda>(ino, cached).
     then_do (sect fresh_fh) (\<lambda>fh.
     then_do (sect (modify (\<lambda>s. s\<lparr>open_handles := AList.update fh
         \<lparr>oh_file = file, oh_handle_id = cr_handle_id reply, oh_remote_path = cp,
          oh_cache_path = cr_cache_path reply, oh_dirty = True\<rparr> (open_handles s)\<rparr>))) (\<lambda>_.
       Done (Inr (fh, file_attr_from_cached w ino cached, ino)))))))))))"

definition create_task :: "('d, 'f) sys \<Rightarrow> nat \<Rightarrow> string \<Rightarrow> ('d, 'f, errno, reply_created) fs_task" where
  "create_task w parent_inode name =
     then_do (create_internal_task w parent_inode name) (\<lambda>(fh, attr, new_ino).
       Done (Inr \<lparr>rcr_attr = attr, rcr_fh = fh, rcr_flags = 0\<rparr>))"

definition mknod_task :: "('d, 'f) sys \<Rightarrow> nat \<Rightarrow> string \<Rightarrow> u32 \<Rightarrow> ('d, 'f, errno, reply_entry) fs_task" where
  "mknod_task w parent_inode name mode =
     (let typ = mode AND S_IFMT in
      if typ \<noteq> 0 \<and> typ \<noteq> S_IFREG then Done (Inl EPERM)
      else
        then_do (create_internal_task w parent_inode name) (\<lambda>(fh, attr, new_ino).
        then_do (sect (take_handle fh)) (\<lambda>removed.
        then_do (case removed of None \<Rightarrow> Done (Inr ()) | Some h \<Rightarrow> close_task w h True) (\<lambda>_.
          Done (Inr \<lparr>re_ttl_secs = 1, re_attr = attr, re_generation = 0\<rparr>)))))"

definition forget_task :: "path \<Rightarrow> ('d, 'f, errno, unit) fs_task" where
  "forget_task cp =
     then_do (sect (\<lambda>s. let (ino, m) = pm_forget (paths s) cp in Some (Inr ino, s\<lparr>paths := m\<rparr>))) (\<lambda>ino.
     then_do (sect (modify (forget_raw_names cp))) (\<lambda>_.
       case ino of
         Some inode \<Rightarrow> sect (modify (\<lambda>s. s\<lparr>attrs := AList.delete inode (attrs s)\<rparr>))
       | None \<Rightarrow> Done (Inr ())))"

definition unlink_task :: "('d, 'f) sys \<Rightarrow> nat \<Rightarrow> string \<Rightarrow> ('d, 'f, errno, unit) fs_task" where
  "unlink_task w parent_inode name =
     then_do (name_check name) (\<lambda>name.
     then_do (path_section parent_inode) (\<lambda>parent_path.
     let cp = child_path (lib w) parent_path name in
     then_do (sect (map_err namespace_err_to_errno (ipc_call (rc_unlink (lib w) (rc w) cp)))) (\<lambda>_.
     then_do (forget_task cp) (\<lambda>_. sect (evict (os_remove_file w) cp)))))"

definition rmdir_task :: "('d, 'f) sys \<Rightarrow> nat \<Rightarrow> string \<Rightarrow> ('d, 'f, errno, unit) fs_task" where
  "rmdir_task w parent_inode name =
     then_do (name_check name) (\<lambda>name.
     then_do (path_section parent_inode) (\<lambda>parent_path.
     let cp = child_path (lib w) parent_path name in
     then_do (sect (map_err namespace_err_to_errno (ipc_call (rc_rmdir (lib w) (rc w) cp)))) (\<lambda>_.
     then_do (forget_task cp) (\<lambda>_. sect (evict (os_remove_dir_all w) cp)))))"

definition rename_task :: "('d, 'f) sys \<Rightarrow> nat \<Rightarrow> string \<Rightarrow> nat \<Rightarrow> string \<Rightarrow> ('d, 'f, errno, unit) fs_task" where
  "rename_task w old_parent_inode old_name new_parent_inode new_name =
     then_do (name_check old_name) (\<lambda>old_name.
     then_do (name_check new_name) (\<lambda>new_name.
     then_do (sect (andthen (path_of_inode old_parent_inode) (\<lambda>old_parent.
       andthen (path_of_inode new_parent_inode) (\<lambda>new_parent. ret (old_parent, new_parent))))) (\<lambda>(old_parent, new_parent).
     let old_path = child_path (lib w) old_parent old_name;
         new_path = child_path (lib w) new_parent new_name in
     then_do (refuse_task w new_parent new_path new_name) (\<lambda>_.
     then_do (sect (map_err namespace_err_to_errno (ipc_call (rc_rename (lib w) (rc w) old_path new_path)))) (\<lambda>_.
     then_do (sect (modify (\<lambda>s. s\<lparr>paths := pm_rename (paths s) old_path new_path\<rparr>))) (\<lambda>_.
     then_do (sect (modify (\<lambda>s. s\<lparr>open_handles := map (\<lambda>(fh, h). (fh, follow_rename old_path new_path h)) (open_handles s)\<rparr>))) (\<lambda>_.
     then_do (sect (modify (rename_raw_names old_path new_path))) (\<lambda>_.
       sect (modify (record_raw_name w new_path new_name))))))))))"

section \<open>Truncation\<close>

definition commit_task :: "('d, 'f) sys \<Rightarrow> string \<Rightarrow> path \<Rightarrow> path \<Rightarrow> ('d, 'f, errno, unit) fs_task" where
  "commit_task w handle_id path cache_path =
     then_do (sect (attempt (upload_handle w handle_id path cache_path))) (\<lambda>upload.
     then_do (sect (ignore_err (close_jvm_handle w handle_id))) (\<lambda>_.
       Done (case upload of Inl e \<Rightarrow> Inl (ipc_error_to_errno e) | Inr _ \<Rightarrow> Inr ())))"

definition bare_zero_task :: "('d, 'f) sys \<Rightarrow> path \<Rightarrow> ('d, 'f, errno, unit) fs_task" where
  "bare_zero_task w path =
     then_do (sect (map_err namespace_err_to_errno (ipc_call (rc_open_write_begin (lib w) (rc w) path None)))) (\<lambda>cp.
     then_do (sect fresh_handle_number) (\<lambda>n.
       commit_task w (handle_name ''trunc0-'' n) path cp))"

definition bare_size_task :: "('d, 'f) sys \<Rightarrow> path \<Rightarrow> u64 \<Rightarrow> ('d, 'f, errno, unit) fs_task" where
  "bare_size_task w path new_size =
     then_do (sect fresh_handle_number) (\<lambda>n.
     let handle_id = handle_name ''truncN-'' n in
     then_do (sect (map_err ipc_error_to_errno (ipc_call (rc_open_read (lib w) (rc w) handle_id path)))) (\<lambda>cache_path.
     then_do (sect (attempt (on_disk (os_open_w w cache_path)))) (\<lambda>open_result.
       case open_result of
         Inl _ \<Rightarrow> sect (close_and_fail w handle_id)
       | Inr file \<Rightarrow>
           then_do (sect (attempt (on_disk (os_set_len w file new_size)))) (\<lambda>set_len.
             case set_len of
               Inl _ \<Rightarrow> sect (close_and_fail w handle_id)
             | Inr _ \<Rightarrow> commit_task w handle_id path cache_path))))"

definition resize_task :: "('d, 'f) sys \<Rightarrow> nat \<Rightarrow> path \<Rightarrow> nat option \<Rightarrow> u64 \<Rightarrow> ('d, 'f, errno, unit) fs_task" where
  "resize_task w inode path fh new_size =
     then_do (case fh of
                Some fh \<Rightarrow> sect (truncate_handle w fh new_size)
              | None \<Rightarrow> if new_size = 0 then bare_zero_task w path else bare_size_task w path new_size) (\<lambda>_.
       sect (modify (\<lambda>s. set_attr_of inode
         (if new_size = 0 then truncated_attr (now_ms w s)
          else (\<lambda>a. a\<lparr>ca_size := new_size, ca_mtime_ms := now_ms w s, ca_is_hydrated := True, ca_remote_mtime_ms := None\<rparr>)) s)))"

definition setattr_task :: "('d, 'f) sys \<Rightarrow> nat \<Rightarrow> nat option \<Rightarrow> u64 option \<Rightarrow> ('d, 'f, errno, reply_attr) fs_task" where
  "setattr_task w inode fh new_size =
     then_do (path_section inode) (\<lambda>path.
     then_do (case new_size of
                None \<Rightarrow> Done (Inr ())
              | Some new_size \<Rightarrow> resize_task w inode path fh new_size) (\<lambda>_.
       getattr_task w inode))"

section \<open>The volume, change events and requests as a whole\<close>

definition statfs_task :: "('d, 'f, errno, reply_statfs) fs_task" where
  "statfs_task =
     then_do (sect (modify refresh_quota_if_due)) (\<lambda>_.
     then_do (sect (gets (\<lambda>s. quota_current (quota_cache s)))) (\<lambda>q.
       Done (Inr (let (blocks, bfree) = statfs_blocks q
                  in \<lparr>sf_blocks = blocks, sf_bfree = bfree, sf_bavail = bfree, sf_files = 2 ^ 20, sf_ffree = 2 ^ 20,
                      sf_bsize = ucast BLOCK_SIZE, sf_namelen = 255, sf_frsize = ucast BLOCK_SIZE\<rparr>))))"

definition quota_refresh_task :: "('d, 'f) sys \<Rightarrow> ('d, 'f, errno, unit) fs_task" where
  "quota_refresh_task w =
     then_do (sect (attempt (ipc_call (rc_daemon_status (lib w) (rc w))))) (\<lambda>r.
       let fetched = (case r of Inr reply \<Rightarrow> from_status reply | Inl _ \<Rightarrow> None)
       in sect (modify (\<lambda>s. s\<lparr>quota_cache := finish_refresh fetched (quota_cache s), quota_tasks := quota_tasks s - 1\<rparr>)))"

text \<open>The paths with unsent writes are collected under the lock of the open files, which is let go before
  those of the paths and attributes are taken.\<close>

definition drop_attrs :: "path list \<Rightarrow> invalidation \<Rightarrow> ('d, 'f) fs \<Rightarrow> ('d, 'f) fs" where
  "drop_attrs unsent_paths change s =
     (let keep = List.map_filter (inode_for (paths s)) unsent_paths
      in case change of
           All \<Rightarrow> s\<lparr>attrs := hm_retain_keys (\<lambda>ino. ino \<in> set keep) (attrs s)\<rparr>
         | Paths roots \<Rightarrow>
             s\<lparr>attrs := fold (\<lambda>ino m. if ino \<notin> set keep then AList.delete ino m else m)
               (inodes_at_or_below (paths s) (set roots)) (attrs s)\<rparr>)"

definition apply_task :: "invalidation \<Rightarrow> ('d, 'f, errno, unit) fs_task" where
  "apply_task change =
     then_do (sect (gets unsent)) (\<lambda>unsent_paths. sect (modify (drop_attrs unsent_paths change)))"

text \<open>What a task leaves of its reply does not matter to the others.\<close>

definition forget_reply :: "('s, 'e + 'a) task \<Rightarrow> ('s, unit) task" where
  "forget_reply t = task_bind t (\<lambda>_. Done ())"

fun task_of :: "('d, 'f) sys \<Rightarrow> request \<Rightarrow> (('d, 'f) fs, unit) task" where
  "task_of w Init = forget_reply (sect fuse_init)"
| "task_of w (Lookup i n) = forget_reply (lookup_task w i n)"
| "task_of w (Getattr i) = forget_reply (getattr_task w i)"
| "task_of w (Open i fl) = forget_reply (open_task w i fl)"
| "task_of w (Read fh off sz) = forget_reply (sect (read_file w fh off sz))"
| "task_of w (Write i fh off b) = forget_reply (write_task w i fh off b)"
| "task_of w (Fsync fh ds) = forget_reply (fsync_task w fh ds)"
| "task_of w (Release fh) = forget_reply (release_task w fh)"
| "task_of w (Readdir i off) = forget_reply (readdir_task w i off)"
| "task_of w (Readdirplus i off) = forget_reply (readdirplus_task w i off)"
| "task_of w (Mkdir i n) = forget_reply (mkdir_task w i n)"
| "task_of w (Unlink i n) = forget_reply (unlink_task w i n)"
| "task_of w (Rmdir i n) = forget_reply (rmdir_task w i n)"
| "task_of w (Create i n) = forget_reply (create_task w i n)"
| "task_of w (Mknod i n mode) = forget_reply (mknod_task w i n mode)"
| "task_of w (Setattr i fh sz) = forget_reply (setattr_task w i fh sz)"
| "task_of w Statfs = forget_reply statfs_task"
| "task_of w (Getxattr i n sz) = forget_reply (sect (getxattr i n sz))"
| "task_of w (Listxattr sz) = forget_reply (sect (listxattr sz))"
| "task_of w (RenameReq i n j k) = forget_reply (rename_task w i n j k)"
| "task_of w QuotaTask = forget_reply (quota_refresh_task w)"
| "task_of w (Change c) = forget_reply (apply_task c)"

section \<open>Without interference\<close>

lemma alone_checks [simp]: "alone (name_check n) = name_of n" "alone (path_section i) = path_of_inode i"
  by (simp_all add: name_check_def name_of_def path_section_def)

lemma alone_populate [simp]: "alone (populate_task w p) = populate_from_list w p"
  unfolding populate_task_def populate_from_list_def
  by (rule ext, simp, rule andthen_eq) (simp_all add: andthen_def Let_def case_prod_beta)

lemma path_of_inode_then:
  "andthen (gets (\<lambda>s. path_for (paths s) i)) (\<lambda>p. andthen (ok_or ENOENT p) k) = andthen (path_of_inode i) k"
  by (simp only: path_of_inode_def andthen_assoc)

lemma alone_fetch [simp]: "alone (fetch_task w i) = get_or_fetch_attr w i"
  unfolding fetch_task_def get_or_fetch_attr_def path_of_inode_then
  by (simp del: andthen_gets cong: option.case_cong)

lemma alone_dotdot [simp]: "alone (dotdot_task i p) = dotdot_inode i p"
  by (simp add: dotdot_task_def dotdot_inode_def)

lemma alone_refuse [simp]: "alone (refuse_task w p cp n) = refuse_nfc_collision w p cp n"
  unfolding refuse_task_def refuse_nfc_collision_def
  by (rule ext) (auto simp: alone_Done andthen_assoc split: option.splits intro!: andthen_eq)

lemma alone_lookup [simp]: "alone (lookup_task w i n) = lookup w i n"
  unfolding lookup_task_def lookup_def Let_def
  by (rule ext) (auto simp: alone_Done intro!: andthen_eq split: option.splits)

lemma alone_getattr [simp]: "alone (getattr_task w i) = getattr w i"
  by (simp add: getattr_task_def getattr_def)

lemma stat_case:
  "(\<lambda>meta s. case meta of Inl e \<Rightarrow> Some (Inr v, s) | Inr len \<Rightarrow> f len s) = (\<lambda>meta. case meta of Inl e \<Rightarrow> ret v | Inr len \<Rightarrow> f len)"
  by (auto simp: fun_eq_iff ret_def split: sum.splits)

lemma alone_open: "alone (open_task w i fl) = open_file w i fl"
  unfolding open_task_def open_file_def stat_case Let_def register_open_def open_cache_def wants_write_def
  by (simp del: andthen_modify andthen_gets cong: if_cong sum.case_cong)

lemma alone_write: "alone (write_task w i fh off b) = write_file w i fh off b"
  by (simp add: write_task_def write_file_def Let_def andthen_assoc del: andthen_gets andthen_modify)

lemma alone_fsync: "alone (fsync_task w fh ds) = fsync w fh ds"
  by (simp add: fsync_task_def fsync_def Let_def andthen_assoc alone_Done del: andthen_gets andthen_modify cong: sum.case_cong if_cong)

lemma alone_close: "alone (close_task w h up) = andthen (if up
     then ignore_err (upload_handle w (oh_handle_id h) (oh_remote_path h) (oh_cache_path h)) else ret ()) (\<lambda>_.
       ignore_err (close_jvm_handle w (oh_handle_id h)))"
  by (simp add: close_task_def)

lemma delete_absent: "map_of m k = None \<Longrightarrow> AList.delete k m = m"
  by (rule delete_id) (simp add: map_of_eq_None_iff)

lemma take_handle_then:
  "andthen (take_handle fh :: ('a, 'b, 'b open_handle option) handler) (case_option m n) = andthen (gets (\<lambda>s. map_of (open_handles s) fh)) (\<lambda>removed.
     case removed of None \<Rightarrow> m
     | Some h \<Rightarrow> andthen (modify (\<lambda>s. s\<lparr>open_handles := AList.delete fh (open_handles s)\<rparr>)) (\<lambda>_. n h))"
proof (rule ext)
  fix s :: "('a, 'b) fs"
  have "s\<lparr>open_handles := AList.delete fh (open_handles s)\<rparr> = s" if "map_of (open_handles s) fh = None"
    using that by (simp add: delete_absent)
  then show "andthen (take_handle fh) (case_option m n) s = andthen (gets (\<lambda>s. map_of (open_handles s) fh)) (\<lambda>removed.
     case removed of None \<Rightarrow> m
     | Some h \<Rightarrow> andthen (modify (\<lambda>s. s\<lparr>open_handles := AList.delete fh (open_handles s)\<rparr>)) (\<lambda>_. n h)) s"
    by (simp add: take_handle_def andthen_def gets_def modify_def split: option.splits)
qed

lemma alone_release: "alone (release_task w fh) = release w fh"
  unfolding release_task_def release_def
  by (simp add: alone_close take_handle_then del: andthen_gets andthen_modify cong: option.case_cong)

lemma alone_readdir: "alone (readdir_task w i off) = readdir w i off"
  and alone_readdirplus: "alone (readdirplus_task w i off') = readdirplus w i off'"
  by (simp_all add: readdir_task_def readdir_def readdirplus_task_def readdirplus_def shown_entries_def
      shown_entries_plus_def Let_def del: andthen_gets)

lemma new_entry_alone:
  "alone (new_entry_task w cp name mk) s = (let (ino, m) = pm_intern (paths s) cp; s1 = record_raw_name w cp name (s\<lparr>paths := m\<rparr>);
     a = mk (now_ms w s1) in Some (Inr (ino, a), s1\<lparr>attrs := AList.update ino a (attrs s1)\<rparr>))"
  by (simp add: new_entry_task_def intern_section_def andthen_def gets_def modify_def ret_def Let_def case_prod_beta)

lemma install_dir_alone:
  "andthen (alone (new_entry_task w cp name (\<lambda>now. \<lparr>ca_size = 0, ca_mtime_ms = now, ca_remote_mtime_ms = None,
         ca_is_folder = True, ca_is_hydrated = False, ca_pending_upload = False\<rparr>))) (\<lambda>(ino, cached).
       ret (entry_reply w ino cached)) = install_dir w cp name"
  by (rule ext) (simp add: andthen_def new_entry_alone install_dir_def ret_def Let_def case_prod_beta)

lemma alone_mkdir: "alone (mkdir_task w i n) = fuse_mkdir w i n"
  by (simp add: mkdir_task_def fuse_mkdir_def Let_def install_dir_alone)

lemma install_file_alone:
  "andthen (alone (new_entry_task w cp name (\<lambda>now. \<lparr>ca_size = 0, ca_mtime_ms = now, ca_remote_mtime_ms = None,
         ca_is_folder = False, ca_is_hydrated = True, ca_pending_upload = True\<rparr>))) (\<lambda>(ino, cached).
     andthen fresh_fh (\<lambda>fh.
     andthen (modify (\<lambda>s. s\<lparr>open_handles := AList.update fh
         \<lparr>oh_file = file, oh_handle_id = cr_handle_id reply, oh_remote_path = cp,
          oh_cache_path = cr_cache_path reply, oh_dirty = True\<rparr> (open_handles s)\<rparr>)) (\<lambda>_.
       ret (fh, file_attr_from_cached w ino cached, ino)))) = install_file w cp name reply file"
  by (rule ext) (simp add: andthen_def new_entry_alone install_file_def fresh_fh_def modify_def ret_def Let_def case_prod_beta)

lemma alone_create_internal [simp]: "alone (create_internal_task w i n) = create_internal w i n"
  by (simp add: create_internal_task_def create_internal_def Let_def install_file_alone del: andthen_modify)

lemma alone_create: "alone (create_task w i n) = fuse_create w i n"
  by (simp add: create_task_def fuse_create_def)

lemma take_handle_bind:
  "andthen (take_handle fh) (\<lambda>removed. andthen (case removed of None \<Rightarrow> m | Some h \<Rightarrow> n h) k) =
   andthen (gets (\<lambda>s. map_of (open_handles s) fh)) (\<lambda>removed.
     andthen (modify (\<lambda>s. s\<lparr>open_handles := AList.delete fh (open_handles s)\<rparr>)) (\<lambda>_.
     andthen (case removed of None \<Rightarrow> m | Some h \<Rightarrow> n h) k))"
  by (rule ext) (simp add: take_handle_def andthen_def gets_def modify_def)

lemma alone_mknod: "alone (mknod_task w i n mode) = mknod w i n mode"
  unfolding mknod_task_def mknod_def Let_def
  by (simp add: alone_close take_handle_bind del: andthen_gets andthen_modify cong: option.case_cong)

lemma forget_alone: "alone (forget_task cp) s = Some (Inr (), drop_entry cp s)"
  by (auto simp: forget_task_def drop_entry_def andthen_def modify_def ret_def Let_def split: prod.splits option.splits)

lemma forget_then: "andthen (alone (forget_task cp)) k = andthen (modify (drop_entry cp)) k"
  by (rule ext) (simp add: andthen_def forget_alone modify_def)

lemma alone_unlink: "alone (unlink_task w i n) = fuse_unlink w i n"
  and alone_rmdir: "alone (rmdir_task w i n) = fuse_rmdir w i n"
  by (simp_all add: unlink_task_def fuse_unlink_def rmdir_task_def fuse_rmdir_def Let_def forget_then del: andthen_modify)

lemma alone_rename: "alone (rename_task w i n j k) = fuse_rename w i n j k"
  unfolding rename_task_def fuse_rename_def Let_def
  by (rule ext) (auto simp: andthen_assoc modify_def andthen_def [of "\<lambda>s. Some (_ s)"] intro!: andthen_eq)

lemma alone_commit [simp]: "alone (commit_task w h p c) = commit_and_close w h p c"
  by (simp add: commit_task_def commit_and_close_def alone_Done cong: sum.case_cong)

lemma alone_resize [simp]:
  "alone (resize_task w i p fh sz) = (if sz = 0 then truncate_to_zero w i p fh else truncate_to_size w i p fh sz)"
  unfolding resize_task_def truncate_to_zero_def truncate_to_size_def bare_zero_task_def bare_size_task_def
    bare_truncate_zero_def bare_truncate_size_def Let_def
  by (cases fh) (simp_all cong: sum.case_cong)

lemma alone_setattr: "alone (setattr_task w i fh sz) = setattr w i fh sz"
  by (simp add: setattr_task_def setattr_def cong: option.case_cong)

lemma alone_statfs: "alone statfs_task = statfs"
  by (simp add: statfs_task_def statfs_def alone_Done Let_def case_prod_beta)

lemma alone_quota_refresh: "alone (quota_refresh_task w) = quota_task w"
  by (simp add: quota_refresh_task_def quota_task_def Let_def)

lemma drop_attrs_unsent: "drop_attrs (unsent s) change s = view_apply change s"
  by (simp add: drop_attrs_def view_apply_def kept_inodes_def)

lemma alone_apply: "alone (apply_task change) s = Some (Inr (), view_apply change s)"
  by (simp add: apply_task_def drop_attrs_unsent modify_def)

lemma alone_forget_reply: "alone (forget_reply t) s = map_option (\<lambda>(_, s'). ((), s')) (alone t s)"
  by (auto simp: forget_reply_def alone_bind alone.simps split: Option.bind_splits)

lemmas alone_tasks = alone_open alone_write alone_fsync alone_release alone_readdir alone_readdirplus alone_mkdir
  alone_create alone_mknod alone_unlink alone_rmdir alone_rename alone_setattr alone_statfs alone_quota_refresh alone_apply

lemma sections_alone: "map_option snd (alone (task_of w q) s) = serve w q s"
  by (cases q) (simp_all add: alone_forget_reply alone_tasks after_def option.map_comp comp_def case_prod_beta)


end
