(* ===== verification/FuseSafe.thy ===== *)
theory FuseSafe
  imports FuseSections FuseInv
begin

text \<open>
  The handlers of \<^verbatim>\<open>mount/src/fuse_fs.rs\<close> beside each other: each section of each handler keeps the
  invariant of the file system, whatever ran since the section before it. A task relies on the others for
  this much: inode and handle numbers only grow, and a handle number that it has drawn is its own
  (\<open>reserved\<close>); and it guarantees as much itself (\<open>moves\<close>), and that it clears the dirty bit of an open
  file only to upload the file in its next section (\<open>careful\<close>). \<open>good\<close> says that a task does,
  \<open>safe\<close> that it does from every state, and the theory proves the handlers safe.
\<close>

text \<open>The path map only grows: inode numbers are drawn from the counter, and one that has lost its path gets none
  again.\<close>

definition grown :: "path_map \<Rightarrow> path_map \<Rightarrow> bool" where
  "grown m m' \<longleftrightarrow> pm_next m \<le> pm_next m' \<and> (\<forall>i < pm_next m. path_for m i = None \<longrightarrow> path_for m' i = None)"

lemma grown_refl [simp]: "grown m m" and grown_trans: "grown m m' \<Longrightarrow> grown m' m'' \<Longrightarrow> grown m m''"
  by (auto simp: grown_def)

lemma grown_step: "pm_inv m \<Longrightarrow> pm_op_ok x \<Longrightarrow> grown m (pm_step m x)"
  by (simp add: grown_def pm_step_next pm_step_unmapped)

lemma grown_ops:
  "pm_inv m \<Longrightarrow> grown m (snd (pm_intern m p))"
  "pm_inv m \<Longrightarrow> p \<noteq> '''' \<Longrightarrow> grown m (snd (pm_forget m p))"
  "pm_inv m \<Longrightarrow> old \<noteq> '''' \<Longrightarrow> new \<noteq> '''' \<Longrightarrow> grown m (pm_rename m old new)"
  using grown_step [of m "Intern p"] grown_step [of m "Forget p"] grown_step [of m "Rename old new"] by simp_all

text \<open>What stays true of a state while other tasks run, and what the handle numbers that a task has drawn
  but not used yet are.\<close>

definition later :: "('d, 'f) fs \<Rightarrow> ('d, 'f) fs \<Rightarrow> bool" where
  "later s s' \<longleftrightarrow> grown (paths s) (paths s') \<and> next_fh s \<le> next_fh s'"

definition reserved :: "nat set \<Rightarrow> ('d, 'f) fs \<Rightarrow> bool" where
  "reserved A s \<longleftrightarrow> (\<forall>fh \<in> A. fh < next_fh s \<and> map_of (open_handles s) fh = None)"

definition same_file :: "'f open_handle \<Rightarrow> 'f open_handle \<Rightarrow> bool" where
  "same_file h h' \<longleftrightarrow> oh_handle_id h' = oh_handle_id h \<and> oh_file h' = oh_file h"

text \<open>What a section of a task with the drawn numbers \<open>A\<close> may do: counters grow, new numbers are drawn from
  the counter, and the table of open files gets entries under drawn numbers only; an entry that stays
  keeps its file and its handle id.\<close>

definition moves :: "nat set \<Rightarrow> nat set \<Rightarrow> ('d, 'f) fs \<Rightarrow> ('d, 'f) fs \<Rightarrow> bool" where
  "moves A A' s s' \<longleftrightarrow> later s s' \<and> A' \<subseteq> A \<union> {next_fh s..<next_fh s'} \<and>
     (\<forall>fh h'. fh \<notin> A \<longrightarrow> map_of (open_handles s') fh = Some h' \<longrightarrow>
        (\<exists>h. map_of (open_handles s) fh = Some h \<and> same_file h h'))"

lemma later_refl [simp]: "later s s" and later_trans: "later s s' \<Longrightarrow> later s' s'' \<Longrightarrow> later s s''"
  by (auto simp: later_def intro: grown_trans)

text \<open>The dirty bit of an open file is the promise that its content will be uploaded. A section may clear it,
  or take the handle out of the table, only when the next section of its task is the upload; and when the
  handle stays and the upload fails, the section after that sets the bit again.\<close>

definition makes_dirty :: "nat \<Rightarrow> (('d, 'f) fs, 'a) task \<Rightarrow> bool" where
  "makes_dirty fh t \<longleftrightarrow> (\<exists>f. t = Section f \<and> (\<forall>s. map_option snd (f s) = Some (set_handle fh (\<lambda>h. h\<lparr>oh_dirty := True\<rparr>) s)))"

definition uploads_next :: "('d, 'f) sys \<Rightarrow> nat \<Rightarrow> 'f open_handle \<Rightarrow> bool \<Rightarrow> (('d, 'f) fs, 'a) task \<Rightarrow> bool" where
  "uploads_next w fh h stays t \<longleftrightarrow> (\<exists>f. t = Section f \<and>
     (\<forall>s. case upload_handle w (oh_handle_id h) (oh_remote_path h) (oh_cache_path h) s of
            None \<Rightarrow> f s = None
          | Some (r, s') \<Rightarrow> \<exists>u. f s = Some (u, s') \<and> (stays \<and> \<not> (\<exists>p. r = Inr p) \<longrightarrow> makes_dirty fh u)))"

definition careful :: "('d, 'f) sys \<Rightarrow> ('d, 'f) fs \<Rightarrow> ('d, 'f) fs \<Rightarrow> (('d, 'f) fs, 'a) task \<Rightarrow> bool" where
  "careful w s s' t \<longleftrightarrow> (\<forall>fh h. map_of (open_handles s) fh = Some h \<longrightarrow> oh_dirty h \<longrightarrow>
     (case map_of (open_handles s') fh of
        Some h' \<Rightarrow> oh_dirty h' \<or> uploads_next w fh h True t
      | None \<Rightarrow> uploads_next w fh h False t))"

definition dirty_stays :: "('d, 'f) fs \<Rightarrow> ('d, 'f) fs \<Rightarrow> bool" where
  "dirty_stays s s' \<longleftrightarrow> (\<forall>fh h. map_of (open_handles s) fh = Some h \<longrightarrow> oh_dirty h \<longrightarrow>
     (\<exists>h'. map_of (open_handles s') fh = Some h' \<and> oh_dirty h'))"

lemma makes_dirty_bind: "makes_dirty fh t \<Longrightarrow> makes_dirty fh (task_bind t k)"
  by (auto simp: makes_dirty_def option.map_comp comp_def)

lemma uploads_next_bind: "uploads_next w fh h stays t \<Longrightarrow> uploads_next w fh h stays (task_bind t k)"
  unfolding uploads_next_def
  by (fastforce intro: makes_dirty_bind split: option.splits prod.splits)

lemma careful_bind: "careful w s s' t \<Longrightarrow> careful w s s' (task_bind t k)"
  unfolding careful_def
proof (intro allI impI)
  fix fh h
  assume "\<forall>fh h. map_of (open_handles s) fh = Some h \<longrightarrow> oh_dirty h \<longrightarrow> (case map_of (open_handles s') fh of
      Some h' \<Rightarrow> oh_dirty h' \<or> uploads_next w fh h True t | None \<Rightarrow> uploads_next w fh h False t)"
    and "map_of (open_handles s) fh = Some h" "oh_dirty h"
  then have "case map_of (open_handles s') fh of
      Some h' \<Rightarrow> oh_dirty h' \<or> uploads_next w fh h True t | None \<Rightarrow> uploads_next w fh h False t" by blast
  then show "case map_of (open_handles s') fh of Some h' \<Rightarrow> oh_dirty h' \<or> uploads_next w fh h True (task_bind t k)
      | None \<Rightarrow> uploads_next w fh h False (task_bind t k)"
    by (auto intro: uploads_next_bind split: option.splits)
qed

lemma careful_Done: "careful w s s' (Done v) \<longleftrightarrow> dirty_stays s s'"
  unfolding careful_def dirty_stays_def uploads_next_def by (fastforce split: option.splits)

lemma dirty_stays_careful: "dirty_stays s s' \<Longrightarrow> careful w s s' t"
  unfolding careful_def dirty_stays_def by (fastforce split: option.splits)

lemma dirty_stays_refl [simp]: "open_handles s' = open_handles s \<Longrightarrow> dirty_stays s s'"
  by (auto simp: dirty_stays_def)

lemma dirty_stays_trans: "dirty_stays s s' \<Longrightarrow> dirty_stays s' s'' \<Longrightarrow> dirty_stays s s''"
  unfolding dirty_stays_def by blast

inductive good :: "('d, 'f) sys \<Rightarrow> ('a \<Rightarrow> nat set \<Rightarrow> ('d, 'f) fs \<Rightarrow> bool) \<Rightarrow> nat set \<Rightarrow> ('d, 'f) fs \<Rightarrow> (('d, 'f) fs, 'a) task \<Rightarrow> bool" for w Q where
  finished: "(\<And>s1. later s s1 \<Longrightarrow> fs_inv s1 \<Longrightarrow> reserved A s1 \<Longrightarrow> Q v A s1) \<Longrightarrow> good w Q A s (Done v)"
| unfinished: "(\<And>s1 t s2. later s s1 \<Longrightarrow> fs_inv s1 \<Longrightarrow> reserved A s1 \<Longrightarrow> f s1 = Some (t, s2) \<Longrightarrow>
      fs_inv s2 \<and> careful w s1 s2 t \<and> (\<exists>A'. moves A A' s1 s2 \<and> reserved A' s2 \<and> good w Q A' s2 t)) \<Longrightarrow> good w Q A s (Section f)"

inductive_simps good_Done: "good w Q A s (Done v)"
inductive_simps good_Section: "good w Q A s (Section f)"

lemma good_later: "good w Q A s t \<Longrightarrow> later s s1 \<Longrightarrow> good w Q A s1 t"
  by (cases t) (auto simp: good_Done good_Section dest: later_trans)

lemma good_whenever:
  assumes "\<And>s1. later s s1 \<Longrightarrow> fs_inv s1 \<Longrightarrow> reserved A s1 \<Longrightarrow> good w Q A s1 t"
  shows "good w Q A s t"
proof (cases t)
  case (Done v)
  with assms show ?thesis by (auto simp: good_Done)
next
  case (Section f)
  show ?thesis
    unfolding Section
  proof (rule good.unfinished)
    fix s1 u s2
    assume *: "later s s1" "fs_inv s1" "reserved A s1" "f s1 = Some (u, s2)"
    from assms [OF *(1-3)] have "good w Q A s1 (Section f)" by (simp add: Section)
    then show "fs_inv s2 \<and> careful w s1 s2 u \<and> (\<exists>A'. moves A A' s1 s2 \<and> reserved A' s2 \<and> good w Q A' s2 u)"
      unfolding good_Section using * later_refl by blast
  qed
qed

lemma good_bind:
  assumes "good w (\<lambda>v A s. good w Q A s (k v)) A s t"
  shows "good w Q A s (task_bind t k)"
  using assms
proof (induction rule: good.induct)
  case (finished s A v)
  show ?case unfolding task_bind.simps by (rule good_whenever) (rule finished)
next
  case (unfinished s A f)
  show ?case
    unfolding task_bind.simps
  proof (rule good.unfinished)
    fix s1 u s2
    assume "later s s1" "fs_inv s1" "reserved A s1"
      and "map_option (map_prod (\<lambda>t. task_bind t k) id) (f s1) = Some (u, s2)"
    then show "fs_inv s2 \<and> careful w s1 s2 u \<and> (\<exists>A'. moves A A' s1 s2 \<and> reserved A' s2 \<and> good w Q A' s2 u)"
      using unfinished by (fastforce intro: careful_bind)
  qed
qed

lemma good_sect:
  assumes "\<And>s1 r s2. later s s1 \<Longrightarrow> fs_inv s1 \<Longrightarrow> reserved A s1 \<Longrightarrow> m s1 = Some (r, s2) \<Longrightarrow>
    fs_inv s2 \<and> dirty_stays s1 s2 \<and> (\<exists>A'. moves A A' s1 s2 \<and> reserved A' s2 \<and>
      (\<forall>s3. later s2 s3 \<longrightarrow> fs_inv s3 \<longrightarrow> reserved A' s3 \<longrightarrow> Q r A' s3))"
  shows "good w Q A s (sect m)"
  unfolding sect_def by (rule good.unfinished) (use assms in \<open>fastforce simp: good_Done careful_Done\<close>)

lemma good_step:
  assumes "\<And>s1 r s2. later s s1 \<Longrightarrow> fs_inv s1 \<Longrightarrow> reserved A s1 \<Longrightarrow> m s1 = Some (r, s2) \<Longrightarrow>
    fs_inv s2 \<and> careful w s1 s2 (case r of Inl e \<Rightarrow> Done (Inl e) | Inr v \<Rightarrow> k v) \<and>
    (\<exists>A'. moves A A' s1 s2 \<and> reserved A' s2 \<and> good w Q A' s2 (case r of Inl e \<Rightarrow> Done (Inl e) | Inr v \<Rightarrow> k v))"
  shows "good w Q A s (then_do (sect m) k)"
proof -
  have "then_do (sect m) k = Section (\<lambda>s. map_option (\<lambda>(r, s'). (case r of Inl e \<Rightarrow> Done (Inl e) | Inr v \<Rightarrow> k v, s')) (m s))"
    by (simp add: then_do_def sect_def option.map_comp comp_def case_prod_beta' map_prod_def)
  then show ?thesis using assms by (auto intro!: good.unfinished)
qed

lemma good_then:
  assumes "good w (\<lambda>r A s. case r of Inl e \<Rightarrow> Q (Inl e) A s | Inr v \<Rightarrow> good w Q A s (k v)) A s t"
    and "\<And>e A s s1. Q (Inl e) A s \<Longrightarrow> later s s1 \<Longrightarrow> Q (Inl e) A s1"
  shows "good w Q A s (then_do t k)"
  unfolding then_do_def
proof (rule good_bind)
  show "good w (\<lambda>r A s. good w Q A s (case r of Inl e \<Rightarrow> Done (Inl e) | Inr v \<Rightarrow> k v)) A s t"
    using assms(1)
  proof (induction rule: good.induct)
    case (finished s A v)
    then show ?case
      using assms(2) by (fastforce simp: good_Done split: sum.splits)
  next
    case (unfinished s A f)
    show ?case by (rule good.unfinished) (use unfinished in blast)
  qed
qed

section \<open>Sections that are harmless\<close>

definition harmless_step :: "('d, 'f) fs \<Rightarrow> ('d, 'f) fs \<Rightarrow> bool" where
  "harmless_step s s' \<longleftrightarrow> (fs_inv s \<longrightarrow> fs_inv s' \<and> grown (paths s) (paths s') \<and> next_fh s' = next_fh s \<and> dirty_stays s s' \<and>
     (\<forall>fh h'. map_of (open_handles s') fh = Some h' \<longrightarrow> (\<exists>h. map_of (open_handles s) fh = Some h \<and> same_file h h')))"

definition harmless :: "(('d, 'f) fs, 'e, 'a) prog \<Rightarrow> bool" where
  "harmless m \<longleftrightarrow> (\<forall>s r s'. m s = Some (r, s') \<longrightarrow> harmless_step s s')"

named_theorems harmless_rules \<open>sections that keep the invariant and the open files\<close>

lemma same_file_refl [simp]: "same_file h h" by (simp add: same_file_def)

lemma same_file_trans: "same_file h h' \<Longrightarrow> same_file h' h'' \<Longrightarrow> same_file h h''" by (simp add: same_file_def)

lemma harmless_refl [simp]: "harmless_step s s"
  by (simp add: harmless_step_def)

lemma harmless_trans: "harmless_step s s' \<Longrightarrow> harmless_step s' s'' \<Longrightarrow> harmless_step s s''"
  unfolding harmless_step_def by (auto intro: grown_trans dirty_stays_trans) (blast intro: same_file_trans)

lemma harmless_local:
  assumes "\<And>s r s'. m s = Some (r, s') \<Longrightarrow> fs_inv s \<Longrightarrow> fs_inv s' \<and> grown (paths s) (paths s') \<and>
    next_fh s' = next_fh s \<and> open_handles s' = open_handles s"
  shows "harmless m"
  using assms by (force simp: harmless_def harmless_step_def)

lemma harmless_modify: "(\<And>s. harmless_step s (f s)) \<Longrightarrow> harmless (modify f)"
  by (simp add: harmless_def modify_def)

lemma harmless_simple [harmless_rules]:
  "harmless (ret v)" "harmless (throw e1)" "harmless (gets f)" "harmless (ok_or e2 opt)"
  by (auto simp: harmless_def prog_defs split: option.splits)

lemma harmless_andthen [harmless_rules]:
  assumes "harmless m" and "\<And>v. harmless (k v)"
  shows "harmless (andthen m k)"
  using assms unfolding harmless_def andthen_Some by (meson harmless_trans)

lemma harmless_attempt [harmless_rules]: "harmless m \<Longrightarrow> harmless (attempt m)"
  and harmless_map_err [harmless_rules]: "harmless m \<Longrightarrow> harmless (map_err g m)"
  by (auto simp: harmless_def attempt_Some map_err_Some)

lemma harmless_ignore_err [harmless_rules]: "harmless m \<Longrightarrow> harmless (ignore_err m)"
  unfolding ignore_err_def by (intro harmless_rules)

lemma harmless_cases [harmless_rules]:
  "(b \<Longrightarrow> harmless t) \<Longrightarrow> (\<not> b \<Longrightarrow> harmless u) \<Longrightarrow> harmless (if b then t else u)"
  "(x = None \<Longrightarrow> harmless t) \<Longrightarrow> (\<And>v. x = Some v \<Longrightarrow> harmless (h v)) \<Longrightarrow> harmless (case x of None \<Rightarrow> t | Some v \<Rightarrow> h v)"
  by (auto split: option.splits)

lemma harmless_calls [harmless_rules]: "harmless (ipc_call q)" "harmless (on_disk g)"
  "harmless fresh_handle_number"
  by (rule harmless_local; auto simp: ipc_call_def zoom_def on_disk_def Let_def fresh_handle_number_def
    split: Option.bind_splits prod.splits)+

lemma harmless_lookups [harmless_rules]:
  "harmless (path_of_inode i)" "harmless (handle_of fh)" "harmless (name_of n)"
  "harmless (upload_handle w h p c)" "harmless (close_jvm_handle w h)"
  "harmless (register_open w fl p h)" "harmless (close_and_fail w h)"
  unfolding path_of_inode_def handle_of_def name_of_def upload_handle_def close_jvm_handle_def register_open_def
    close_and_fail_def by (intro harmless_rules)+

section \<open>Safe tasks\<close>

definition safe :: "('d, 'f) sys \<Rightarrow> (('d, 'f) fs, 'a) task \<Rightarrow> bool" where
  "safe w t \<longleftrightarrow> (\<forall>A s. good w (\<lambda>_ _ _. True) A s t)"

named_theorems safe_rules \<open>tasks that keep the invariant beside others\<close>

lemma harmless_moves:
  assumes "harmless m" and "fs_inv s" and "m s = Some (r, s')" and "reserved A s"
  shows "fs_inv s' \<and> dirty_stays s s' \<and> moves A A s s' \<and> reserved A s'"
  using assms unfolding harmless_def harmless_step_def moves_def reserved_def later_def
  by (metis le_refl option.distinct(1) Un_upper1 not_None_eq)

lemma safe_Done [safe_rules]: "safe w (Done v)"
  by (simp add: safe_def good_Done)

lemma safe_sect [safe_rules]: "harmless m \<Longrightarrow> safe w (sect m)"
  unfolding safe_def using harmless_moves by (blast intro: good_sect)

lemma good_mono: "good w Q A s t \<Longrightarrow> (\<And>v A s. Q v A s \<Longrightarrow> Q' v A s) \<Longrightarrow> good w Q' A s t"
proof (induction rule: good.induct)
  case (unfinished s A f)
  show ?case by (rule good.unfinished) (use unfinished in blast)
qed (simp add: good_Done)

lemma safe_then [safe_rules]:
  assumes "safe w t" and "\<And>v. safe w (k v)"
  shows "safe w (then_do t k)"
  unfolding safe_def
proof (intro allI good_then)
  fix A s
  have "good w (\<lambda>_ _ _. True) A s t" using assms(1) by (simp add: safe_def)
  then show "good w (\<lambda>r A s. case r of Inl e \<Rightarrow> True | Inr v \<Rightarrow> good w (\<lambda>_ _ _. True) A s (k v)) A s t"
    by (rule good_mono) (use assms(2) in \<open>auto simp: safe_def split: sum.splits\<close>)
qed simp

lemma safe_bind_Done: "safe w t \<Longrightarrow> safe w (task_bind t (\<lambda>r. Done (g r)))"
  unfolding safe_def by (intro allI good_bind) (auto simp: good_Done)

lemma safe_err [safe_rules]: "safe w t \<Longrightarrow> safe w (task_err g t)" and safe_forget: "safe w t \<Longrightarrow> safe w (forget_reply t)"
  unfolding task_err_def forget_reply_def by (rule safe_bind_Done, assumption)+

lemma safe_cases [safe_rules]:
  "(b \<Longrightarrow> safe w t) \<Longrightarrow> (\<not> b \<Longrightarrow> safe w u) \<Longrightarrow> safe w (if b then t else u)"
  "(x = None \<Longrightarrow> safe w t) \<Longrightarrow> (\<And>v. x = Some v \<Longrightarrow> safe w (h v)) \<Longrightarrow> safe w (case x of None \<Rightarrow> t | Some v \<Rightarrow> h v)"
  "(\<And>e. y = Inl e \<Longrightarrow> safe w (p e)) \<Longrightarrow> (\<And>v. y = Inr v \<Longrightarrow> safe w (q v)) \<Longrightarrow> safe w (case y of Inl e \<Rightarrow> p e | Inr v \<Rightarrow> q v)"
  "(\<And>a b. z = (a, b) \<Longrightarrow> safe w (r a b)) \<Longrightarrow> safe w (case z of (a, b) \<Rightarrow> r a b)"
  by (auto split: option.splits sum.splits prod.splits)

section \<open>The handlers are safe\<close>

lemma drop_attrs_inv: "fs_inv s \<Longrightarrow> fs_inv (drop_attrs us change s)"
  unfolding fs_inv_def drop_attrs_def Let_def
  by (cases change) (auto simp: fold_delete_unkept split: if_splits)

lemma update_frames [simp]:
  "paths (set_attr_of i f s) = paths s" "next_fh (set_attr_of i f s) = next_fh s" "open_handles (set_attr_of i f s) = open_handles s"
  "next_fh (record_raw_name w cp n s) = next_fh s" "next_fh (forget_raw_names cp s) = next_fh s"
  "next_fh (rename_raw_names p q s) = next_fh s" "paths (refresh_quota_if_due s) = paths s"
  "next_fh (refresh_quota_if_due s) = next_fh s" "open_handles (refresh_quota_if_due s) = open_handles s"
  "paths (drop_attrs us change s) = paths s" "next_fh (drop_attrs us change s) = next_fh s"
  "open_handles (drop_attrs us change s) = open_handles s"
  by (simp_all add: set_attr_of_def record_raw_name_def forget_raw_names_def rename_raw_names_def refresh_quota_if_due_def
      drop_attrs_def Let_def split: prod.splits invalidation.splits)

lemma harmless_update:
  assumes "\<And>s. fs_inv s \<Longrightarrow> fs_inv (f s)" and "\<And>s. paths (f s) = paths s" and "\<And>s. next_fh (f s) = next_fh s"
    and "\<And>s. open_handles (f s) = open_handles s"
  shows "harmless (modify f)"
  by (rule harmless_local) (use assms in \<open>auto simp: modify_def\<close>)

lemma harmless_simple_updates [harmless_rules]:
  "harmless (modify (\<lambda>s. set_attr_of i (af s) s))" "harmless (modify (set_attr_of i af2))"
  "harmless (modify (record_raw_name w cp n))" "harmless (modify (forget_raw_names cp))"
  "harmless (modify (rename_raw_names p q))" "harmless (modify refresh_quota_if_due)"
  "harmless (modify (drop_attrs us change))" "harmless (modify (\<lambda>s. s\<lparr>attrs := AList.delete i (attrs s)\<rparr>))"
  "harmless (modify (\<lambda>s. s\<lparr>quota_cache := qf s, quota_tasks := tf s\<rparr>))"
  by (rule harmless_update; simp add: drop_attrs_inv fs_inv_drop_attr)+

lemma harmless_set_handle [harmless_rules]:
  "harmless (modify (set_handle fh (\<lambda>h. h\<lparr>oh_dirty := True\<rparr>)))"
  by (rule harmless_modify, unfold harmless_step_def set_handle_inv)
    (auto simp: set_handle_def dirty_stays_def same_file_def split: if_splits)

lemma uploads_next_then: "uploads_next w fh h stays t \<Longrightarrow> uploads_next w fh h stays (then_do t k)"
  unfolding then_do_def by (rule uploads_next_bind)

lemma uploads_next_close: "uploads_next w fh h False (close_task w h True)"
  by (auto simp: uploads_next_def close_task_def then_do_def sect_def ignore_err_def andthen_def attempt_def ret_def
      option.map_comp comp_def split: option.splits)

lemma take_handle_Some: "take_handle fh s = Some (r, s') \<longleftrightarrow>
    r = Inr (map_of (open_handles s) fh) \<and> s' = s\<lparr>open_handles := AList.delete fh (open_handles s)\<rparr>"
  by (auto simp: take_handle_def)

lemma safe_take:
  fixes w :: "('d, 'f) sys"
  assumes "\<And>removed. safe w (k removed)" and "\<And>h. oh_dirty h \<Longrightarrow> uploads_next w fh h False (k (Some h))"
  shows "safe w (then_do (sect (take_handle fh)) k)"
  unfolding safe_def
proof (intro allI good_step)
  fix A and s s1 s2 :: "('d, 'f) fs" and r :: "errno + 'f open_handle option"
  assume "fs_inv s1" "reserved A s1" "take_handle fh s1 = Some (r, s2)"
  then have r: "r = Inr (map_of (open_handles s1) fh)" "s2 = s1\<lparr>open_handles := AList.delete fh (open_handles s1)\<rparr>"
    and "fs_inv s2" "reserved A s2" "moves A A s1 s2"
    by (auto simp: take_handle_Some fs_inv_drop_handle reserved_def moves_def later_def split: if_splits)
  moreover have "careful w s1 s2 (k (map_of (open_handles s1) fh))"
    using assms(2) by (auto simp: careful_def r(2) split: option.splits if_splits)
  ultimately show "fs_inv s2 \<and> careful w s1 s2 (case r of Inl e \<Rightarrow> Done (Inl e) | Inr v \<Rightarrow> k v) \<and>
      (\<exists>A'. moves A A' s1 s2 \<and> reserved A' s2 \<and> good w (\<lambda>_ _ _. True) A' s2 (case r of Inl e \<Rightarrow> Done (Inl e) | Inr v \<Rightarrow> k v))"
    using assms(1) unfolding safe_def by auto
qed

lemma intern_entries_grown: "fs_inv s \<Longrightarrow> grown (paths s) (paths (snd (intern_entries es s)))"
proof (induction es arbitrary: s)
  case (Cons e es)
  obtain ino m where m: "pm_intern (paths s) (le_path e) = (ino, m)" by fastforce
  let ?s = "s\<lparr>paths := m, attrs := AList.update ino (attr_of_entry e) (attrs s)\<rparr>"
  have "grown (paths s) m" using grown_ops(1) [of "paths s" "le_path e"] Cons.prems m by simp
  moreover have "fs_inv ?s"
    using fs_inv_attr [OF fs_inv_intern(1) [OF Cons.prems m]] fs_inv_intern(2) [OF Cons.prems m] by simp
  then have "grown m (paths (snd (intern_entries es ?s)))" using Cons.IH [of ?s] by simp
  ultimately show ?case using m by (simp add: case_prod_beta Let_def grown_trans)
qed simp

lemma fs_inv_intern_snd: "fs_inv s \<Longrightarrow> fs_inv (s\<lparr>paths := snd (pm_intern (paths s) p)\<rparr>)"
  by (rule fs_inv_intern(1) [OF _ prod.collapse [symmetric]])

lemma harmless_listing [harmless_rules]:
  "harmless (\<lambda>s. let (r, s1) = quarantine entries s in Some (Inr r, s1))"
  "harmless (\<lambda>s. let (out, s2) = intern_entries rep s in Some (Inr out, s2))"
  by (rule harmless_local; auto simp: Let_def case_prod_beta quarantine_inv intern_entries_inv intern_entries_grown)+

lemma harmless_dotdot [harmless_rules]: "harmless (dotdot_inode i p)"
  by (rule harmless_local)
    (auto simp: dotdot_inode_def ret_def case_prod_beta Let_def grown_ops fs_inv_intern_snd split: if_splits)

lemma fs_inv_forget: "fs_inv s \<Longrightarrow> cp \<noteq> '''' \<Longrightarrow> fs_inv (s\<lparr>paths := snd (pm_forget (paths s) cp)\<rparr>)"
  using pm_forget_inv [of "paths s" cp] by (auto simp: fs_inv_def)

lemma harmless_forget [harmless_rules]:
  "cp \<noteq> '''' \<Longrightarrow> harmless (\<lambda>s. let (ino, m) = pm_forget (paths s) cp in Some (Inr ino, s\<lparr>paths := m\<rparr>))"
  by (rule harmless_local) (auto simp: case_prod_beta Let_def fs_inv_forget grown_ops)

lemma fs_inv_rename: "fs_inv s \<Longrightarrow> old \<noteq> '''' \<Longrightarrow> new \<noteq> '''' \<Longrightarrow> fs_inv (s\<lparr>paths := pm_rename (paths s) old new\<rparr>)"
  using pm_rename_inv [of "paths s" old new] by (auto simp: fs_inv_def)

lemma follow_rename_same_file: "same_file h (follow_rename old new h)"
  by (auto simp: same_file_def follow_rename_def Let_def split: option.splits if_splits list.splits)

lemma follow_rename_dirty: "oh_dirty (follow_rename old new h) = oh_dirty h"
  by (auto simp: follow_rename_def Let_def split: option.splits if_splits list.splits)

lemma harmless_rename_paths [harmless_rules]:
  "old \<noteq> '''' \<Longrightarrow> new \<noteq> '''' \<Longrightarrow> harmless (modify (\<lambda>s. s\<lparr>paths := pm_rename (paths s) old new\<rparr>))"
  by (rule harmless_local) (auto simp: modify_def fs_inv_rename grown_ops)

lemma harmless_rename_handles [harmless_rules]:
  "harmless (modify (\<lambda>s :: ('d, 'f) fs. s\<lparr>open_handles := map (\<lambda>(fh, h). (fh, follow_rename p q h)) (open_handles s)\<rparr>))"
proof -
  have keys: "map fst (map (\<lambda>(k, v). (k, f v)) m) = map fst m" for f :: "'f open_handle \<Rightarrow> 'f open_handle"
    and m :: "(nat, 'f open_handle) hashmap"
    by (induction m) auto
  show ?thesis
    by (rule harmless_modify)
      (auto simp: harmless_step_def fs_inv_def keys map_of_map_snd follow_rename_same_file follow_rename_dirty dirty_stays_def
        simp del: map_map)
qed

lemma harmless_evict [harmless_rules]: "harmless (evict remove cp)"
  unfolding evict_def by (intro harmless_rules)

lemma harmless_whole:
  "harmless (read_file w fh off sz)" "harmless (getxattr i n sz')" "harmless (listxattr sz')" "harmless fuse_init"
  and harmless_truncate [harmless_rules]: "harmless (truncate_handle w fh sz'')"
  unfolding read_file_def truncate_handle_def getxattr_def listxattr_def fuse_init_def
  by (intro harmless_rules; simp)+

lemma safe_populate [safe_rules]: "safe w (populate_task w p)"
  unfolding populate_task_def by (intro safe_rules harmless_rules)

lemma safe_fetch [safe_rules]: "safe w (fetch_task w i)"
  unfolding fetch_task_def by (intro safe_rules harmless_rules)

lemma safe_shared [safe_rules]: "safe w (name_check n)" "safe w (path_section i)" "safe w (dotdot_task i p)"
  "safe w (refuse_task w p cp n)" "safe w (close_task w h up)"
  unfolding name_check_def path_section_def dotdot_task_def refuse_task_def close_task_def
  by (intro safe_rules harmless_rules)+

lemma safe_queries: "safe w (lookup_task w i n)" "safe w (readdir_task w i o1)" "safe w (readdirplus_task w i o2)"
  and safe_getattr [safe_rules]: "safe w (getattr_task w i)"
  unfolding lookup_task_def readdir_task_def readdirplus_task_def getattr_task_def Let_def
  by (intro safe_rules harmless_rules)+

lemma safe_updates: "safe w (write_task w i fh off b)" "safe w statfs_task" "safe w (quota_refresh_task w)"
  "safe w (apply_task change)"
  unfolding write_task_def statfs_task_def quota_refresh_task_def apply_task_def Let_def
  by (intro safe_rules harmless_rules)+

lemma safe_release: "safe w (release_task w fh)"
  unfolding release_task_def
  by (rule safe_take) (auto intro!: safe_rules simp: uploads_next_close split: option.splits)

text \<open>\<^verbatim>\<open>fsync\<close> clears the bit in its first section; the next one uploads, and restores it when that fails.\<close>

lemma fsync_claim_cases:
  assumes "andthen (handle_of fh) (\<lambda>h. andthen (map_err (\<lambda>_. EIO) (on_disk (g h))) (\<lambda>_.
      andthen (modify (set_handle fh (\<lambda>h. h\<lparr>oh_dirty := False\<rparr>))) (\<lambda>_. ret h))) s = Some (r, s')"
  obtains e d where "r = Inl e" "s' = s\<lparr>disk := d\<rparr>"
  | h d where "r = Inr h" "map_of (open_handles s) fh = Some h" "s' = set_handle fh (\<lambda>h. h\<lparr>oh_dirty := False\<rparr>) (s\<lparr>disk := d\<rparr>)"
proof (cases "map_of (open_handles s) fh")
  case None
  then have "r = Inl EBADF" "s' = s\<lparr>disk := disk s\<rparr>"
    using assms by (auto simp: handle_of_def andthen_def gets_def ok_or_def throw_def)
  then show ?thesis by (rule that(1))
next
  case (Some h)
  with assms that show ?thesis
    by (auto simp: handle_of_def andthen_def gets_def ok_or_def ret_def map_err_def on_disk_def modify_def
        split: prod.splits sum.splits)
qed

lemma fsync_uploads_next:
  "uploads_next w fh h True (then_do (sect (attempt (upload_handle w (oh_handle_id h) (oh_remote_path h) (oh_cache_path h)))) (\<lambda>upload.
     case upload of
       Inl e \<Rightarrow> then_do (sect (modify (set_handle fh (\<lambda>h. h\<lparr>oh_dirty := True\<rparr>)))) (\<lambda>_. Done (Inl (ipc_error_to_errno e)))
     | Inr _ \<Rightarrow> Done (Inr ())))"
  by (auto simp: uploads_next_def makes_dirty_def then_do_def sect_def attempt_def modify_def option.map_comp comp_def
      split: option.splits sum.splits)

lemma safe_fsync: "safe w (fsync_task w fh ds)"
  unfolding safe_def fsync_task_def
proof (intro allI good_step)
  let ?k = "\<lambda>h. if \<not> oh_dirty h then Done (Inr ())
     else
       then_do (sect (attempt (upload_handle w (oh_handle_id h) (oh_remote_path h) (oh_cache_path h)))) (\<lambda>upload.
         case upload of
           Inl e \<Rightarrow> then_do (sect (modify (set_handle fh (\<lambda>h. h\<lparr>oh_dirty := True\<rparr>)))) (\<lambda>_.
             Done (Inl (ipc_error_to_errno e)))
         | Inr _ \<Rightarrow> Done (Inr ()))"
  fix A s s1 r s2
  assume inv: "fs_inv s1" "reserved A s1"
    and run: "andthen (handle_of fh) (\<lambda>h. andthen (map_err (\<lambda>_. EIO)
       (on_disk (if ds then os_sync_data w (oh_file h) else os_sync_all w (oh_file h)))) (\<lambda>_.
       andthen (modify (set_handle fh (\<lambda>h. h\<lparr>oh_dirty := False\<rparr>))) (\<lambda>_. ret h))) s1 = Some (r, s2)"
  have rest: "safe w (?k h)" for h by (intro safe_rules harmless_rules)
  from run show "fs_inv s2 \<and> careful w s1 s2 (case r of Inl e \<Rightarrow> Done (Inl e) | Inr v \<Rightarrow> ?k v) \<and>
      (\<exists>A'. moves A A' s1 s2 \<and> reserved A' s2 \<and> good w (\<lambda>_ _ _. True) A' s2 (case r of Inl e \<Rightarrow> Done (Inl e) | Inr v \<Rightarrow> ?k v))"
  proof (cases rule: fsync_claim_cases)
    case (1 e d)
    with inv show ?thesis
      by (auto simp: careful_Done good_Done moves_def later_def reserved_def intro!: exI [of _ A])
  next
    case (2 h d)
    have "careful w s1 s2 (?k h)"
      using 2 fsync_uploads_next [of w fh h] by (auto simp: careful_def set_handle_def split: option.splits)
    moreover have "fs_inv s2" using inv by (simp add: 2(3) set_handle_inv)
    moreover have "reserved A s2" "moves A A s1 s2"
      using inv 2 by (auto simp: reserved_def moves_def later_def set_handle_def same_file_def split: if_splits)
    ultimately show ?thesis using rest [of h] 2(1) unfolding safe_def by auto
  qed
qed

lemma safe_setattr: "safe w (setattr_task w i ofh sz)"
  unfolding setattr_task_def resize_task_def bare_zero_task_def bare_size_task_def commit_task_def Let_def
  by (intro safe_rules harmless_rules)

lemma safe_forget_task [safe_rules]: "cp \<noteq> '''' \<Longrightarrow> safe w (forget_task cp)"
  unfolding forget_task_def by (intro safe_rules harmless_rules)

lemma safe_removals: "safe w (unlink_task w i n)" "safe w (rmdir_task w i n)" "safe w (rename_task w i n j k)"
  unfolding unlink_task_def rmdir_task_def rename_task_def Let_def
  by (intro safe_rules harmless_rules child_path_not_root)+

text \<open>The inode of a new entry stays known until its attributes are cached.\<close>

lemma good_intern:
  "good w (\<lambda>r A s. case r of Inl _ \<Rightarrow> True | Inr ino \<Rightarrow> ino < pm_next (paths s)) A s (intern_section cp)"
  unfolding intern_section_def
proof (rule good_sect)
  fix s1 r s2
  assume "fs_inv s1" "reserved A s1"
    and "(let (ino, m) = pm_intern (paths s1) cp in Some (Inr ino, s1\<lparr>paths := m\<rparr>)) = Some (r, s2)"
  then have "r = Inr (fst (pm_intern (paths s1) cp))" "s2 = s1\<lparr>paths := snd (pm_intern (paths s1) cp)\<rparr>"
    "fs_inv s2" "reserved A s2" "moves A A s1 s2" "fst (pm_intern (paths s1) cp) < pm_next (paths s2)"
    by (auto simp: case_prod_beta Let_def fs_inv_intern_snd reserved_def moves_def later_def grown_ops pm_intern_fst_less)
  then show "fs_inv s2 \<and> dirty_stays s1 s2 \<and> (\<exists>A'. moves A A' s1 s2 \<and> reserved A' s2 \<and>
      (\<forall>s3. later s2 s3 \<longrightarrow> fs_inv s3 \<longrightarrow> reserved A' s3 \<longrightarrow>
        (case r of Inl _ \<Rightarrow> True | Inr ino \<Rightarrow> ino < pm_next (paths s3))))"
    by (auto simp: later_def grown_def)
qed

lemma good_weaken: "safe w t \<Longrightarrow> good w (\<lambda>_ _ _. True) A s t"
  by (simp add: safe_def)

lemma good_cache:
  assumes "ino < pm_next (paths s)"
  shows "good w (\<lambda>_ _ _. True) A s (sect (modify (\<lambda>s. s\<lparr>attrs := AList.update ino a (attrs s)\<rparr>)))"
  by (rule good_sect) (use assms in \<open>auto simp: modify_def later_def grown_def fs_inv_attr reserved_def moves_def same_file_def\<close>)

lemma good_progress: "good w Q A s t \<Longrightarrow> later s0 s \<Longrightarrow> good w (\<lambda>v A s'. Q v A s' \<and> later s0 s') A s t"
proof (induction arbitrary: s0 rule: good.induct)
  case (finished s A v)
  then show ?case by (auto simp: good_Done intro: later_trans)
next
  case (unfinished s A f)
  show ?case
  proof (rule good.unfinished)
    fix s1 u s2
    assume *: "later s s1" "fs_inv s1" "reserved A s1" "f s1 = Some (u, s2)"
    from unfinished(1) [OF this] obtain A' where A': "fs_inv s2" "careful w s1 s2 u" "moves A A' s1 s2" "reserved A' s2"
      and IH: "\<And>s0. later s0 s2 \<Longrightarrow> good w (\<lambda>v A s'. Q v A s' \<and> later s0 s') A' s2 u" by blast
    have "later s0 s2" using unfinished(2) *(1) A'(3) by (auto simp: moves_def intro: later_trans)
    with A' IH show "fs_inv s2 \<and> careful w s1 s2 u \<and> (\<exists>A'. moves A A' s1 s2 \<and> reserved A' s2 \<and> good w (\<lambda>v A s'. Q v A s' \<and> later s0 s') A' s2 u)"
      by blast
  qed
qed

lemma good_after:
  assumes "safe w t" and "\<And>v A s'. later s s' \<Longrightarrow> good w (\<lambda>_ _ _. True) A s' (k v)"
  shows "good w (\<lambda>_ _ _. True) A s (then_do t k)"
proof (rule good_then)
  have "good w (\<lambda>v A s'. True \<and> later s s') A s t"
    by (rule good_progress) (use assms(1) in \<open>simp_all add: safe_def\<close>)
  then show "good w (\<lambda>r A s'. case r of Inl e \<Rightarrow> True | Inr v \<Rightarrow> good w (\<lambda>_ _ _. True) A s' (k v)) A s t"
    by (rule good_mono) (auto simp: assms(2) split: sum.splits)
qed simp

lemma later_known: "ino < pm_next (paths s) \<Longrightarrow> later s s' \<Longrightarrow> ino < pm_next (paths s')"
  by (simp add: later_def grown_def)

lemma safe_new_entry [safe_rules]: "safe w (new_entry_task (w :: ('d, 'f) sys) cp name mk)"
proof -
  have rest: "good w (\<lambda>_ _ _. True) A s (then_do (sect (modify (record_raw_name w cp name))) (\<lambda>_.
      then_do (sect (gets (now_ms w))) (\<lambda>now.
      then_do (sect (modify (\<lambda>s. s\<lparr>attrs := AList.update ino (mk now) (attrs s)\<rparr>))) (\<lambda>_.
        Done (Inr (ino, mk now))))))"
    if "ino < pm_next (paths s)" for ino A and s :: "('d, 'f) fs"
  proof (rule good_after [OF safe_sect], rule harmless_rules)
    fix A' and s' :: "('d, 'f) fs"
    assume s': "later s s'"
    show "good w (\<lambda>_ _ _. True) A' s' (then_do (sect (gets (now_ms w))) (\<lambda>now.
      then_do (sect (modify (\<lambda>s. s\<lparr>attrs := AList.update ino (mk now) (attrs s)\<rparr>))) (\<lambda>_.
        Done (Inr (ino, mk now)))))"
      by (rule good_after [OF safe_sect], rule harmless_rules, rule good_then)
        (auto intro!: good_mono [OF good_cache] later_known [OF later_known [OF that s']] simp: good_Done split: sum.splits)
  qed
  show ?thesis
    unfolding safe_def new_entry_task_def
    by (intro allI good_then good_mono [OF good_intern]) (auto simp: rest split: sum.splits)
qed

text \<open>A drawn number is not drawn again and has no entry, so putting the new handle under it overwrites
  nothing.\<close>

lemma good_fresh:
  "good w (\<lambda>r A' _. \<forall>fh. r = Inr fh \<longrightarrow> A' = insert fh A) A s (sect fresh_fh)"
proof (rule good_sect)
  fix s1 r s2
  assume "fs_inv s1" "reserved A s1" and run: "fresh_fh s1 = Some (r, s2)"
  then have "r = Inr (next_fh s1)" "s2 = s1\<lparr>next_fh := next_fh s1 + 1\<rparr>" by (simp_all add: fresh_fh_def)
  moreover have "map_of (open_handles s1) (next_fh s1) = None"
    using \<open>fs_inv s1\<close> by (force simp: fs_inv_def map_of_eq_None_iff)
  ultimately show "fs_inv s2 \<and> dirty_stays s1 s2 \<and> (\<exists>A'. moves A A' s1 s2 \<and> reserved A' s2 \<and>
      (\<forall>s3. later s2 s3 \<longrightarrow> fs_inv s3 \<longrightarrow> reserved A' s3 \<longrightarrow> (\<forall>fh. r = Inr fh \<longrightarrow> A' = insert fh A)))"
    using \<open>fs_inv s1\<close> \<open>reserved A s1\<close>
    by (auto simp: moves_def later_def reserved_def fs_inv_def less_SucI intro!: exI [of _ "insert (next_fh s1) A"] intro: less_SucI)
qed

lemma good_put:
  assumes "fh \<in> A"
  shows "good w (\<lambda>_ _ _. True) A s (sect (modify (\<lambda>s. s\<lparr>open_handles := AList.update fh H (open_handles s)\<rparr>)))"
proof (rule good_sect)
  fix s1 r s2
  assume inv: "fs_inv s1" "reserved A s1"
    and "modify (\<lambda>s. s\<lparr>open_handles := AList.update fh H (open_handles s)\<rparr>) s1 = Some (r, s2)"
  then have s2: "s2 = s1\<lparr>open_handles := AList.update fh H (open_handles s1)\<rparr>" by (simp add: modify_def)
  have "fh < next_fh s1" using assms inv by (simp add: reserved_def)
  with inv assms show "fs_inv s2 \<and> dirty_stays s1 s2 \<and> (\<exists>A'. moves A A' s1 s2 \<and> reserved A' s2 \<and>
      (\<forall>s3. later s2 s3 \<longrightarrow> fs_inv s3 \<longrightarrow> reserved A' s3 \<longrightarrow> True))"
    unfolding s2
    by (auto simp: fs_inv_def moves_def later_def reserved_def dirty_stays_def update_conv' distinct_update dom_update
        intro!: exI [of _ "A - {fh}"] dest: subsetD [OF equalityD1 [OF dom_update]])
qed

lemma safe_new_handle:
  "safe w (then_do (sect fresh_fh) (\<lambda>fh. then_do (sect (modify (\<lambda>s. s\<lparr>open_handles := AList.update fh H (open_handles s)\<rparr>))) (\<lambda>_.
     Done (Inr (g fh)))))"
  unfolding safe_def
  by (intro allI good_then good_mono [OF good_fresh] )
    (auto intro!: good_then good_mono [OF good_put] simp: good_Done split: sum.splits)

lemma safe_mkdir: "safe w (mkdir_task w i n)"
  unfolding mkdir_task_def Let_def by (intro safe_rules harmless_rules)

lemma safe_create_internal [safe_rules]: "safe w (create_internal_task w i n)"
  unfolding create_internal_task_def Let_def by (intro safe_new_handle safe_rules harmless_rules)

lemma safe_create: "safe w (create_task w i n)"
  unfolding create_task_def by (intro safe_rules)

lemma safe_mknod: "safe w (mknod_task w i n mode)"
  unfolding mknod_task_def Let_def
  by (intro safe_take safe_rules) (auto intro: uploads_next_then uploads_next_close)

lemma harmless_stat [harmless_rules]:
  "harmless (\<lambda>s. Some (Inr (g s), set_attr_of i f s))"
  by (rule harmless_local) auto

lemma harmless_if_modify [harmless_rules]:
  "harmless (modify f :: (_, 'e, _) prog) \<Longrightarrow> harmless (modify g :: (_, 'e, _) prog) \<Longrightarrow>
   harmless (modify (\<lambda>s. if b then f s else g s) :: (_, 'e, _) prog)"
  by (cases b) simp_all

lemma safe_open: "safe w (open_task w i fl)"
  unfolding open_task_def open_cache_def Let_def
  by (intro safe_new_handle safe_rules harmless_rules)

lemmas safe_tasks = safe_queries safe_updates safe_release safe_fsync safe_setattr safe_removals safe_mkdir safe_create
  safe_mknod safe_open
  safe_getattr safe_sect [OF harmless_whole(1)] safe_sect [OF harmless_whole(2)] safe_sect [OF harmless_whole(3)]
  safe_sect [OF harmless_whole(4)]

lemma safe_task_of: "safe w (task_of w q)"
  by (cases q) (auto intro: safe_forget safe_tasks)

end
