(* ===== verification/FuseConcurrent.thy ===== *)
theory FuseConcurrent
  imports FuseSafe FuseLive
begin

text \<open>
  The file system with its handlers running beside each other, as the multi-threaded runtime of \<^verbatim>\<open>run.rs\<close> runs them:
  requests and change events arrive at any time, and any handler that has a section left may run it next.
  The invariant of the tables, the identity of file handles and inodes, that no unsent write is forgotten, and the
  end of every handler are shown for all interleavings; the last section shows an interleaving that the code does
  not guard against.
\<close>

section \<open>Tasks beside each other\<close>

text \<open>\<open>drawn ! i\<close> are the handle numbers that task \<open>i\<close> has drawn and not used yet; the numbers \<open>F\<close> are drawn by
  nobody any more.\<close>

definition pool_good :: "('d, 'f) sys \<Rightarrow> nat set \<Rightarrow> (('d, 'f) fs, 'a) task list \<Rightarrow> ('d, 'f) fs \<Rightarrow> bool" where
  "pool_good w F ts s \<longleftrightarrow> fs_inv s \<and> (\<forall>fh \<in> F. fh < next_fh s) \<and> (\<exists>drawn. length drawn = length ts \<and>
     (\<forall>i < length ts. reserved (drawn ! i) s \<and> good w (\<lambda>_ _ _. True) (drawn ! i) s (ts ! i) \<and> drawn ! i \<inter> F = {}) \<and>
     (\<forall>i < length ts. \<forall>j < length ts. i \<noteq> j \<longrightarrow> drawn ! i \<inter> drawn ! j = {}))"

lemma pool_good_inv: "pool_good w F ts s \<Longrightarrow> fs_inv s"
  by (simp add: pool_good_def)

lemma pool_good_empty: "fs_inv s \<Longrightarrow> pool_good w {} [] s"
  by (simp add: pool_good_def)

lemma pool_good_spent:
  assumes "pool_good w {} ts s" and "map_of (open_handles s) fh = Some h"
  shows "pool_good w {fh} ts s"
proof -
  from assms(1) obtain drawn where d: "fs_inv s" "length drawn = length ts"
    "\<forall>i < length ts. reserved (drawn ! i) s \<and> good w (\<lambda>_ _ _. True) (drawn ! i) s (ts ! i)"
    "\<forall>i < length ts. \<forall>j < length ts. i \<noteq> j \<longrightarrow> drawn ! i \<inter> drawn ! j = {}"
    unfolding pool_good_def by auto
  have "drawn ! i \<inter> {fh} = {}" if "i < length ts" for i
    using d(3) that assms(2) by (auto simp: reserved_def)
  moreover have "fh < next_fh s" using d(1) assms(2) unfolding fs_inv_def by blast
  ultimately show ?thesis unfolding pool_good_def using d by blast
qed

lemma pool_good_arrives:
  assumes "pool_good w F ts s" and "safe w t"
  shows "pool_good w F (ts @ [t]) s"
proof -
  from assms(1) obtain drawn where d: "fs_inv s" "\<forall>fh \<in> F. fh < next_fh s" "length drawn = length ts"
    "\<forall>i < length ts. reserved (drawn ! i) s \<and> good w (\<lambda>_ _ _. True) (drawn ! i) s (ts ! i) \<and> drawn ! i \<inter> F = {}"
    "\<forall>i < length ts. \<forall>j < length ts. i \<noteq> j \<longrightarrow> drawn ! i \<inter> drawn ! j = {}"
    unfolding pool_good_def by blast
  have "reserved {} s" by (simp add: reserved_def)
  with d assms(2) show ?thesis
    unfolding pool_good_def safe_def
    by (intro conjI exI [of _ "drawn @ [{}]"]) (auto simp: nth_append less_Suc_eq)
qed

lemma pool_good_later:
  assumes "pool_good w F ts s" and "fs_inv s'" and "later s s'" and "open_handles s' = open_handles s"
  shows "pool_good w F ts s'"
proof -
  have less: "fh < next_fh s'" if "fh < next_fh s" for fh using that assms(3) by (simp add: later_def)
  have "reserved A s'" if "reserved A s" for A using that less assms(4) by (simp add: reserved_def)
  then show ?thesis
    using assms(1,2) good_later [OF _ assms(3)] less unfolding pool_good_def by meson
qed

lemma moves_reserved:
  assumes "moves A A' s s'" and "reserved B s" and "A \<inter> B = {}"
  shows "reserved B s'" and "A' \<inter> B = {}"
  using assms unfolding moves_def reserved_def later_def by (fastforce, force)

lemma pool_good_step:
  assumes "pool_good w F ts s" and "pool_step (ts, s) (ts', s')"
  shows "pool_good w F ts' s'" and "later s s'"
    and "fh \<in> F \<Longrightarrow> map_of (open_handles s') fh = Some h' \<Longrightarrow> \<exists>h. map_of (open_handles s) fh = Some h \<and> same_file h h'"
    and "\<exists>t \<in> set ts'. careful w s s' t"
proof -
  from assms(1) obtain drawn where d: "fs_inv s" "\<forall>fh \<in> F. fh < next_fh s" "length drawn = length ts"
    "\<forall>i < length ts. reserved (drawn ! i) s \<and> good w (\<lambda>_ _ _. True) (drawn ! i) s (ts ! i) \<and> drawn ! i \<inter> F = {}"
    "\<forall>i < length ts. \<forall>j < length ts. i \<noteq> j \<longrightarrow> drawn ! i \<inter> drawn ! j = {}"
    unfolding pool_good_def by blast
  from assms(2) obtain i f t where i: "i < length ts" "ts ! i = Section f" "f s = Some (t, s')" "ts' = ts[i := t]"
    by (auto simp: pool_step_iff)
  have Ai: "reserved (drawn ! i) s" "drawn ! i \<inter> F = {}" and "good w (\<lambda>_ _ _. True) (drawn ! i) s (Section f)"
    using d(4) i by auto
  then obtain A' where A': "fs_inv s'" "moves (drawn ! i) A' s s'" "reserved A' s'" "good w (\<lambda>_ _ _. True) A' s' t"
    and "careful w s s' t"
    unfolding good_Section using d(1) i(3) later_refl by blast
  then show "\<exists>t \<in> set ts'. careful w s s' t" using i(1) by (auto simp: i(4) intro: set_update_memI)
  show later: "later s s'" using A'(2) by (simp add: moves_def)
  have other: "reserved (drawn ! j) s' \<and> good w (\<lambda>_ _ _. True) (drawn ! j) s' (ts ! j) \<and> A' \<inter> drawn ! j = {}"
    if "j < length ts" "j \<noteq> i" for j
    using that d(4,5) i(1) moves_reserved [OF A'(2), of "drawn ! j"] by (auto intro: good_later [OF _ later])
  have F: "\<forall>fh \<in> F. fh < next_fh s'" "A' \<inter> F = {}"
    using d(2) Ai(2) A'(2) later unfolding moves_def later_def by (fastforce, fastforce)
  let ?drawn = "drawn[i := A']"
  have "\<forall>j < length ts'. reserved (?drawn ! j) s' \<and> good w (\<lambda>_ _ _. True) (?drawn ! j) s' (ts' ! j) \<and> ?drawn ! j \<inter> F = {}"
    using A' F(2) other d(3,4) i(1) by (simp add: i(4) nth_list_update)
  moreover have "\<forall>j < length ts'. \<forall>k < length ts'. j \<noteq> k \<longrightarrow> ?drawn ! j \<inter> ?drawn ! k = {}"
    using other d(3,5) i(1) by (auto simp add: i(4) nth_list_update Int_commute simp del: disjoint_iff)
  ultimately show "pool_good w F ts' s'"
    unfolding pool_good_def using A'(1) F(1) d(3) by (intro conjI exI [of _ ?drawn]) (simp_all add: i(4))
  show "\<exists>h. map_of (open_handles s) fh = Some h \<and> same_file h h'"
    if "fh \<in> F" "map_of (open_handles s') fh = Some h'"
    using that A'(2) Ai unfolding moves_def by blast
qed

section \<open>Concurrent runs\<close>

text \<open>Requests and events (those that satisfy \<open>P\<close>) arrive at any time, and whichever task is ready runs its next
  section.\<close>

inductive fs_step :: "('d, 'f) sys \<Rightarrow> (request \<Rightarrow> bool) \<Rightarrow> (('d, 'f) fs, unit) task list \<times> ('d, 'f) fs \<Rightarrow>
    (('d, 'f) fs, unit) task list \<times> ('d, 'f) fs \<Rightarrow> bool" for w P where
  rooted: "fs_step w P (ts, s) (ts, with_cache_root root s)"
| arrives: "P q \<Longrightarrow> fs_step w P (ts, s) (ts @ [task_of w q], s)"
| runs: "pool_step (ts, s) (ts', s') \<Longrightarrow> fs_step w P (ts, s) (ts', s')"

inductive_cases fs_step_cases: "fs_step w P (ts, s) (ts', s')"

definition concurrent :: "('d, 'f) sys \<Rightarrow> (request \<Rightarrow> bool) \<Rightarrow> (('d, 'f) fs, unit) task list \<times> ('d, 'f) fs \<Rightarrow> bool" where
  "concurrent w P c \<longleftrightarrow> (\<exists>cl d. (fs_step w P)\<^sup>*\<^sup>* ([], fs_new cl d) c)"

lemma fs_step_good:
  assumes "fs_step w P (ts, s) (ts', s')" and "pool_good w F ts s"
  shows "pool_good w F ts' s' \<and> later s s' \<and> (\<forall>fh h'. fh \<in> F \<longrightarrow> map_of (open_handles s') fh = Some h' \<longrightarrow>
    (\<exists>h. map_of (open_handles s) fh = Some h \<and> same_file h h'))"
proof -
  consider (rooted) root where "ts' = ts" "s' = with_cache_root root s" | (arrives) q where "ts' = ts @ [task_of w q]" "s' = s"
    | (runs) "pool_step (ts, s) (ts', s')"
    using assms(1) by (auto elim: fs_step_cases)
  then show ?thesis
  proof cases
  case rooted
  then show ?thesis
    using assms(2) pool_good_inv [OF assms(2)] pool_good_later [OF assms(2), of s']
    by (auto simp: with_cache_root_def later_def fs_inv_def)
next
  case arrives
  then show ?thesis using assms(2) by (auto intro: pool_good_arrives safe_task_of)
next
  case runs
  then show ?thesis using pool_good_step [OF assms(2)] by blast
  qed
qed

lemma fs_steps_good:
  assumes "(fs_step w P)\<^sup>*\<^sup>* (ts, s) (ts', s')" and "pool_good w F ts s"
  shows "pool_good w F ts' s' \<and> later s s' \<and> (\<forall>fh h'. fh \<in> F \<longrightarrow> map_of (open_handles s') fh = Some h' \<longrightarrow>
    (\<exists>h. map_of (open_handles s) fh = Some h \<and> same_file h h'))"
  using assms
proof (induction rule: rtranclp_induct2)
  case (step ts1 s1 ts2 s2)
  then show ?case
    using fs_step_good [OF step.hyps(2), of F] by (blast intro: later_trans same_file_trans)
qed simp

lemma concurrent_good: "concurrent w P (ts, s) \<Longrightarrow> pool_good w {} ts s"
  unfolding concurrent_def by (auto dest: fs_steps_good [OF _ pool_good_empty [OF fs_new_inv]])

lemma concurrent_steps: "concurrent w P c \<Longrightarrow> (fs_step w P)\<^sup>*\<^sup>* c c' \<Longrightarrow> concurrent w P c'"
  unfolding concurrent_def by (meson rtranclp_trans)

text \<open>C3. The handlers, the event task and the quota task run beside each other: whatever requests and events
  arrive, however the sections of their handlers interleave and whatever the daemon and the disk answer, inodes
  and paths stay in bijection, the root keeps inode 1, no two open files share a file handle and the next one is
  unused, and no cached attribute belongs to an inode that was never handed out.\<close>

theorem concurrent_invariant:
  assumes "concurrent w P (ts, s)"
  shows "fs_inv s"
  by (rule pool_good_inv [OF concurrent_good [OF assms]])

text \<open>C16. A file handle means one open file for ever: as long as the handlers run, in any interleaving, a
  handle number that stands for an open file either stands for that same file and daemon handle or, once released,
  for nothing; a create or open that runs beside never puts its file under it.\<close>

theorem open_file_kept:
  assumes "concurrent w P (ts, s)" and "map_of (open_handles s) fh = Some h"
    and "(fs_step w P)\<^sup>*\<^sup>* (ts, s) (ts', s')" and "map_of (open_handles s') fh = Some h'"
  shows "oh_file h' = oh_file h \<and> oh_handle_id h' = oh_handle_id h"
  using fs_steps_good [OF assms(3) pool_good_spent [OF concurrent_good [OF assms(1)] assms(2)]] assms(2,4)
  by (auto simp: same_file_def)

text \<open>C34. An inode number that has lost its path (its entry was removed, or replaced by a rename) never gets
  one again, however the handlers interleave: a dentry that the kernel still holds for it can only fail, never
  show another file.\<close>

theorem forgotten_inode_stays_forgotten:
  assumes "concurrent w P (ts, s)" and "path_for (paths s) i = None" and "i < pm_next (paths s)"
    and "(fs_step w P)\<^sup>*\<^sup>* (ts, s) (ts', s')"
  shows "path_for (paths s') i = None \<and> inode_for (paths s') p \<noteq> Some i"
proof -
  have s': "pool_good w {} ts' s'" "later s s'"
    using fs_steps_good [OF assms(4) concurrent_good [OF assms(1)]] by auto
  then have "path_for (paths s') i = None" using assms(2,3) by (simp add: later_def grown_def)
  then show ?thesis using pm_inv_iff [of "paths s'" p i] pool_good_inv [OF s'(1)] by simp
qed

section \<open>Unsent writes\<close>

lemma fs_step_careful:
  assumes "fs_step w P (ts, s) (ts', s')" and "concurrent w P (ts, s)"
    and "map_of (open_handles s) fh = Some h" and "oh_dirty h"
  shows "(\<exists>h'. map_of (open_handles s') fh = Some h' \<and> oh_dirty h' \<and> same_file h h') \<or>
    (\<exists>t \<in> set ts'. \<exists>stays. uploads_next w fh h stays t)"
proof -
  have same: "same_file h h'" if "map_of (open_handles s') fh = Some h'" for h'
    using fs_step_good [OF assms(1) pool_good_spent [OF concurrent_good [OF assms(2)] assms(3)]] that assms(3) by auto
  consider (still) "map_of (open_handles s') fh = Some h" | (runs) "pool_step (ts, s) (ts', s')"
    using assms(1,3) by (auto elim!: fs_step_cases simp: with_cache_root_def)
  then show ?thesis
  proof cases
    case runs
    from pool_good_step(4) [OF concurrent_good [OF assms(2)] runs] obtain t where t: "t \<in> set ts'" "careful w s s' t" by blast
    from t(2) assms(3,4) have "case map_of (open_handles s') fh of Some h' \<Rightarrow> oh_dirty h' \<or> uploads_next w fh h True t
        | None \<Rightarrow> uploads_next w fh h False t" unfolding careful_def by blast
    with t(1) same show ?thesis by (cases "map_of (open_handles s') fh") auto
  qed (use assms(4) in simp)
qed

text \<open>A pending upload is sent by the next section of its task.\<close>

lemma pool_step_uploads:
  assumes "pool_step (ts, s) (ts', s')" and "t \<in> set ts" and "uploads_next w fh h stays t"
  shows "t \<in> set ts' \<or> (\<exists>r. upload_handle w (oh_handle_id h) (oh_remote_path h) (oh_cache_path h) s = Some (r, s'))"
proof -
  from assms(1) obtain i f u where i: "i < length ts" "ts ! i = Section f" "f s = Some (u, s')" "ts' = ts[i := u]"
    by (auto simp: pool_step_iff)
  show ?thesis
  proof (cases "ts ! i = t")
    case True
    from assms(3) obtain g where g: "t = Section g"
      "case upload_handle w (oh_handle_id h) (oh_remote_path h) (oh_cache_path h) s of None \<Rightarrow> g s = None
       | Some (r, s') \<Rightarrow> \<exists>u. g s = Some (u, s') \<and> (stays \<and> \<not> (\<exists>p. r = Inr p) \<longrightarrow> makes_dirty fh u)"
      unfolding uploads_next_def by blast
    with True i(2,3) show ?thesis by (auto split: option.splits)
  next
    case False
    with assms(2) obtain j where "j < length ts" "ts ! j = t" "j \<noteq> i" by (auto simp: in_set_conv_nth)
    then show ?thesis using i(4) by (metis length_list_update nth_list_update_neq nth_mem)
  qed
qed

definition upload_between :: "('d, 'f) sys \<Rightarrow> (request \<Rightarrow> bool) \<Rightarrow> 'f open_handle \<Rightarrow> (('d, 'f) fs, unit) task list \<times> ('d, 'f) fs \<Rightarrow>
    (('d, 'f) fs, unit) task list \<times> ('d, 'f) fs \<Rightarrow> bool" where
  "upload_between w P h c c' \<longleftrightarrow> (\<exists>ts1 s1 ts2 s2 r. \<exists>h' :: 'f open_handle. (fs_step w P)\<^sup>*\<^sup>* c (ts1, s1) \<and> pool_step (ts1, s1) (ts2, s2) \<and>
     (fs_step w P)\<^sup>*\<^sup>* (ts2, s2) c' \<and> oh_handle_id h' = oh_handle_id h \<and> oh_file h' = oh_file h \<and>
     upload_handle w (oh_handle_id h') (oh_remote_path h') (oh_cache_path h') s1 = Some (r, s2))"

lemma dirty_carried:
  assumes "(fs_step w P)\<^sup>*\<^sup>* (ts, s) (ts', s')" and "concurrent w P (ts, s)"
    and "map_of (open_handles s) fh = Some h" and "oh_dirty h"
  shows "(\<exists>h'. map_of (open_handles s') fh = Some h' \<and> oh_dirty h' \<and> same_file h h') \<or>
    (\<exists>t \<in> set ts'. \<exists>h' stays. same_file h h' \<and> uploads_next w fh h' stays t) \<or> upload_between w P h (ts, s) (ts', s')"
  using assms(1)
proof (induction rule: rtranclp_induct2)
  case refl
  then show ?case using assms(3,4) by auto
next
  case (step ts1 s1 ts2 s2)
  have c1: "concurrent w P (ts1, s1)" by (rule concurrent_steps [OF assms(2) step.hyps(1)])
  from step.IH show ?case
  proof (elim disjE)
    assume "\<exists>h'. map_of (open_handles s1) fh = Some h' \<and> oh_dirty h' \<and> same_file h h'"
    then show ?thesis using fs_step_careful [OF step.hyps(2) c1] same_file_trans by blast
  next
    assume "\<exists>t \<in> set ts1. \<exists>h' stays. same_file h h' \<and> uploads_next w fh h' stays t"
    then obtain t h' stays where t: "t \<in> set ts1" "same_file h h'" "uploads_next w fh h' stays t" by blast
    consider (kept) "t \<in> set ts2" | (runs) "pool_step (ts1, s1) (ts2, s2)"
      using step.hyps(2) t(1) by (auto elim!: fs_step_cases)
    then show ?thesis
    proof cases
      case runs
      have "t \<in> set ts2 \<or> upload_between w P h (ts, s) (ts2, s2)"
        using pool_step_uploads [OF runs t(1,3)] step.hyps(1) runs t(2)
        unfolding upload_between_def same_file_def by blast
      with t show ?thesis by blast
    qed (use t in blast)
  next
    assume "upload_between w P h (ts, s) (ts1, s1)"
    then have "upload_between w P h (ts, s) (ts2, s2)"
      using step.hyps(2) unfolding upload_between_def by (meson rtranclp.rtrancl_into_rtrancl)
    then show ?thesis by blast
  qed
qed


section \<open>Handlers come to an end\<close>

lemma goes_on_reply: "goes_on I t \<Longrightarrow> goes_on I (forget_reply t)"
  unfolding forget_reply_def by (rule goes_on_bind) (auto intro: goes_on_rules)

lemma drop_attrs_ipc [simp]: "ipc (drop_attrs us change s) = ipc s" "ipc (record_raw_name w cp n s) = ipc s"
  "ipc (forget_raw_names cp s) = ipc s" "ipc (rename_raw_names p q s) = ipc s" "ipc (snd (quarantine es s)) = ipc s"
  "ipc (snd (intern_entries es s)) = ipc s"
  by (auto simp: drop_attrs_def record_raw_name_def forget_raw_names_def rename_raw_names_def Let_def
      split: invalidation.splits)

context waiting_client begin

lemma sections_end [ends_rules]:
  "ends (fs_settled w N) (\<lambda>s. let (r, s1) = quarantine entries s in Some (Inr r, s1))"
  "ends (fs_settled w N) (\<lambda>s. let (out, s2) = intern_entries rep s in Some (Inr out, s2))"
  "ends (fs_settled w N) (\<lambda>s. let (ino, m) = pm_intern (paths s) cp in Some (Inr ino, s\<lparr>paths := m\<rparr>))"
  "ends (fs_settled w N) (\<lambda>s. let (ino, m) = pm_forget (paths s) cp in Some (Inr ino, s\<lparr>paths := m\<rparr>))"
  "ends (fs_settled w N) (\<lambda>s. Some (Inr (g s), set_attr_of i f s))"
  "ends (fs_settled w N) (take_handle fh)"
  by (rule ends_local; simp add: case_prod_beta Let_def take_handle_def)+

lemma updates_settled [ends_rules]:
  "ends (fs_settled w N) (modify (set_handle fh f))"
  "ends (fs_settled w N) (modify (set_attr_of i af))" "ends (fs_settled w N) (modify (\<lambda>s. set_attr_of i (bf s) s))"
  "ends (fs_settled w N) (modify (\<lambda>s. s\<lparr>open_handles := hf s\<rparr>))" "ends (fs_settled w N) (modify (\<lambda>s. s\<lparr>paths := mf s\<rparr>))"
  "ends (fs_settled w N) (modify (\<lambda>s. s\<lparr>attrs := tf s\<rparr>))" "ends (fs_settled w N) (modify (record_raw_name w' cp n))"
  "ends (fs_settled w N) (modify (forget_raw_names cp))" "ends (fs_settled w N) (modify (rename_raw_names p q))"
  "ends (fs_settled w N) (modify refresh_quota_if_due)" "ends (fs_settled w N) (modify (drop_attrs us change))"
  "ends (fs_settled w N) (modify (\<lambda>s. s\<lparr>quota_cache := qf s, quota_tasks := kf s\<rparr>))"
  by (rule ends_update; simp)+

lemma goes_on_listing [goes_on_rules]: "goes_on (fs_settled w N) (populate_task w p)"
  "goes_on (fs_settled w N) (name_check n)" "goes_on (fs_settled w N) (path_section i)"
  "goes_on (fs_settled w N) (dotdot_task i p)" "goes_on (fs_settled w N) (close_task w h up)"
  unfolding populate_task_def name_check_def path_section_def dotdot_task_def close_task_def
  by (intro goes_on_rules ends_rules)+

lemma goes_on_shared [goes_on_rules]: "goes_on (fs_settled w N) (fetch_task w i)"
  "goes_on (fs_settled w N) (refuse_task w p cp n)" "goes_on (fs_settled w N) (new_entry_task w cp n mk)"
  "goes_on (fs_settled w N) (forget_task cp)" "goes_on (fs_settled w N) (commit_task w h p c)"
  unfolding fetch_task_def refuse_task_def new_entry_task_def intern_section_def forget_task_def commit_task_def
  by (intro goes_on_rules ends_rules)+

lemma goes_on_getattr [goes_on_rules]: "goes_on (fs_settled w N) (getattr_task w i)"
  and goes_on_create_internal [goes_on_rules]: "goes_on (fs_settled w N) (create_internal_task w i n)"
  unfolding getattr_task_def create_internal_task_def Let_def by (intro goes_on_rules ends_rules)+

lemma goes_on_setattr: "goes_on (fs_settled w N) (setattr_task w i ofh sz)"
  unfolding setattr_task_def resize_task_def bare_zero_task_def bare_size_task_def close_and_fail_def truncate_handle_def Let_def
  by (intro goes_on_rules ends_rules)

lemma goes_on_open: "goes_on (fs_settled w N) (open_task w i fl)"
  unfolding open_task_def register_open_def Let_def
  by (intro goes_on_rules ends_rules ends_update; simp)

lemma goes_on_handlers:
  "goes_on (fs_settled w N) (lookup_task w i n)" "goes_on (fs_settled w N) (write_task w i fh off b)"
  "goes_on (fs_settled w N) (fsync_task w fh ds)" "goes_on (fs_settled w N) (release_task w fh)"
  "goes_on (fs_settled w N) (readdir_task w i o1)" "goes_on (fs_settled w N) (readdirplus_task w i o2)"
  "goes_on (fs_settled w N) (mkdir_task w i n)" "goes_on (fs_settled w N) (create_task w i n)"
  "goes_on (fs_settled w N) (mknod_task w i n mode)" "goes_on (fs_settled w N) (unlink_task w i n)"
  "goes_on (fs_settled w N) (rmdir_task w i n)" "goes_on (fs_settled w N) (rename_task w i n j k)"
  "goes_on (fs_settled w N) statfs_task" "goes_on (fs_settled w N) (quota_refresh_task w)"
  "goes_on (fs_settled w N) (apply_task change)"
  unfolding lookup_task_def write_task_def fsync_task_def release_task_def readdir_task_def readdirplus_task_def
    mkdir_task_def create_task_def mknod_task_def unlink_task_def rmdir_task_def rename_task_def statfs_task_def
    quota_refresh_task_def apply_task_def Let_def
  by (intro goes_on_rules ends_rules)+

lemma goes_on_task_of: "goes_on (fs_settled w N) (task_of w q)"
  by (cases q) (auto intro!: goes_on_reply goes_on_handlers goes_on_setattr goes_on_open goes_on_getattr goes_on_sect
    queries_end updates_end)

end

lemma concurrent_goes_on:
  assumes "concurrent w P (ts, s)" and "0 < interval (rc w)"
  shows "\<forall>t \<in> set ts. goes_on (fs_settled w N) t"
proof -
  have client: "waiting_client w" using assms(2) by unfold_locales
  have "(fs_step w P)\<^sup>*\<^sup>* (ts0, s0) (ts, s) \<Longrightarrow> \<forall>t \<in> set ts0. goes_on (fs_settled w N) t \<Longrightarrow> \<forall>t \<in> set ts. goes_on (fs_settled w N) t"
    for ts0 s0
  proof (induction rule: rtranclp_induct2)
    case (step ts1 s1 ts2 s2)
    then show ?case
      using waiting_client.goes_on_task_of [OF client] pool_step_goes_on by (fastforce elim!: fs_step_cases)
  qed simp
  with assms(1) show ?thesis unfolding concurrent_def by fastforce
qed


section \<open>Concrete runs\<close>

lemma alone_runs:
  "alone t s = Some (v, s') \<Longrightarrow> pool_step\<^sup>*\<^sup>* (ts @ [t], s) (ts @ [Done v], s')"
proof (induction t arbitrary: s rule: task_induct)
  case (Section f)
  then obtain u s1 where u: "f s = Some (u, s1)" "alone u s1 = Some (v, s')"
    by (auto simp: alone.simps split: Option.bind_split_asm)
  then have "pool_step (ts @ [Section f], s) (ts @ [u], s1)"
    using pool_step.intros [of "length ts" "ts @ [Section f]" f s u s1] by simp
  then show ?case using Section.IH [OF u] by (rule converse_rtranclp_into_rtranclp)
qed (simp add: alone.simps)

text \<open>What the handlers do one after the other they may also do as tasks.\<close>

lemma serve_runs:
  assumes "serve w q s = Some s'" and "P q"
  shows "(fs_step w P)\<^sup>*\<^sup>* (ts, s) (ts @ [Done ()], s')"
proof -
  have "alone (task_of w q) s = Some ((), s')" using assms sections_alone [of w q s] by auto
  then have "pool_step\<^sup>*\<^sup>* (ts @ [task_of w q], s) (ts @ [Done ()], s')" by (rule alone_runs)
  moreover have "pool_step\<^sup>*\<^sup>* c c' \<Longrightarrow> (fs_step w P)\<^sup>*\<^sup>* c c'" for c c'
    by (induction rule: rtranclp_induct) (auto intro: rtranclp.rtrancl_into_rtrancl fs_step.runs)
  ultimately show ?thesis
    using converse_rtranclp_into_rtranclp [of "fs_step w P", OF fs_step.arrives] assms(2) by blast
qed

lemma reachable_concurrent: "reachable w P s \<Longrightarrow> \<exists>ts. concurrent w P (ts, s) \<and> (\<forall>t \<in> set ts. t = Done ())"
proof (induction rule: reachable.induct)
  case (mounted c d)
  have "concurrent w P ([], fs_new c d)" unfolding concurrent_def by blast
  then show ?case by fastforce
next
  case (rooted s root)
  then show ?case using fs_step.rooted concurrent_steps by blast
next
  case (served s q s')
  then obtain ts where ts: "concurrent w P (ts, s)" "\<forall>t \<in> set ts. t = Done ()" by blast
  have "concurrent w P (ts @ [Done ()], s')" by (rule concurrent_steps [OF ts(1) serve_runs [of w q s s' P ts, OF served(3,2)]])
  with ts(2) show ?case by (intro exI [of _ "ts @ [Done ()]"]) simp
qed

lemma toy_concurrent: "\<exists>ts s. concurrent toy_sys (\<lambda>_. True) (ts, s) \<and> (\<forall>t \<in> set ts. t = Done ()) \<and> toy_has_q ls s"
  using toy_reachable [of "\<lambda>_. True" ls] reachable_concurrent by blast

theorem concurrent_invariant_witness:
  "\<exists>ts s. concurrent toy_sys (\<lambda>_. True) (ts, s) \<and> inode_for (paths s) ''/k'' = Some 3 \<and> fs_inv s"
  using toy_concurrent [of "''''"] concurrent_invariant [of toy_sys] unfolding toy_has_q_def by blast

theorem open_file_kept_witness:
  "\<exists>ts s ts' s' h. concurrent toy_sys (\<lambda>_. True) (ts, s) \<and> (fs_step toy_sys (\<lambda>_. True))\<^sup>*\<^sup>* (ts, s) (ts', s') \<and>
     map_of (attrs s) 3 \<noteq> None \<and> map_of (open_handles s) 1 = Some toy_handle \<and>
     map_of (open_handles s') 1 = Some h \<and> oh_file h = oh_file toy_handle"
proof -
  obtain ts s where s: "concurrent toy_sys (\<lambda>_. True) (ts, s)" "toy_has_q ''''  s" using toy_concurrent by blast
  have steps: "(fs_step toy_sys (\<lambda>_. True))\<^sup>*\<^sup>* (ts, s) (ts @ [Done ()], view_apply All s)"
    by (rule serve_runs [where q = "Change All"]) simp_all
  have h: "map_of (open_handles s) 1 = Some toy_handle" "map_of (open_handles (view_apply All s)) 1 = Some toy_handle"
    using s(2) by (simp_all add: toy_has_q_def view_apply_def Let_def)
  from open_file_kept [OF s(1) h(1) steps h(2)] s steps h show ?thesis unfolding toy_has_q_def by blast
qed

lemma evict_runs: "\<exists>s'. evict remove cp s = Some (Inr (), s') \<and> paths s' = paths s"
  by (auto simp: evict_def andthen_def gets_def ret_def ignore_err_def attempt_def on_disk_def split: option.splits prod.splits)

lemma drop_entry_paths: "paths (drop_entry cp s) = snd (pm_forget (paths s) cp)"
  by (auto simp: drop_entry_def forget_raw_names_def Let_def split: option.splits prod.splits)

lemma toy_unlink:
  assumes "toy_has_q (CHR ''O'' # ls) s"
  shows "\<exists>s'. fuse_unlink toy_sys ROOT_INODE ''q'' s = Some (Inr (), s') \<and> paths s' = snd (pm_forget (paths s) ''/k'')"
proof -
  obtain c where up: "toy_up (CHR ''O'' # ls) c s" using assms by (auto simp: toy_has_q_def)
  from toy_fs_unit(2) [OF up, of "''/k''"] obtain req
    where unlink: "ipc_call (rc_unlink toy_ext toy_cfg ''/k'') s = Some (Inr (), s\<lparr>ipc := toy_rc (toy_next req c)\<rparr>)" by blast
  let ?s1 = "drop_entry ''/k'' (s\<lparr>ipc := toy_rc (toy_next req c)\<rparr>)"
  obtain s' where s': "evict (os_remove_file toy_sys) ''/k'' ?s1 = Some (Inr (), s')" "paths s' = paths ?s1"
    using evict_runs by blast
  have "fuse_unlink toy_sys ROOT_INODE ''q'' s = Some (Inr (), s')"
    using assms unlink s'(1)
    by (simp add: fuse_unlink_def toy_has_q_def andthen_def map_err_def name_of_def os_to_str_def path_of_inode_def ok_or_def
        ret_def modify_def gets_def Let_def)
  with s'(2) show ?thesis by (simp add: drop_entry_paths)
qed


theorem forgotten_inode_stays_forgotten_witness:
  "\<exists>ts s ts' s'. concurrent toy_sys (\<lambda>_. True) (ts, s) \<and> (fs_step toy_sys (\<lambda>_. True))\<^sup>*\<^sup>* (ts, s) (ts', s') \<and>
     inode_for (paths s) ''/k'' = None \<and> 3 < pm_next (paths s) \<and> inode_for (paths s') ''/k'' \<noteq> Some 3"
proof -
  obtain ts0 s0 where s0: "concurrent toy_sys (\<lambda>_. True) (ts0, s0)" "toy_has_q ''O'' s0" using toy_concurrent by blast
  obtain s where s: "fuse_unlink toy_sys ROOT_INODE ''q'' s0 = Some (Inr (), s)" "paths s = snd (pm_forget (paths s0) ''/k'')"
    using toy_unlink [OF s0(2)] by blast
  have steps: "(fs_step toy_sys (\<lambda>_. True))\<^sup>*\<^sup>* (ts0, s0) (ts0 @ [Done ()], s)"
    by (rule serve_runs [where q = "Unlink ROOT_INODE ''q''"]) (use s(1) in \<open>simp_all add: after_def\<close>)
  have more: "(fs_step toy_sys (\<lambda>_. True))\<^sup>*\<^sup>* (ts0 @ [Done ()], s) ((ts0 @ [Done ()]) @ [Done ()], view_apply All s)"
    by (rule serve_runs [where q = "Change All"]) simp_all
  have inv: "pm_inv (paths s0)" and k: "inode_for (paths s0) ''/k'' = Some 3"
    using pool_good_inv [OF concurrent_good [OF s0(1)]] s0(2) by (auto simp: toy_has_q_def)
  have lost: "path_for (paths s) 3 = None" "inode_for (paths s) ''/k'' = None" "3 < pm_next (paths s)"
    using k pm_inv_iff [OF inv, of "''/k''" 3] pm_inv_bound [OF inv k]
    by (simp_all add: s(2) pm_forget_path_for [OF inv] pm_forget_inode_for)
  from forgotten_inode_stays_forgotten [OF concurrent_steps [OF s0(1) steps] lost(1,3) more]
    concurrent_steps [OF s0(1) steps] more lost show ?thesis by blast
qed


section \<open>An interleaving that is not guarded against\<close>

lemma release_section:
  assumes "map_of (open_handles s) fh = Some h"
  shows "pool_step ([task_of w (Release fh)] @ ts, s)
    ([forget_reply (close_task w h (oh_dirty h))] @ ts, s\<lparr>open_handles := AList.delete fh (open_handles s)\<rparr>)"
  using assms pool_step.intros [of 0 "[task_of w (Release fh)] @ ts"]
  by (auto simp: forget_reply_def release_task_def then_do_def sect_def take_handle_def)

text \<open>C35. The attributes of an entry with unsent writes are meant to survive a change event, since a listing
  would report the cloud's size. They do while the handle is in the table; but the release of the handle takes
  it out before the upload is sent, and a change event handled in between drops them (as does one between the
  sections of \<open>fsync\<close>, which clears the dirty bit first).\<close>

theorem release_exposes_unsent_write:
  assumes "concurrent w P (ts, s)" and "map_of (open_handles s) fh = Some h" and "oh_dirty h"
    and "inode_for (paths s) (oh_remote_path h) = Some i" and "concerns change (oh_remote_path h)"
    and "\<forall>fh' h'. map_of (open_handles s) fh' = Some h' \<longrightarrow> oh_dirty h' \<longrightarrow>
      inode_for (paths s) (oh_remote_path h') = Some i \<longrightarrow> fh' = fh"
  shows "map_of (attrs (view_apply change s)) i = map_of (attrs s) i \<and>
    (\<exists>s'. pool_step\<^sup>*\<^sup>* ([task_of w (Release fh), task_of w (Change change)], s)
        ([forget_reply (close_task w h True), Done ()], s') \<and> map_of (attrs s') i = None)"
proof
  have inv: "fs_inv s" by (rule pool_good_inv [OF concurrent_good [OF assms(1)]])
  have p: "path_for (paths s) i = Some (oh_remote_path h)" using assms(4) pm_inv_iff inv by fastforce
  have "being_written s i" using assms(2-4) unfolding being_written_def by blast
  then show "map_of (attrs (view_apply change s)) i = map_of (attrs s) i"
    using view_apply_spec [OF inv p, of change] by simp
  let ?s1 = "s\<lparr>open_handles := AList.delete fh (open_handles s)\<rparr>"
  have "\<not> being_written ?s1 i"
    using assms(6) by (auto simp: being_written_def map_of_delete split: if_splits)
  then have "map_of (attrs (view_apply change ?s1)) i = None"
    using view_apply_spec [OF fs_inv_drop_handle [OF inv, of fh], where i = i and p = "oh_remote_path h" and change = change] p assms(5) by simp
  moreover have "alone (task_of w (Change change)) ?s1 = Some ((), view_apply change ?s1)"
    by (simp add: alone_forget_reply alone_apply)
  from alone_runs [OF this, of "[forget_reply (close_task w h True)]"] release_section [OF assms(2), of w "[task_of w (Change change)]"]
  have "pool_step\<^sup>*\<^sup>* ([task_of w (Release fh), task_of w (Change change)], s)
      ([forget_reply (close_task w h True), Done ()], view_apply change ?s1)"
    using assms(3) by (simp add: converse_rtranclp_into_rtranclp)
  ultimately show "\<exists>s'. pool_step\<^sup>*\<^sup>* ([task_of w (Release fh), task_of w (Change change)], s)
        ([forget_reply (close_task w h True), Done ()], s') \<and> map_of (attrs s') i = None" by blast
qed

theorem release_exposes_unsent_write_witness:
  "\<exists>ts s s'. concurrent toy_sys (\<lambda>_. True) (ts, s) \<and> map_of (attrs (view_apply All s)) 3 = Some toy_attr \<and>
     pool_step\<^sup>*\<^sup>* ([task_of toy_sys (Release 1), task_of toy_sys (Change All)], s)
       ([forget_reply (close_task toy_sys toy_handle True), Done ()], s') \<and> map_of (attrs s') 3 = None"
proof -
  obtain ts s where s: "concurrent toy_sys (\<lambda>_. True) (ts, s)" "toy_has_q '''' s" using toy_concurrent by blast
  then have "map_of (open_handles s) 1 = Some toy_handle" "oh_dirty toy_handle"
    "inode_for (paths s) (oh_remote_path toy_handle) = Some 3" "concerns All (oh_remote_path toy_handle)"
    "\<forall>fh' h'. map_of (open_handles s) fh' = Some h' \<longrightarrow> oh_dirty h' \<longrightarrow>
      inode_for (paths s) (oh_remote_path h') = Some 3 \<longrightarrow> fh' = 1"
    by (auto simp: toy_has_q_def toy_handle_def concerns_def split: if_splits)
  from release_exposes_unsent_write [OF s(1) this] s show ?thesis by (auto simp: toy_has_q_def)
qed

end
