(* ===== verification/FuseAlways.thy ===== *)
theory FuseAlways
  imports FuseConcurrent
begin

text \<open>
  Invariants that every section keeps by itself, whatever the others do: they hold in all concurrent runs of
  the file system. The interface is \<open>section_invariant\<close>; its instance is the table of raw names of
  \<^verbatim>\<open>mount/src/fuse_fs.rs\<close>, so that two entries of a directory never get the same visible name.
\<close>

section \<open>Tasks that keep a property\<close>

inductive task_keeps :: "('s \<Rightarrow> bool) \<Rightarrow> ('s, 'a) task \<Rightarrow> bool" for I where
  finished: "task_keeps I (Done v)"
| unfinished: "(\<And>s t s'. f s = Some (t, s') \<Longrightarrow> task_keeps I t \<and> (I s \<longrightarrow> I s')) \<Longrightarrow> task_keeps I (Section f)"

inductive_simps task_keeps_Section: "task_keeps I (Section f)"

named_theorems task_keeps_rules \<open>tasks that keep a property\<close>

lemma task_keeps_Done [task_keeps_rules]: "task_keeps I (Done v)"
  by (rule task_keeps.finished)

lemma task_keeps_sect [task_keeps_rules]: "keeps I m \<Longrightarrow> task_keeps I (sect m)"
  unfolding sect_def by (rule task_keeps.unfinished) (auto simp: keeps_def intro: task_keeps.finished)

lemma task_keeps_bind: "task_keeps I t \<Longrightarrow> (\<And>v. task_keeps I (k v)) \<Longrightarrow> task_keeps I (task_bind t k)"
proof (induction rule: task_keeps.induct)
  case (unfinished f)
  then show ?case unfolding task_bind.simps by (intro task_keeps.unfinished) fastforce
qed simp

lemma task_keeps_then [task_keeps_rules]: "task_keeps I t \<Longrightarrow> (\<And>v. task_keeps I (k v)) \<Longrightarrow> task_keeps I (then_do t k)"
  unfolding then_do_def by (rule task_keeps_bind) (auto split: sum.splits intro: task_keeps.finished)

lemma task_keeps_err [task_keeps_rules]: "task_keeps I t \<Longrightarrow> task_keeps I (task_err g t)"
  and task_keeps_reply: "task_keeps I t \<Longrightarrow> task_keeps I (forget_reply t)"
  unfolding task_err_def forget_reply_def by (rule task_keeps_bind; auto intro: task_keeps.finished)+

lemma task_keeps_cases [task_keeps_rules]:
  "(b \<Longrightarrow> task_keeps I t) \<Longrightarrow> (\<not> b \<Longrightarrow> task_keeps I u) \<Longrightarrow> task_keeps I (if b then t else u)"
  "(x = None \<Longrightarrow> task_keeps I t) \<Longrightarrow> (\<And>v. x = Some v \<Longrightarrow> task_keeps I (h v)) \<Longrightarrow>
    task_keeps I (case x of None \<Rightarrow> t | Some v \<Rightarrow> h v)"
  "(\<And>e. y = Inl e \<Longrightarrow> task_keeps I (p e)) \<Longrightarrow> (\<And>v. y = Inr v \<Longrightarrow> task_keeps I (q v)) \<Longrightarrow>
    task_keeps I (case y of Inl e \<Rightarrow> p e | Inr v \<Rightarrow> q v)"
  "(\<And>a b. z = (a, b) \<Longrightarrow> task_keeps I (r a b)) \<Longrightarrow> task_keeps I (case z of (a, b) \<Rightarrow> r a b)"
  by (auto split: option.splits sum.splits prod.splits)

lemma pool_step_keeps:
  assumes "pool_step (ts, s) (ts', s')" and "\<forall>t \<in> set ts. task_keeps I t"
  shows "(\<forall>t \<in> set ts'. task_keeps I t) \<and> (I s \<longrightarrow> I s')"
proof -
  from assms(1) obtain i f t where i: "i < length ts" "ts ! i = Section f" "f s = Some (t, s')" "ts' = ts[i := t]"
    by (auto simp: pool_step_iff)
  then have "task_keeps I (Section f)" using assms(2) by (metis nth_mem)
  then show ?thesis
    using assms(2) i(3,4) set_update_subset_insert [of ts i t] by (auto simp: task_keeps_Section)
qed

locale section_invariant =
  fixes w :: "('d, 'f) sys" and P :: "request \<Rightarrow> bool" and I :: "('d, 'f) fs \<Rightarrow> bool"
  assumes at_mount: "I (fs_new c d)"
    and at_root: "I s \<Longrightarrow> I (with_cache_root root s)"
    and at_sections: "P q \<Longrightarrow> task_keeps I (task_of w q)"
begin

lemma always_with: "(fs_step w P)\<^sup>*\<^sup>* ([], fs_new c d) (ts, s) \<Longrightarrow> I s \<and> (\<forall>t \<in> set ts. task_keeps I t)"
proof (induction rule: rtranclp_induct2)
  case refl
  show ?case by (simp add: at_mount)
next
  case (step ts1 s1 ts2 s2)
  from step.hyps(2) show ?case
    by (rule fs_step_cases) (use step.IH at_root at_sections in \<open>auto dest: pool_step_keeps\<close>)
qed

lemma always: "concurrent w P (ts, s) \<Longrightarrow> I s"
  unfolding concurrent_def using always_with by blast

end

section \<open>Visible names\<close>

lemma raw_sections:
  "keeps (\<lambda>s. J (raw_names s)) (\<lambda>s. let (r, s1) = quarantine es s in Some (Inr r, s1))"
  "keeps (\<lambda>s. J (raw_names s)) (\<lambda>s. let (out, s2) = intern_entries rep s in Some (Inr out, s2))"
  "keeps (\<lambda>s. J (raw_names s)) (\<lambda>s. let (ino, m) = pm_intern (paths s) cp in Some (Inr ino, s\<lparr>paths := m\<rparr>))"
  "keeps (\<lambda>s. J (raw_names s)) (\<lambda>s. let (ino, m) = pm_forget (paths s) cp in Some (Inr ino, s\<lparr>paths := m\<rparr>))"
  "keeps (\<lambda>s. J (raw_names s)) (\<lambda>s. Some (Inr (g s), set_attr_of i f s))"
  "keeps (\<lambda>s. J (raw_names s)) (take_handle fh)"
  by (intro keepsI; auto simp: case_prod_beta Let_def take_handle_def)+

lemma raw_drop_attrs [simp]: "raw_names (drop_attrs us change s) = raw_names s"
  by (auto simp: drop_attrs_def Let_def split: invalidation.splits)

lemma raw_shared [task_keeps_rules]:
  "task_keeps (\<lambda>s. J (raw_names s)) (populate_task w p)" "task_keeps (\<lambda>s. J (raw_names s)) (name_check n)"
  "task_keeps (\<lambda>s. J (raw_names s)) (path_section i)" "task_keeps (\<lambda>s. J (raw_names s)) (dotdot_task i p)"
  "task_keeps (\<lambda>s. J (raw_names s)) (close_task w h up)" "task_keeps (\<lambda>s. J (raw_names s)) (intern_section cp)"
  "task_keeps (\<lambda>s. J (raw_names s)) (commit_task w hid p c)"
  unfolding populate_task_def name_check_def path_section_def dotdot_task_def close_task_def intern_section_def commit_task_def
  by (intro task_keeps_rules raw_sections keeps_raw keeps_rules)+

lemma raw_lookups [task_keeps_rules]:
  "task_keeps (\<lambda>s. J (raw_names s)) (fetch_task w i)" "task_keeps (\<lambda>s. J (raw_names s)) (refuse_task w p cp n)"
  unfolding fetch_task_def refuse_task_def by (intro task_keeps_rules raw_sections keeps_raw keeps_rules)+

lemma raw_readers:
  "task_keeps (\<lambda>s. J (raw_names s)) (lookup_task w i n)" "task_keeps (\<lambda>s. J (raw_names s)) (getattr_task w i)"
  "task_keeps (\<lambda>s. J (raw_names s)) (readdir_task w i o1)" "task_keeps (\<lambda>s. J (raw_names s)) (readdirplus_task w i o2)"
  unfolding lookup_task_def getattr_task_def readdir_task_def readdirplus_task_def Let_def
  by (intro task_keeps_rules raw_sections keeps_raw keeps_rules)+

lemma raw_writers:
  "task_keeps (\<lambda>s. J (raw_names s)) (write_task w i fh off b)" "task_keeps (\<lambda>s. J (raw_names s)) (fsync_task w fh ds)"
  "task_keeps (\<lambda>s. J (raw_names s)) (release_task w fh)" "task_keeps (\<lambda>s. J (raw_names s)) statfs_task"
  "task_keeps (\<lambda>s. J (raw_names s)) (quota_refresh_task w)" "task_keeps (\<lambda>s. J (raw_names s)) (apply_task change)"
  "task_keeps (\<lambda>s. J (raw_names s)) (open_task w i fl)" "task_keeps (\<lambda>s. J (raw_names s)) (setattr_task w i ofh sz)"
  unfolding write_task_def fsync_task_def release_task_def statfs_task_def quota_refresh_task_def apply_task_def
    open_task_def register_open_def open_cache_def setattr_task_def resize_task_def bare_zero_task_def bare_size_task_def
    getattr_task_def truncate_handle_def close_and_fail_def Let_def
  by (intro task_keeps_rules raw_sections keeps_raw keeps_rules keeps_raw_modify; simp)+

lemma names_new_entry:
  assumes "nfc_keeps_slash (lib w)" and "slash \<notin> set n"
  shows "task_keeps (names_inv w) (new_entry_task w (child_path (lib w) p n) n mk)"
  unfolding new_entry_task_def
  by (intro task_keeps_rules keeps_rules keeps_modify record_raw_ok assms keeps_raw_modify; simp)

lemma task_keeps_name:
  assumes "task_keeps I (k n)"
  shows "task_keeps I (then_do (name_check n) k)"
  using assms by (auto simp: then_do_def name_check_def res_or_def os_to_str_def intro: task_keeps.finished)

lemma names_entries:
  assumes "nfc_keeps_slash (lib w)" and "slash \<notin> set n"
  shows "task_keeps (names_inv w) (mkdir_task w i n)" "task_keeps (names_inv w) (create_internal_task w i n)"
  unfolding mkdir_task_def create_internal_task_def Let_def
  by (intro task_keeps_name names_new_entry assms task_keeps_rules keeps_raw keeps_rules keeps_raw_modify; simp)+

lemma names_creates:
  assumes "nfc_keeps_slash (lib w)" and "slash \<notin> set n"
  shows "task_keeps (names_inv w) (create_task w i n)" "task_keeps (names_inv w) (mknod_task w i n mode)"
  unfolding create_task_def mknod_task_def Let_def
  by (intro names_entries assms task_keeps_rules raw_sections)+

lemma forget_raw_ok: "names_inv w s \<Longrightarrow> names_inv w (forget_raw_names cp s)"
  by (auto simp: forget_raw_names_def hm_retain_keys_def raw_ok_def)

lemma names_forget_task [task_keeps_rules]: "task_keeps (names_inv w) (forget_task cp)"
  unfolding forget_task_def
  by (intro task_keeps_rules raw_sections keeps_rules keeps_modify; simp add: forget_raw_ok)

lemma names_removals: "task_keeps (names_inv w) (unlink_task w i n)" "task_keeps (names_inv w) (rmdir_task w i n)"
  unfolding unlink_task_def rmdir_task_def Let_def by (intro task_keeps_rules keeps_raw keeps_rules)+

lemma names_rename_task:
  assumes "nfc_keeps_slash (lib w)" and "slash \<notin> set k"
  shows "task_keeps (names_inv w) (rename_task w i n j k)"
  unfolding rename_task_def Let_def
  by (rule task_keeps_then, intro task_keeps_rules, rule task_keeps_name)
    (intro task_keeps_rules keeps_raw keeps_rules keeps_modify record_raw_ok assms rename_raw_ok; simp)

lemma task_keeps_imp: "(A \<Longrightarrow> task_keeps I t) \<Longrightarrow> task_keeps (\<lambda>s. A \<longrightarrow> I s) t"
proof (cases A)
  case False
  have "task_keeps (\<lambda>_. True) t"
    by (induction t rule: task_induct) (auto intro: task_keeps.intros)
  with False show ?thesis by simp
qed simp

lemma names_kept:
  assumes "nfc_keeps_slash (lib w)" and "kernel_request q"
  shows "task_keeps (names_inv w) (task_of w q)"
  using assms(2)
  by (cases q) (auto intro!: task_keeps_reply raw_readers raw_writers names_creates names_entries names_removals
    names_rename_task assms(1) task_keeps_sect keeps_raw_handlers keeps_raw_writers)

interpretation names_always: section_invariant w kernel_request "\<lambda>s. nfc_keeps_slash (lib w) \<longrightarrow> names_inv w s"
  for w :: "('d, 'f) sys"
proof
  show "nfc_keeps_slash (lib w) \<longrightarrow> names_inv w (fs_new c d)" for c and d :: 'd
    by (simp add: fs_new_def raw_ok_def)
  show "nfc_keeps_slash (lib w) \<longrightarrow> names_inv w (with_cache_root root s)"
    if "nfc_keeps_slash (lib w) \<longrightarrow> names_inv w s" for root and s :: "('d, 'f) fs"
    using that by (simp add: with_cache_root_def)
  show "task_keeps (\<lambda>s. nfc_keeps_slash (lib w) \<longrightarrow> names_inv w s) (task_of w q)" if "kernel_request q" for q
    using that by (intro task_keeps_imp names_kept)
qed

text \<open>C15. Two entries of one directory are never shown under the same name: however the handlers of the kernel's
  requests interleave, when the daemon's names are in NFC, entries with the same parent and the same visible
  name are the same entry, however names with equal normal forms were created and renamed.\<close>

theorem visible_names_always_distinct:
  assumes "concurrent w kernel_request (ts, s)" and "nfc_keeps_slash (lib w)"
    and "nfc (lib w) (basename p) = basename p" and "nfc (lib w) (basename q) = basename q"
    and "slash \<in> set p" and "slash \<in> set q" and "parent_prefix p = parent_prefix q"
    and "visible_name s p = visible_name s q"
  shows "p = q"
  by (rule same_visible_name [OF names_always.always [OF assms(1), rule_format, OF assms(2)] assms(3-8)])

theorem visible_names_always_distinct_witness:
  "\<exists>ts s. concurrent toy_sys kernel_request (ts, s) \<and> visible_name s ''/k'' = ''q'' \<and>
     (\<forall>n. nfc toy_ext n = n \<and> slash \<notin> set n \<and> visible_name s (slash # n) = ''q'' \<longrightarrow> slash # n = ''/k'')"
proof -
  obtain s where s: "reachable toy_sys kernel_request s" "raw_names s = [(''/k'', ''q'')]"
    using toy_reachable [of kernel_request "''''"] by (auto simp: slash_def toy_has_q_def)
  then obtain ts where c: "concurrent toy_sys kernel_request (ts, s)" using reachable_concurrent by blast
  from s have vis: "visible_name s ''/k'' = ''q''" by (simp add: visible_name_def)
  have nfc: "nfc_keeps_slash (lib toy_sys)"
    by (auto simp: nfc_keeps_slash_def toy_nfc_def slash_def)
  have "slash # n = ''/k''" if "nfc toy_ext n = n" "slash \<notin> set n" "visible_name s (slash # n) = ''q''" for n
  proof (rule visible_names_always_distinct [OF c nfc])
    have "basename (slash # n) = n" "parent_prefix (slash # n) = ''''"
      using rfind_child [OF that(2), of "[]"] by (simp_all add: basename_def parent_prefix_def)
    with that show "nfc (lib toy_sys) (basename (slash # n)) = basename (slash # n)"
      "parent_prefix (slash # n) = parent_prefix ''/k''"
      by (simp_all add: parent_prefix_def slash_def)
  qed (use that vis in \<open>simp_all add: slash_def toy_nfc_def\<close>)
  with c vis show ?thesis by blast
qed

end
